(* ===== verification/Nuvex_Prelude.thy ===== *)
theory Nuvex_Prelude
  imports Main "HOL-Library.Word" "HOL-Library.Multiset" "HOL-Library.Signed_Division"
begin

text \<open>
  What the component theories share: Go's 64-bit integers as words, the outcome of a Go call
  (a value, a returned error or a run-time panic), decimal formatting as \<open>fmt.Sprintf\<close>
  does it for \<open>%d\<close>, the loop that reads the newest entries of a slice, and the generic
  lemmas on words, sums over maps and sorted lists that the component proofs use.
\<close>

section \<open>Lemma collections\<close>

named_theorems go_int \<open>reading word arithmetic as integer arithmetic when it does not wrap\<close>
named_theorems go_str \<open>lengths and characters of formatted strings\<close>

section \<open>Types\<close>

type_synonym i64 = "64 word"
type_synonym u64 = "64 word"
type_synonym byte = "8 word"
type_synonym bytes = "8 word list"

text \<open>
  A Go function \<open>func (...) (T, error)\<close> returns a value, returns an error, or panics
  (an index or slice out of range, a nil dereference, an integer division by zero). State that was
  changed before a panic stays changed: the operations return the outcome beside the state.
\<close>

datatype ('e, 'a) res = Ok 'a | Err 'e | Panic

fun is_ok :: "('e, 'a) res \<Rightarrow> bool" where
  "is_ok (Ok _) = True"
| "is_ok _ = False"

lemma is_ok_iff: "is_ok r \<longleftrightarrow> (\<exists>v. r = Ok v)"
  by (cases r) auto

section \<open>Signed 64-bit arithmetic\<close>

text \<open>Go's \<open>/\<close> on \<open>int64\<close>: truncation towards zero. Every divisor in the code is a
  non-zero constant or guarded, so the division by zero panic is not needed here.\<close>

definition quot64 :: "i64 \<Rightarrow> i64 \<Rightarrow> i64" where
  "quot64 a b = word_of_int (sint a sdiv sint b)"

lemma sint64_bounds: "- (2 ^ 63) \<le> sint (a :: i64)" "sint (a :: i64) < 2 ^ 63"
  using sint_ge [of a] sint_lt [of a] by simp_all

lemma sint64_of_int:
  assumes "- (2 ^ 63) \<le> i" "i < 2 ^ 63"
  shows "sint (word_of_int i :: i64) = i"
  using assms by (simp add: signed_of_int signed_take_bit_int_eq_self)

lemma sint64_add [go_int]:
  assumes "- (2 ^ 63) \<le> sint a + sint b" "sint a + sint b < 2 ^ 63"
  shows "sint (a + b :: i64) = sint a + sint b"
  using assms by (simp add: sint_word_ariths signed_take_bit_int_eq_self)

lemma sint64_sub [go_int]:
  assumes "- (2 ^ 63) \<le> sint a - sint b" "sint a - sint b < 2 ^ 63"
  shows "sint (a - b :: i64) = sint a - sint b"
  using assms by (simp add: sint_word_ariths signed_take_bit_int_eq_self)

lemma sint64_mult [go_int]:
  assumes "- (2 ^ 63) \<le> sint a * sint b" "sint a * sint b < 2 ^ 63"
  shows "sint (a * b :: i64) = sint a * sint b"
  using assms by (simp add: sint_word_ariths signed_take_bit_int_eq_self)

lemma sdiv_nonneg: "0 \<le> a \<Longrightarrow> 0 < b \<Longrightarrow> a sdiv b = a div b" for a b :: int
  by (cases "a = 0") (simp_all add: signed_divide_int_def)

lemma sint64_quot [go_int]:
  assumes "0 \<le> sint a" "0 < sint b"
  shows "sint (quot64 a b) = sint a div sint b"
proof -
  have "sint a div sint b \<le> sint a"
    using assms by (metis div_by_1 int_one_le_iff_zero_less zdiv_mono2 zero_less_one)
  moreover have "0 \<le> sint a div sint b"
    using assms by (simp add: pos_imp_zdiv_nonneg_iff)
  ultimately show ?thesis
    using assms sint64_bounds [of a]
    by (simp add: quot64_def sdiv_nonneg sint64_of_int)
qed

text \<open>The same 64 bits read as \<open>int64\<close> and as \<open>uint64\<close>.\<close>

lemma sint64_uint: "sint (a :: i64) = (uint a + 2 ^ 63) mod 2 ^ 64 - 2 ^ 63"
  by (simp add: sint_uint signed_take_bit_eq_take_bit_shift take_bit_eq_mod)

lemma uint64_bounds: "0 \<le> uint (a :: u64)" "uint (a :: u64) < 2 ^ 64"
  using uint_lt2p [of a] by simp_all

lemma sint64_cases: "sint (a :: i64) = (if uint a < 2 ^ 63 then uint a else uint a - 2 ^ 64)"
proof (cases "uint a < 2 ^ 63")
  case True
  then have "(uint a + 2 ^ 63) mod 2 ^ 64 = uint a + 2 ^ 63"
    using uint64_bounds [of a] by (intro mod_pos_pos_trivial) simp_all
  with True show ?thesis by (simp add: sint64_uint)
next
  case False
  have "(uint a + 2 ^ 63) mod 2 ^ 64 = (uint a + 2 ^ 63 - 2 ^ 64) mod 2 ^ 64"
    by (metis minus_mod_self2)
  also have "\<dots> = uint a + 2 ^ 63 - 2 ^ 64"
    using False uint64_bounds [of a] by (intro mod_pos_pos_trivial) simp_all
  finally show ?thesis using False by (simp add: sint64_uint)
qed

lemma uint64_nonneg: "0 \<le> sint (a :: i64) \<Longrightarrow> uint a = sint a"
  using uint64_bounds [of a] by (auto simp: sint64_cases split: if_splits)

lemma uint64_neg: "sint (a :: i64) < 0 \<Longrightarrow> uint a = sint a + 2 ^ 64"
  using uint64_bounds [of a] by (auto simp: sint64_cases split: if_splits)

lemma unat64_nonneg: "0 \<le> sint (a :: i64) \<Longrightarrow> int (unat a) = sint a"
  by (simp add: uint64_nonneg)

text \<open>Equality of words from equality of their signed readings.\<close>

lemma i64_eqI: "sint a = sint b \<Longrightarrow> a = b" for a b :: i64
  by (rule signed_word_eqI)

lemma sdiv_smod_pos:
  fixes d b :: int
  assumes "0 \<le> d" "0 < b"
  shows "d sdiv b = d div b" "d smod b = d mod b"
  using assms by (cases "d = 0"; simp add: sdiv_nonneg smod_int_alt_def)+

lemma sdiv_smod_neg:
  fixes d b :: int
  assumes "d < 0" "0 < b"
  shows "d sdiv b = - ((- d) div b)" "d smod b = - ((- d) mod b)"
proof -
  show s: "d sdiv b = - ((- d) div b)" using assms by (simp add: signed_divide_int_def)
  show "d smod b = - ((- d) mod b)"
    using assms by (simp add: smod_int_alt_def)
qed

lemma sdiv_smod_split:
  fixes d b :: int
  assumes "0 < b"
  shows "d = b * (d sdiv b) + d smod b"
proof (cases "0 \<le> d")
  case True
  then show ?thesis using assms by (simp add: sdiv_smod_pos)
next
  case False
  then have "d < 0" by simp
  have "b * (d sdiv b) + d smod b = - (b * ((- d) div b) + (- d) mod b)"
    unfolding sdiv_smod_neg [OF \<open>d < 0\<close> assms] by (simp only: minus_add_distrib mult_minus_right)
  also have "\<dots> = d" by (simp only: mult_div_mod_eq minus_minus)
  finally show ?thesis by simp
qed

section \<open>Time\<close>

text \<open>Times are nanoseconds; \<open>t.Sub(u)\<close> saturates at the ends of \<open>int64\<close>.\<close>

definition time_sub :: "int \<Rightarrow> int \<Rightarrow> int" where
  "time_sub t u = max (- (2 ^ 63)) (min (2 ^ 63 - 1) (t - u))"

section \<open>Decimal formatting\<close>

text \<open>\<open>%d\<close> of \<open>fmt.Sprintf\<close>: the decimal digits, with a leading minus sign for a negative
  \<open>int64\<close>.\<close>

definition digit_char :: "nat \<Rightarrow> char" where
  "digit_char d = char_of (48 + d)"

fun show_nat :: "nat \<Rightarrow> string" where
  "show_nat n = (if n < 10 then [digit_char n] else show_nat (n div 10) @ [digit_char (n mod 10)])"

declare show_nat.simps [simp del]

definition show_int :: "int \<Rightarrow> string" where
  "show_int i = (if i < 0 then CHR ''-'' # show_nat (nat (- i)) else show_nat (nat i))"

definition show_i64 :: "i64 \<Rightarrow> string" where
  "show_i64 w = show_int (sint w)"

definition show_u64 :: "u64 \<Rightarrow> string" where
  "show_u64 w = show_nat (unat w)"

definition is_digit :: "char \<Rightarrow> bool" where
  "is_digit c \<longleftrightarrow> (48 :: nat) \<le> of_char c \<and> of_char c < (58 :: nat)"

fun read_nat :: "nat \<Rightarrow> string \<Rightarrow> nat" where
  "read_nat acc [] = acc"
| "read_nat acc (c # cs) = read_nat (10 * acc + (of_char c - 48)) cs"

lemma of_digit_char: "d < 10 \<Longrightarrow> of_char (digit_char d) = 48 + d" for d :: nat
  by (simp add: digit_char_def)

lemma digit_char_is_digit: "d < 10 \<Longrightarrow> is_digit (digit_char d)"
  by (simp add: is_digit_def of_digit_char)

lemma show_nat_digits [go_str]: "c \<in> set (show_nat n) \<Longrightarrow> is_digit c"
proof (induction n arbitrary: c rule: show_nat.induct)
  case (1 n)
  then show ?case
    by (cases "n < 10") (auto simp: show_nat.simps [of n] digit_char_is_digit)
qed

lemma show_nat_nonempty [simp]: "show_nat n \<noteq> []"
  by (subst show_nat.simps) simp

lemma read_nat_append: "read_nat acc (xs @ [c]) = 10 * read_nat acc xs + (of_char c - 48)"
  by (induction xs arbitrary: acc) auto

lemma read_show_nat: "read_nat 0 (show_nat n) = n"
proof (induction n rule: show_nat.induct)
  case (1 n)
  then show ?case
    by (cases "n < 10") (auto simp: show_nat.simps [of n] read_nat_append of_digit_char)
qed

lemma show_nat_inject [simp]: "show_nat m = show_nat n \<longleftrightarrow> m = n"
  by (metis read_show_nat)

lemma show_u64_inject [simp]: "show_u64 a = show_u64 b \<longleftrightarrow> a = b"
  by (simp add: show_u64_def word_unat_eq_iff)

lemma minus_not_digit: "\<not> is_digit CHR ''-''"
  by (simp add: is_digit_def)

lemma show_int_inject [simp]: "show_int i = show_int j \<longleftrightarrow> i = j"
proof
  assume eq: "show_int i = show_int j"
  have "CHR ''-'' \<notin> set (show_nat n)" for n
    using show_nat_digits minus_not_digit by blast
  then have "CHR ''-'' # xs \<noteq> show_nat n" and "show_nat n \<noteq> CHR ''-'' # xs" for xs n
    by (metis list.set_intros(1))+
  then show "i = j"
    using eq by (auto simp: show_int_def split: if_splits)
qed simp

lemma show_i64_inject [simp]: "show_i64 a = show_i64 b \<longleftrightarrow> a = b"
  by (auto simp: show_i64_def intro: i64_eqI)

lemma colon_not_in_show [go_str]:
  "CHR '':'' \<notin> set (show_nat n)" "CHR '':'' \<notin> set (show_int i)"
  "CHR '':'' \<notin> set (show_i64 a)" "CHR '':'' \<notin> set (show_u64 b)"
  using show_nat_digits [of "CHR '':''"]
  by (auto simp: is_digit_def show_int_def show_i64_def show_u64_def)

text \<open>Splitting a formatted string at a separator that one side does not contain.\<close>

lemma sep_left [go_str]:
  assumes "c \<notin> set xs" "c \<notin> set xs'"
  shows "xs @ c # ys = xs' @ c # ys' \<longleftrightarrow> xs = xs' \<and> ys = ys'"
  using assms
proof (induction xs arbitrary: xs')
  case Nil
  then show ?case by (cases xs') auto
next
  case (Cons x xs)
  then show ?case by (cases xs') auto
qed

lemma sep_right [go_str]:
  assumes "c \<notin> set ys" "c \<notin> set ys'"
  shows "xs @ c # ys = xs' @ c # ys' \<longleftrightarrow> xs = xs' \<and> ys = ys'"
proof -
  have "xs @ c # ys = xs' @ c # ys' \<longleftrightarrow> rev ys @ c # rev xs = rev ys' @ c # rev xs'"
    by (metis append.assoc append_Cons append_Nil rev.simps(2) rev_append rev_rev_ident)
  then show ?thesis
    using assms by (auto simp: sep_left)
qed

section \<open>Slices\<close>

text \<open>\<open>s[:n]\<close> panics when \<open>n > len(s)\<close>: the guard of every log line that abbreviates a
  string.\<close>

definition slice_ok :: "nat \<Rightarrow> 'a list \<Rightarrow> bool" where
  "slice_ok n s \<longleftrightarrow> n \<le> length s"

text \<open>\<open>strings.TrimPrefix\<close>.\<close>

definition trim_prefix :: "string \<Rightarrow> string \<Rightarrow> string" where
  "trim_prefix p s = (if take (length p) s = p then drop (length p) s else s)"

text \<open>
  The loop shared by \<open>GetTransactions\<close>, \<open>GetRecentBlocks\<close> and \<open>GetSwapHistory\<close>: clamp the
  limit, allocate (\<open>make\<close> panics for a negative length) and read from the newest entry down.
\<close>

definition newest_first :: "int \<Rightarrow> 'a list \<Rightarrow> ('e, 'a list) res" where
  "newest_first limit xs =
     (let total = length xs; l = (if limit > int total then int total else limit)
      in if l < 0 then Panic else Ok (map (\<lambda>i. xs ! (total - 1 - i)) [0..<nat l]))"

lemma newest_first_eq: "0 \<le> limit \<Longrightarrow> newest_first limit xs = Ok (take (nat limit) (rev xs))"
  by (auto simp: newest_first_def Let_def rev_nth intro!: nth_equalityI)

lemma newest_first_neg: "limit < 0 \<Longrightarrow> newest_first limit xs = Panic"
  by (simp add: newest_first_def)

lemma ex_nat_cases: "(\<exists>i. P i) \<longleftrightarrow> P 0 \<or> (\<exists>i. P (Suc i))"
  by (metis not0_implies_Suc)

section \<open>Maps\<close>

text \<open>The sum of a field over the entries of a map, in the ring of the field's type.\<close>

definition sum_over :: "('v \<Rightarrow> 'b::comm_monoid_add) \<Rightarrow> ('k \<rightharpoonup> 'v) \<Rightarrow> 'b" where
  "sum_over f m = (\<Sum>k\<in>dom m. f (the (m k)))"

lemma sum_over_empty [simp]: "sum_over f Map.empty = 0"
  by (simp add: sum_over_def)

lemma sum_over_insert:
  assumes "finite (dom m)" "m k = None"
  shows "sum_over f (m(k \<mapsto> v)) = sum_over f m + f v"
proof -
  have "k \<notin> dom m" using assms(2) by auto
  then have "(\<Sum>j\<in>dom m. f (the ((m(k \<mapsto> v)) j))) = (\<Sum>j\<in>dom m. f (the (m j)))"
    by (intro sum.cong) auto
  with \<open>k \<notin> dom m\<close> show ?thesis
    using assms(1) by (simp add: sum_over_def add.commute)
qed

lemma sum_over_split:
  assumes "finite (dom m)" "k \<in> dom m"
  shows "sum_over f m = f (the (m k)) + (\<Sum>j\<in>dom m - {k}. f (the (m j)))"
  using assms by (simp add: sum_over_def sum.remove)

lemma sum_over_update:
  fixes f :: "'v \<Rightarrow> 'b::ab_group_add"
  assumes "finite (dom m)" "m k = Some u"
  shows "sum_over f (m(k \<mapsto> v)) = sum_over f m - f u + f v"
proof -
  let ?m = "m(k \<mapsto> v)"
  have d: "dom ?m = dom m" "k \<in> dom m" using assms(2) by auto
  have "(\<Sum>j\<in>dom m - {k}. f (the (?m j))) = (\<Sum>j\<in>dom m - {k}. f (the (m j)))"
    by (intro sum.cong) auto
  then show ?thesis
    using sum_over_split [of m k f] sum_over_split [of ?m k f] assms d by simp
qed

lemma sum_over_delete:
  fixes f :: "'v \<Rightarrow> 'b::ab_group_add"
  assumes "finite (dom m)" "m k = Some u"
  shows "sum_over f (m(k := None)) = sum_over f m - f u"
proof -
  have "sum_over f ((m(k := None))(k \<mapsto> u)) = sum_over f (m(k := None)) + f u"
    using assms by (intro sum_over_insert) auto
  moreover have "(m(k := None))(k \<mapsto> u) = m" using assms(2) by auto
  ultimately show ?thesis by (simp add: algebra_simps)
qed

text \<open>Reading every value of a map in an order that enumerates its keys, as \<open>range\<close> does.\<close>

definition enumerates :: "'k list \<Rightarrow> ('k \<rightharpoonup> 'v) \<Rightarrow> bool" where
  "enumerates ks m \<longleftrightarrow> distinct ks \<and> set ks = dom m"

definition range_values :: "'k list \<Rightarrow> ('k \<rightharpoonup> 'v) \<Rightarrow> 'v list" where
  "range_values ks m = map (\<lambda>k. the (m k)) ks"

lemma set_range_values: "enumerates ks m \<Longrightarrow> set (range_values ks m) = ran m"
  by (force simp: enumerates_def range_values_def ran_def dom_def)

lemma length_range_values [simp]: "length (range_values ks m) = length ks"
  by (simp add: range_values_def)

lemma enumerates_card: "enumerates ks m \<Longrightarrow> length ks = card (dom m)"
  by (auto simp: enumerates_def distinct_card [symmetric])

section \<open>Descending sort\<close>

text \<open>
  \<open>sort.Slice\<close> with \<open>a[i].key > a[j].key\<close>. It is not stable, and the list it sorts comes from a
  \<open>range\<close> over a map, whose order is arbitrary: a stable sort of an arbitrary order gives every
  result it can give.
\<close>

definition sort_desc :: "('a \<Rightarrow> int) \<Rightarrow> 'a list \<Rightarrow> 'a list" where
  "sort_desc key xs = sort_key (\<lambda>x. - key x) xs"

lemma mset_sort_desc [simp]: "mset (sort_desc key xs) = mset xs"
  by (simp add: sort_desc_def)

lemma set_sort_desc [simp]: "set (sort_desc key xs) = set xs"
  by (simp add: sort_desc_def)

lemma length_sort_desc [simp]: "length (sort_desc key xs) = length xs"
  by (simp add: sort_desc_def)

lemma distinct_sort_desc [simp]: "distinct (sort_desc key xs) = distinct xs"
  by (simp add: sort_desc_def)

lemma sorted_sort_desc: "sorted_wrt (\<lambda>x y. key x \<ge> key y) (sort_desc key xs)"
proof -
  have "sorted (map (\<lambda>x. - key x) (sort_desc key xs))"
    by (simp add: sort_desc_def)
  then show ?thesis
    by (simp add: sorted_map)
qed

lemma sorted_wrt_take_drop:
  assumes "sorted_wrt P xs" "x \<in> set (take n xs)" "y \<in> set (drop n xs)"
  shows "P x y"
  using assms by (metis append_take_drop_id sorted_wrt_append)

end
