(* ===== verification/Nuvex_Sha256_Vectors.thy ===== *)
theory Nuvex_Sha256_Vectors
  imports Nuvex_Sha256
begin

text \<open>
  The SHA-256 of the model on the one-block test vector of FIPS 180-4, evaluated by the kernel.
\<close>

lemma sha256_abc:
  "sha_hex ''abc'' = ''ba7816bf8f01cfea414140de5dae2223b00361a396177a9cb410ff61f20015ad''"
  by code_simp

end
