(* ===== verification/Nuvex_Float64.thy ===== *)
theory Nuvex_Float64
  imports Complex_Main Nuvex_Prelude
begin

text \<open>
  Go's \<open>float64\<close> (IEEE 754 binary64, round to nearest, ties to even), which the exchange, the
  staking rewards and the governance thresholds compute with. A finite value is the rational it
  stands for; every operation is the exact rational operation followed by \<open>rnd\<close>. Positive and
  negative zero are not distinguished. The lemmas give what proofs about rounded code need:
  \<open>rnd\<close> is monotone, fixes representable numbers, and has a relative error of at most
  \<open>2^-53\<close> on the normal range.
\<close>

section \<open>Powers of two and binary exponents\<close>

definition pow2 :: "int \<Rightarrow> rat" where
  "pow2 e = 2 powi e"

fun bits :: "nat \<Rightarrow> nat" where
  "bits n = (if n = 0 then 0 else Suc (bits (n div 2)))"

declare bits.simps [simp del]

definition ilog2 :: "rat \<Rightarrow> int" where
  "ilog2 x =
     (let (p, q) = quotient_of x; e = int (bits (nat p)) - int (bits (nat q))
      in if pow2 e \<le> x then e else e - 1)"

definition round_even :: "rat \<Rightarrow> int" where
  "round_even x =
     (let n = \<lfloor>x\<rfloor>; f = x - of_int n
      in if f < 1/2 then n else if f > 1/2 then n + 1 else if even n then n else n + 1)"

text \<open>The exponent of the last place of a number's binade, subnormals included.\<close>

definition ulp_exp :: "rat \<Rightarrow> int" where
  "ulp_exp x = max (ilog2 \<bar>x\<bar> - 52) (-1074)"

definition rnd :: "rat \<Rightarrow> rat" where
  "rnd x = (if x = 0 then 0 else of_int (round_even (x / pow2 (ulp_exp x))) * pow2 (ulp_exp x))"

lemma pow2_pos [simp]: "0 < pow2 e"
  by (simp add: pow2_def)

lemma pow2_nonneg [simp]: "0 \<le> pow2 e"
  by (simp add: less_imp_le)

lemma pow2_nz [simp]: "pow2 e \<noteq> 0"
  by (simp add: pow2_def)

lemma pow2_add: "pow2 (a + b) = pow2 a * pow2 b"
  by (simp add: pow2_def power_int_add)

lemma pow2_diff: "pow2 (a - b) = pow2 a / pow2 b"
  by (simp add: pow2_def power_int_diff)

lemma pow2_mono: "a \<le> b \<Longrightarrow> pow2 a \<le> pow2 b"
  by (simp add: pow2_def power_int_increasing)

lemma pow2_strict_mono: "a < b \<Longrightarrow> pow2 a < pow2 b"
  by (simp add: pow2_def power_int_strict_increasing)

lemma pow2_le_iff [simp]: "pow2 a \<le> pow2 b \<longleftrightarrow> a \<le> b"
  by (meson leD leI pow2_mono pow2_strict_mono)

lemma pow2_less_iff [simp]: "pow2 a < pow2 b \<longleftrightarrow> a < b"
  by (meson leD leI pow2_mono pow2_strict_mono)

lemma pow2_nat: "pow2 (int n) = 2 ^ n"
  by (simp add: pow2_def)

lemma pow2_of_nonneg: "0 \<le> e \<Longrightarrow> pow2 e = of_int (2 ^ nat e)"
  by (simp add: pow2_def power_int_def)

lemma bits_bounds: "0 < n \<Longrightarrow> 2 ^ bits n \<le> 2 * n \<and> n < 2 ^ bits n"
proof (induction n rule: bits.induct)
  case (1 n)
  show ?case
  proof (cases "n div 2 = 0")
    case True
    with "1.prems" have "n = 1" by auto
    then show ?thesis by (simp add: bits.simps [of "Suc 0"] bits.simps [of 0])
  next
    case False
    with 1 have "2 ^ bits (n div 2) \<le> 2 * (n div 2) \<and> n div 2 < 2 ^ bits (n div 2)" by auto
    then have "2 ^ bits (n div 2) \<le> n \<and> n < 2 * 2 ^ bits (n div 2)" by arith
    with "1.prems" show ?thesis by (simp add: bits.simps [of n])
  qed
qed

lemma bits_pow2:
  assumes "0 < p"
  shows "pow2 (int (bits (nat p))) \<le> 2 * of_int p" and "of_int p < pow2 (int (bits (nat p)))"
proof -
  have b: "2 ^ bits (nat p) \<le> 2 * nat p" "nat p < 2 ^ bits (nat p)"
    using bits_bounds [of "nat p"] assms by simp_all
  have n: "(of_int p :: rat) = of_nat (nat p)" using assms by simp
  show "pow2 (int (bits (nat p))) \<le> 2 * of_int p"
    using b(1) unfolding n pow2_nat
    by (metis of_nat_le_iff of_nat_mult of_nat_numeral of_nat_power)
  show "of_int p < pow2 (int (bits (nat p)))"
    using b(2) unfolding n pow2_nat by (metis of_nat_less_iff of_nat_numeral of_nat_power)
qed

lemma ilog2_bounds:
  assumes "0 < x"
  shows "pow2 (ilog2 x) \<le> x" and "x < pow2 (ilog2 x + 1)"
proof -
  obtain p q where pq: "quotient_of x = (p, q)" by (cases "quotient_of x")
  have q: "0 < q" and x: "x = of_int p / of_int q"
    using pq quotient_of_denom_pos quotient_of_div by blast+
  have p: "0 < p" using assms q x by (simp add: zero_less_divide_iff)
  let ?bp = "int (bits (nat p))" and ?bq = "int (bits (nat q))"
  note P = bits_pow2 [OF p] and Q = bits_pow2 [OF q]
  let ?e = "?bp - ?bq"
  have up: "x < pow2 (?e + 1)"
  proof -
    have "x < pow2 ?bp / of_int q" using P q x by (simp add: divide_strict_right_mono)
    also have "\<dots> \<le> pow2 ?bp / (pow2 ?bq / 2)"
      using Q q by (intro divide_left_mono) (auto simp: pow2_nz)
    also have "\<dots> = pow2 (?e + 1)" by (simp add: pow2_add pow2_diff) (simp add: pow2_def)
    finally show ?thesis .
  qed
  have lo: "pow2 (?e - 1) \<le> x"
  proof -
    have "pow2 (?e - 1) = (pow2 ?bp / 2) / pow2 ?bq" by (simp add: pow2_diff) (simp add: pow2_def)
    also have "\<dots> \<le> of_int p / pow2 ?bq" using P by (intro divide_right_mono) auto
    also have "\<dots> \<le> x" unfolding x using P Q p q by (intro divide_left_mono) auto
    finally show ?thesis .
  qed
  show "pow2 (ilog2 x) \<le> x" and "x < pow2 (ilog2 x + 1)"
    using up lo by (auto simp: ilog2_def pq Let_def)
qed

lemma ilog2_less: "0 < x \<Longrightarrow> x < pow2 k \<Longrightarrow> ilog2 x < k"
  using ilog2_bounds(1) [of x] pow2_less_iff [of "ilog2 x" k] by linarith

lemma ilog2_ge: "0 < x \<Longrightarrow> pow2 k \<le> x \<Longrightarrow> k \<le> ilog2 x"
  using ilog2_bounds(2) [of x] pow2_less_iff [of k "ilog2 x + 1"] by linarith

lemma ilog2_mono: "0 < x \<Longrightarrow> x \<le> y \<Longrightarrow> ilog2 x \<le> ilog2 y"
  using ilog2_bounds(1) [of x] ilog2_ge [of y "ilog2 x"] by linarith

lemma ulp_exp_mono: "0 < x \<Longrightarrow> x \<le> y \<Longrightarrow> ulp_exp x \<le> ulp_exp y"
  using ilog2_mono [of x y] by (simp add: ulp_exp_def)

lemma ulp_exp_upper: "x \<noteq> 0 \<Longrightarrow> \<bar>x\<bar> < pow2 (ulp_exp x + 53)"
proof -
  assume "x \<noteq> 0"
  then have "\<bar>x\<bar> < pow2 (ilog2 \<bar>x\<bar> + 1)" by (intro ilog2_bounds) simp
  also have "\<dots> \<le> pow2 (ulp_exp x + 53)" by (simp add: ulp_exp_def)
  finally show ?thesis .
qed


section \<open>Rounding to an integer\<close>

lemma round_even_of_int [simp]: "round_even (of_int n) = n"
  by (simp add: round_even_def)

lemma round_even_bounds: "of_int (round_even x) - x \<le> 1/2" "x - of_int (round_even x) \<le> 1/2"
  by (auto simp: round_even_def Let_def) linarith+

lemma round_even_mono: "x \<le> y \<Longrightarrow> round_even x \<le> round_even y"
proof -
  assume xy: "x \<le> y"
  then have f: "\<lfloor>x\<rfloor> \<le> \<lfloor>y\<rfloor>" by (rule floor_mono)
  show ?thesis
  proof (cases "\<lfloor>x\<rfloor> = \<lfloor>y\<rfloor>")
    case True
    with xy show ?thesis by (auto simp: round_even_def Let_def)
  next
    case False
    with f show ?thesis by (auto simp: round_even_def Let_def)
  qed
qed

lemma round_even_ge: "of_int n \<le> x \<Longrightarrow> n \<le> round_even x"
  using round_even_mono [of "of_int n" x] by simp

lemma round_even_le: "x \<le> of_int n \<Longrightarrow> round_even x \<le> n"
  using round_even_mono [of x "of_int n"] by simp

lemma round_even_minus: "round_even (- x) = - round_even x"
proof (cases "of_int \<lfloor>x\<rfloor> = x")
  case True
  then show ?thesis by (metis of_int_minus round_even_of_int)
next
  case False
  then have "\<lfloor>- x\<rfloor> = - \<lfloor>x\<rfloor> - 1" by linarith
  then show ?thesis using False by (auto simp: round_even_def Let_def)
qed

section \<open>Rounding to a float\<close>

text \<open>The representable numbers: a 53-bit integer times a power of two not below \<open>2^-1074\<close>.\<close>

definition representable :: "rat \<Rightarrow> bool" where
  "representable x \<longleftrightarrow> (\<exists>m k. x = of_int m * pow2 k \<and> \<bar>m\<bar> < 2 ^ 53 \<and> -1074 \<le> k)"

lemma rnd_0 [simp]: "rnd 0 = 0"
  by (simp add: rnd_def)

lemma rnd_minus: "rnd (- x) = - rnd x"
  by (simp add: rnd_def ulp_exp_def round_even_minus)

lemma rnd_nonneg: "0 \<le> x \<Longrightarrow> 0 \<le> rnd x"
  using round_even_ge [of 0 "x / pow2 (ulp_exp x)"] by (simp add: rnd_def)

lemma rnd_multiple_ge:
  assumes "0 < x" "of_int n * pow2 (ulp_exp x) \<le> x"
  shows "of_int n * pow2 (ulp_exp x) \<le> rnd x"
proof -
  have "of_int n \<le> x / pow2 (ulp_exp x)" using assms(2) by (simp add: pos_le_divide_eq)
  then have "n \<le> round_even (x / pow2 (ulp_exp x))" by (rule round_even_ge)
  then show ?thesis using assms(1) by (simp add: rnd_def)
qed

lemma rnd_multiple_le:
  assumes "0 < x" "x \<le> of_int n * pow2 (ulp_exp x)"
  shows "rnd x \<le> of_int n * pow2 (ulp_exp x)"
proof -
  have "x / pow2 (ulp_exp x) \<le> of_int n" using assms(2) by (simp add: pos_divide_le_eq)
  then have "round_even (x / pow2 (ulp_exp x)) \<le> n" by (rule round_even_le)
  then show ?thesis using assms(1) by (simp add: rnd_def)
qed

lemma rnd_mono_pos:
  assumes "0 < x" "x \<le> y"
  shows "rnd x \<le> rnd y"
proof (cases "ulp_exp x = ulp_exp y")
  case True
  have "round_even (x / pow2 (ulp_exp x)) \<le> round_even (y / pow2 (ulp_exp x))"
    using assms(2) by (intro round_even_mono divide_right_mono) auto
  then show ?thesis using assms True by (simp add: rnd_def)
next
  case False
  with ulp_exp_mono [OF assms] have lt: "ulp_exp x < ulp_exp y" by simp
  have y: "0 < y" using assms by simp
  have ey: "ulp_exp y = ilog2 y - 52" using lt y by (auto simp: ulp_exp_def)
  have "x < pow2 (ulp_exp x + 53)" using ulp_exp_upper [of x] assms(1) by simp
  then have "x \<le> of_int (2 ^ 53) * pow2 (ulp_exp x)"
    by (simp add: pow2_add) (simp add: pow2_def power_int_def)
  then have "rnd x \<le> of_int (2 ^ 53) * pow2 (ulp_exp x)"
    using assms(1) rnd_multiple_le by blast
  also have "\<dots> = pow2 (ulp_exp x + 53)" by (simp add: pow2_add) (simp add: pow2_def power_int_def)
  also have "\<dots> \<le> pow2 (ulp_exp y + 52)" using lt by simp
  also have "\<dots> = of_int (2 ^ 52) * pow2 (ulp_exp y)"
    by (simp add: pow2_add) (simp add: pow2_def power_int_def)
  also have "\<dots> \<le> rnd y"
  proof (rule rnd_multiple_ge [OF y])
    have "of_int (2 ^ 52) * pow2 (ulp_exp y) = pow2 (ilog2 y)"
      unfolding ey by (simp add: pow2_diff) (simp add: pow2_def power_int_def)
    then show "of_int (2 ^ 52) * pow2 (ulp_exp y) \<le> y" using ilog2_bounds(1) [OF y] by simp
  qed
  finally show ?thesis .
qed

lemma rnd_mono: "x \<le> y \<Longrightarrow> rnd x \<le> rnd y"
proof -
  assume xy: "x \<le> y"
  consider "0 < x" | "x \<le> 0" "0 \<le> y" | "y < 0" using xy by linarith
  then show ?thesis
  proof cases
    case 1 then show ?thesis using xy by (rule rnd_mono_pos)
  next
    case 2
    then show ?thesis using rnd_nonneg [of y] rnd_nonneg [of "- x"] by (simp add: rnd_minus)
  next
    case 3
    then show ?thesis using rnd_mono_pos [of "- y" "- x"] xy by (simp add: rnd_minus)
  qed
qed

lemma rnd_representable:
  assumes "representable x"
  shows "rnd x = x"
proof (cases "x = 0")
  case False
  obtain m k where x: "x = of_int m * pow2 k" and m: "\<bar>m\<bar> < 2 ^ 53" and k: "-1074 \<le> k"
    using assms by (auto simp: representable_def)
  have "of_int \<bar>m\<bar> < (of_int (2 ^ 53) :: rat)" using m by (simp only: of_int_less_iff)
  then have "\<bar>x\<bar> < pow2 (53 + k)"
    unfolding x pow2_add by (simp add: abs_mult pow2_of_nonneg)
  then have "ilog2 \<bar>x\<bar> < 53 + k" using False by (intro ilog2_less) auto
  then have e: "ulp_exp x \<le> k" using k by (simp add: ulp_exp_def)
  have "x / pow2 (ulp_exp x) = of_int m * pow2 (k - ulp_exp x)"
    unfolding x by (simp add: pow2_diff)
  also have "\<dots> = of_int (m * 2 ^ nat (k - ulp_exp x))"
    using e by (simp add: pow2_of_nonneg)
  finally have "of_int (round_even (x / pow2 (ulp_exp x))) = x / pow2 (ulp_exp x)"
    by (metis round_even_of_int)
  with False show ?thesis by (simp add: rnd_def)
qed simp

lemma representable_of_int: "\<bar>n\<bar> \<le> 2 ^ 53 \<Longrightarrow> -1074 \<le> k \<Longrightarrow> representable (of_int n * pow2 k)"
proof -
  assume n: "\<bar>n\<bar> \<le> 2 ^ 53" and k: "-1074 \<le> k"
  show ?thesis
  proof (cases "\<bar>n\<bar> = 2 ^ 53")
    case True
    then have "n = 2 * sgn n * 2 ^ 52" by (auto simp: sgn_if abs_if split: if_splits)
    then have "of_int n * pow2 k = of_int (sgn n * 2 ^ 52) * pow2 (k + 1)"
      by (simp add: pow2_add) (simp add: pow2_def)
    moreover have "\<bar>sgn n * 2 ^ 52\<bar> < (2 :: int) ^ 53" by (simp add: sgn_if)
    ultimately show ?thesis using k unfolding representable_def
      by (intro exI [of _ "sgn n * 2 ^ 52"] exI [of _ "k + 1"]) simp
  next
    case False
    with n k show ?thesis unfolding representable_def by (intro exI [of _ n] exI [of _ k]) simp
  qed
qed

lemma representable_rnd: "representable (rnd x)"
proof (cases "x = 0")
  case True
  then show ?thesis using representable_of_int [of 0 0] by simp
next
  case False
  let ?u = "pow2 (ulp_exp x)"
  have "\<bar>x / ?u\<bar> \<le> of_int (2 ^ 53)"
    using ulp_exp_upper [OF False] by (simp add: pow2_add divide_le_eq pow2_of_nonneg mult.commute)
  then have "x / ?u \<le> of_int (2 ^ 53)" "of_int (- (2 ^ 53)) \<le> x / ?u"
    unfolding abs_le_iff of_int_minus by linarith+
  then have "\<bar>round_even (x / ?u)\<bar> \<le> 2 ^ 53"
    using round_even_le [of "x / ?u" "2 ^ 53"] round_even_ge [of "- (2 ^ 53)" "x / ?u"] by simp
  then have "representable (of_int (round_even (x / ?u)) * ?u)"
    by (rule representable_of_int) (simp add: ulp_exp_def)
  with False show ?thesis by (simp add: rnd_def)
qed

lemma rnd_idem [simp]: "rnd (rnd x) = rnd x"
  by (simp add: representable_rnd rnd_representable)

lemma representable_int: "\<bar>n\<bar> \<le> 2 ^ 53 \<Longrightarrow> representable (of_int n)"
  using representable_of_int [of n 0] by (simp add: pow2_def)

lemma rnd_int: "\<bar>n\<bar> \<le> 2 ^ 53 \<Longrightarrow> rnd (of_int n) = of_int n"
  by (simp add: representable_int rnd_representable)

lemma rnd_numeral: "(numeral w :: int) \<le> 2 ^ 53 \<Longrightarrow> rnd (numeral w) = numeral w"
  using rnd_int [of "numeral w"] by simp

lemma rnd_1 [simp]: "rnd 1 = 1"
  using rnd_int [of 1] by simp

lemma rnd_error: "\<bar>rnd x - x\<bar> \<le> pow2 (ulp_exp x) / 2"
proof (cases "x = 0")
  case False
  let ?u = "pow2 (ulp_exp x)"
  have "\<bar>of_int (round_even (x / ?u)) - x / ?u\<bar> \<le> 1/2"
    using round_even_bounds [of "x / ?u"] by linarith
  then have "\<bar>of_int (round_even (x / ?u)) - x / ?u\<bar> * ?u \<le> ?u / 2"
    by (simp add: mult_right_mono [of _ "1/2" ?u, simplified])
  also have "\<bar>of_int (round_even (x / ?u)) - x / ?u\<bar> * ?u = \<bar>rnd x - x\<bar>"
    using False by (simp add: rnd_def abs_mult_pos left_diff_distrib)
  finally show ?thesis .
qed simp

lemma rnd_rel_error:
  assumes "pow2 (-1022) \<le> \<bar>x\<bar>"
  shows "\<bar>rnd x - x\<bar> \<le> \<bar>x\<bar> * pow2 (-53)"
proof -
  have x: "0 < \<bar>x\<bar>" using assms pow2_pos [of "-1022"] by linarith
  have "-1022 \<le> ilog2 \<bar>x\<bar>" using ilog2_ge [OF x assms] .
  then have "pow2 (ulp_exp x) / 2 = pow2 (ilog2 \<bar>x\<bar>) * pow2 (-53)"
    by (simp add: ulp_exp_def pow2_add [symmetric] pow2_diff) (simp add: pow2_def power_int_def)
  also have "\<dots> \<le> \<bar>x\<bar> * pow2 (-53)" using ilog2_bounds(1) [OF x] by simp
  finally show ?thesis using rnd_error [of x] by linarith
qed

section \<open>The type float64\<close>

datatype f64 = Fin rat | PInf | NInf | NaN

definition mk :: "rat \<Rightarrow> f64" where
  "mk x = (let r = rnd x in
     if pow2 1024 \<le> r then PInf else if r \<le> - pow2 1024 then NInf else Fin r)"

fun fneg :: "f64 \<Rightarrow> f64" where
  "fneg (Fin x) = Fin (- x)"
| "fneg PInf = NInf"
| "fneg NInf = PInf"
| "fneg NaN = NaN"

fun fadd :: "f64 \<Rightarrow> f64 \<Rightarrow> f64" where
  "fadd (Fin x) (Fin y) = mk (x + y)"
| "fadd NaN _ = NaN"
| "fadd _ NaN = NaN"
| "fadd PInf NInf = NaN"
| "fadd NInf PInf = NaN"
| "fadd PInf _ = PInf"
| "fadd NInf _ = NInf"
| "fadd _ PInf = PInf"
| "fadd _ NInf = NInf"

definition fsub :: "f64 \<Rightarrow> f64 \<Rightarrow> f64" where
  "fsub x y = fadd x (fneg y)"

text \<open>Signed infinity times, or divided by, a finite number.\<close>

definition inf_sgn :: "bool \<Rightarrow> rat \<Rightarrow> f64" where
  "inf_sgn pos x = (if x = 0 then NaN else if pos = (0 < x) then PInf else NInf)"

fun fmul :: "f64 \<Rightarrow> f64 \<Rightarrow> f64" where
  "fmul (Fin x) (Fin y) = mk (x * y)"
| "fmul NaN _ = NaN"
| "fmul _ NaN = NaN"
| "fmul PInf (Fin x) = inf_sgn True x"
| "fmul NInf (Fin x) = inf_sgn False x"
| "fmul (Fin x) PInf = inf_sgn True x"
| "fmul (Fin x) NInf = inf_sgn False x"
| "fmul PInf PInf = PInf"
| "fmul NInf NInf = PInf"
| "fmul PInf NInf = NInf"
| "fmul NInf PInf = NInf"

fun fdiv :: "f64 \<Rightarrow> f64 \<Rightarrow> f64" where
  "fdiv (Fin x) (Fin y) =
     (if y = 0 then (if x = 0 then NaN else if 0 < x then PInf else NInf) else mk (x / y))"
| "fdiv NaN _ = NaN"
| "fdiv _ NaN = NaN"
| "fdiv (Fin x) PInf = Fin 0"
| "fdiv (Fin x) NInf = Fin 0"
| "fdiv PInf (Fin x) = (if x = 0 then PInf else inf_sgn True x)"
| "fdiv NInf (Fin x) = (if x = 0 then NInf else inf_sgn False x)"
| "fdiv _ _ = NaN"

text \<open>Comparisons with a NaN are false.\<close>

fun fle :: "f64 \<Rightarrow> f64 \<Rightarrow> bool" where
  "fle (Fin x) (Fin y) = (x \<le> y)"
| "fle NaN _ = False"
| "fle _ NaN = False"
| "fle NInf _ = True"
| "fle _ PInf = True"
| "fle _ _ = False"

definition flt :: "f64 \<Rightarrow> f64 \<Rightarrow> bool" where
  "flt x y = (fle x y \<and> \<not> fle y x)"

fun fabs :: "f64 \<Rightarrow> f64" where
  "fabs (Fin x) = Fin \<bar>x\<bar>"
| "fabs NaN = NaN"
| "fabs _ = PInf"

text \<open>\<open>math.Min\<close>, \<open>math.Floor\<close>.\<close>

definition fmin :: "f64 \<Rightarrow> f64 \<Rightarrow> f64" where
  "fmin x y = (if x = NInf \<or> y = NInf then NInf else if x = NaN \<or> y = NaN then NaN
               else if flt x y then x else y)"

fun ffloor :: "f64 \<Rightarrow> f64" where
  "ffloor (Fin x) = Fin (of_int \<lfloor>x\<rfloor>)"
| "ffloor x = x"

text \<open>\<open>math.Sqrt\<close>, correctly rounded: the integer square root in units of the last place,
  corrected to the nearest.\<close>

fun isqrt :: "nat \<Rightarrow> nat" where
  "isqrt n = (if n = 0 then 0 else
     let r = 2 * isqrt (n div 4) in if (r + 1) * (r + 1) \<le> n then r + 1 else r)"

declare isqrt.simps [simp del]

definition sqrt_rnd :: "rat \<Rightarrow> rat" where
  "sqrt_rnd x =
     (let e = max (ilog2 x div 2 - 52) (-1074);
          y = x / pow2 (2 * e);
          n = isqrt (nat \<lfloor>y\<rfloor>);
          h = (of_nat n + 1/2) * (of_nat n + 1/2);
          m = (if y < h then n else if h < y then n + 1 else if even n then n else n + 1)
      in of_nat m * pow2 e)"

fun fsqrt :: "f64 \<Rightarrow> f64" where
  "fsqrt (Fin x) = (if x < 0 then NaN else if x = 0 then Fin 0 else Fin (sqrt_rnd x))"
| "fsqrt PInf = PInf"
| "fsqrt _ = NaN"

text \<open>Conversions. \<open>float64(n)\<close> rounds. \<open>uint64(f)\<close> truncates; out of range (implementation-defined
  in Go) it is what amd64 computes.\<close>

definition f64_of_int :: "int \<Rightarrow> f64" where
  "f64_of_int n = mk (of_int n)"

definition trunc :: "rat \<Rightarrow> int" where
  "trunc x = (if 0 \<le> x then \<lfloor>x\<rfloor> else \<lceil>x\<rceil>)"

fun u64_of_f64 :: "f64 \<Rightarrow> u64" where
  "u64_of_f64 (Fin x) =
     (if - (2 ^ 63) \<le> x \<and> x < 2 ^ 64 then word_of_int (trunc x) else 2 ^ 63)"
| "u64_of_f64 _ = 2 ^ 63"

section \<open>Lemmas on the operations\<close>

text \<open>The values of the type that are floats.\<close>

fun f64_ok :: "f64 \<Rightarrow> bool" where
  "f64_ok (Fin x) = (representable x \<and> \<bar>x\<bar> < pow2 1024)"
| "f64_ok _ = True"

lemma mk_ok [simp]: "f64_ok (mk x)"
  by (auto simp: mk_def Let_def representable_rnd abs_less_iff)

lemma mk_Fin: "\<bar>rnd x\<bar> < pow2 1024 \<Longrightarrow> mk x = Fin (rnd x)"
  by (auto simp: mk_def Let_def abs_less_iff)

lemma mk_cases:
  obtains "mk x = Fin (rnd x)" "\<bar>rnd x\<bar> < pow2 1024" | "mk x = PInf" "0 < x" | "mk x = NInf" "x < 0"
proof -
  have "0 < x" if "pow2 1024 \<le> rnd x"
    using that rnd_mono [of x 0] pow2_pos [of 1024] by (cases "x \<le> 0") simp_all
  moreover have "x < 0" "rnd x < pow2 1024" if "rnd x \<le> - pow2 1024"
  proof -
    have "rnd x < 0" using that pow2_pos [of 1024] by linarith
    then show "x < 0" using rnd_nonneg [of x] by (cases "0 \<le> x") auto
    show "rnd x < pow2 1024" using that pow2_pos [of 1024] by linarith
  qed
  ultimately show ?thesis
    using that by (cases "pow2 1024 \<le> rnd x"; cases "rnd x \<le> - pow2 1024")
      (auto simp: mk_def Let_def abs_less_iff)
qed

lemma small_lt_max: "\<bar>x\<bar> \<le> 2 ^ 64 \<Longrightarrow> \<bar>x\<bar> < pow2 1024"
proof -
  assume "\<bar>x\<bar> \<le> 2 ^ 64"
  also have "(2 :: rat) ^ 64 = pow2 64" by (simp add: pow2_def power_int_def)
  also have "\<dots> < pow2 1024" by simp
  finally show ?thesis .
qed

lemma rnd_small: "\<bar>x\<bar> \<le> 2 ^ 64 \<Longrightarrow> \<bar>rnd x\<bar> \<le> 2 ^ 64"
proof -
  assume x: "\<bar>x\<bar> \<le> 2 ^ 64"
  have r: "rnd (2 ^ 64) = 2 ^ 64"
    using rnd_representable [of "2 ^ 64"] representable_of_int [of 1 64]
    by (simp add: pow2_def power_int_def)
  show ?thesis
    using x rnd_mono [of x "2 ^ 64"] rnd_mono [of "- (2 ^ 64)" x]
    unfolding r rnd_minus abs_le_iff by linarith
qed

lemma mk_small: "\<bar>x\<bar> \<le> 2 ^ 64 \<Longrightarrow> mk x = Fin (rnd x)"
  by (intro mk_Fin small_lt_max rnd_small)

lemma f64_of_int_exact: "\<bar>n\<bar> \<le> 2 ^ 53 \<Longrightarrow> f64_of_int n = Fin (of_int n)"
proof -
  assume n: "\<bar>n\<bar> \<le> 2 ^ 53"
  then have "\<bar>of_int n :: rat\<bar> \<le> of_int (2 ^ 53)" by (simp only: of_int_abs [symmetric] of_int_le_iff)
  then have "\<bar>of_int n :: rat\<bar> \<le> 2 ^ 64" by simp
  then show ?thesis using n by (simp add: f64_of_int_def mk_small rnd_int)
qed


section \<open>Relative error\<close>

text \<open>\<open>x\<close> is \<open>y\<close> after at most \<open>k\<close> roundings to 53 bits.\<close>

definition rel :: "nat \<Rightarrow> rat \<Rightarrow> rat \<Rightarrow> bool" where
  "rel k x y \<longleftrightarrow> 0 \<le> y \<and> y * (1 - pow2 (-53)) ^ k \<le> x \<and> x \<le> y * (1 + pow2 (-53)) ^ k"

lemma ulp_unit: "0 < pow2 (-53)" "pow2 (-53) < 1"
  by (simp_all add: pow2_def power_int_def power_one_over divide_less_eq)

lemma rel_refl: "0 \<le> x \<Longrightarrow> rel 0 x x"
  by (simp add: rel_def)

lemma rel_nonneg: "rel k x y \<Longrightarrow> 0 \<le> x"
  using ulp_unit unfolding rel_def by (meson diff_ge_0_iff_ge less_imp_le mult_nonneg_nonneg order_trans zero_le_power)

lemma rel_mono:
  assumes "rel j x y" "j \<le> k"
  shows "rel k x y"
proof -
  have y: "0 \<le> y" using assms(1) by (simp add: rel_def)
  have "(1 - pow2 (-53)) ^ k \<le> (1 - pow2 (-53)) ^ j"
    using ulp_unit assms(2) by (intro power_decreasing) auto
  moreover have "(1 + pow2 (-53)) ^ j \<le> (1 + pow2 (-53)) ^ k"
    using ulp_unit assms(2) by (intro power_increasing) auto
  ultimately show ?thesis
    using assms(1) y mult_left_mono [of _ _ y] unfolding rel_def by (meson order_trans)
qed

lemma rel_rnd:
  assumes "rel k x y" "x = 0 \<or> pow2 (-1022) \<le> x"
  shows "rel (Suc k) (rnd x) y"
proof -
  have x: "0 \<le> x" using assms(1) by (rule rel_nonneg)
  have "\<bar>rnd x - x\<bar> \<le> x * pow2 (-53)"
    using assms(2) rnd_rel_error [of x] x by auto
  then have "x * (1 - pow2 (-53)) \<le> rnd x" "rnd x \<le> x * (1 + pow2 (-53))"
    unfolding right_diff_distrib distrib_left by linarith+
  moreover have "(y * (1 - pow2 (-53)) ^ k) * (1 - pow2 (-53)) \<le> x * (1 - pow2 (-53))"
    using assms(1) ulp_unit unfolding rel_def by (intro mult_right_mono) auto
  moreover have "x * (1 + pow2 (-53)) \<le> (y * (1 + pow2 (-53)) ^ k) * (1 + pow2 (-53))"
    using assms(1) ulp_unit unfolding rel_def by (intro mult_right_mono) auto
  ultimately show ?thesis using assms(1) unfolding rel_def by (simp add: mult_ac)
qed

lemma rel_mult:
  assumes "rel j x y" "rel k x' y'"
  shows "rel (j + k) (x * x') (y * y')"
proof -
  have p: "0 \<le> 1 - pow2 (-53)" "0 \<le> x" "0 \<le> x'" using ulp_unit assms rel_nonneg by auto
  have "(y * (1 - pow2 (-53)) ^ j) * (y' * (1 - pow2 (-53)) ^ k) \<le> x * x'"
    using assms p unfolding rel_def by (intro mult_mono) auto
  moreover have "x * x' \<le> (y * (1 + pow2 (-53)) ^ j) * (y' * (1 + pow2 (-53)) ^ k)"
    using assms p ulp_unit unfolding rel_def by (intro mult_mono) (auto intro!: mult_nonneg_nonneg)
  ultimately show ?thesis using assms unfolding rel_def by (simp add: power_add mult_ac)
qed

lemma rel_add:
  assumes "rel k x y" "rel k x' y'"
  shows "rel k (x + x') (y + y')"
  using assms unfolding rel_def by (auto simp: distrib_right intro: add_mono)

lemma rel_divide: "rel k x y \<Longrightarrow> 0 < c \<Longrightarrow> rel k (x / c) (y / c)"
proof -
  assume r: "rel k x y" and c: "0 < c"
  from c have c0: "0 \<le> c" by (rule less_imp_le)
  from r have y: "0 \<le> y" and l: "y * (1 - pow2 (-53)) ^ k \<le> x" and u: "x \<le> y * (1 + pow2 (-53)) ^ k"
    by (simp_all only: rel_def)
  show ?thesis
    unfolding rel_def times_divide_eq_left
    using divide_nonneg_nonneg [OF y c0] divide_right_mono [OF l c0] divide_right_mono [OF u c0] by blast
qed

lemma rel_bounds:
  assumes "rel k x y" "k \<le> 8"
  shows "y * (1 - 1 / 2 ^ 49) \<le> x" "x \<le> y * (1 + 1 / 2 ^ 49)"
proof -
  have e: "rel 8 x y" using assms by (rule rel_mono)
  have y: "0 \<le> y" using assms(1) by (simp only: rel_def)
  have "1 - 1 / 2 ^ 49 \<le> (1 - pow2 (-53)) ^ 8" "(1 + pow2 (-53)) ^ 8 \<le> 1 + 1 / 2 ^ 49"
    by (simp_all add: pow2_def power_int_def power_one_over) (simp_all add: power_divide)
  then have "y * (1 - 1 / 2 ^ 49) \<le> y * (1 - pow2 (-53)) ^ 8" "y * (1 + pow2 (-53)) ^ 8 \<le> y * (1 + 1 / 2 ^ 49)"
    using y mult_left_mono by blast+
  then show "y * (1 - 1 / 2 ^ 49) \<le> x" "x \<le> y * (1 + 1 / 2 ^ 49)"
    using e unfolding rel_def by linarith+
qed

lemma rel_normal:
  assumes "rel k x y" "k \<le> 8" "y = 0 \<or> pow2 (-1000) \<le> y"
  shows "x = 0 \<or> pow2 (-1022) \<le> x"
proof (cases "y = 0")
  case True
  then show ?thesis using assms(1) by (simp add: rel_def)
next
  case False
  have "pow2 (-1022) \<le> pow2 (-1001)" by simp
  also have "\<dots> = pow2 (-1000) * (1 / 2)"
    using pow2_add [of "-1000" "-1"] by (simp add: pow2_def power_int_def)
  also have "\<dots> \<le> y * (1 - 1 / 2 ^ 49)"
    using False assms(1,3) by (intro mult_mono) (simp_all add: rel_def)
  finally show ?thesis using rel_bounds(1) [OF assms(1,2)] by linarith
qed

text \<open>A float operation on a value that is accurate to \<open>k\<close> roundings.\<close>

lemma mk_rel:
  assumes "rel k x y" "k < 8" "y = 0 \<or> pow2 (-1000) \<le> y" "y \<le> pow2 1000"
  shows "mk x = Fin (rnd x)" "rel (Suc k) (rnd x) y"
proof -
  have k: "k \<le> 8" using assms(2) by simp
  show r: "rel (Suc k) (rnd x) y" by (rule rel_rnd [OF assms(1) rel_normal [OF assms(1) k assms(3)]])
  have "Suc k \<le> 8" using assms(2) by simp
  then have "rnd x \<le> y * (1 + 1 / 2 ^ 49)" by (rule rel_bounds(2) [OF r])
  also have "\<dots> \<le> pow2 1000 * 2" using assms(4) assms(1) by (intro mult_mono) (auto simp: rel_def)
  also have "\<dots> = pow2 1001" using pow2_add [of 1000 1] by (simp add: pow2_def power_int_def)
  also have "\<dots> < pow2 1024" by simp
  finally show "mk x = Fin (rnd x)" using rel_nonneg [OF r] by (intro mk_Fin) simp
qed

lemma mk_rel_small:
  assumes "rel k x y" "k < 8" "y = 0 \<or> 1 / 10 ^ 29 \<le> y" "y \<le> 2 ^ 60"
  shows "mk x = Fin (rnd x)" "rel (Suc k) (rnd x) y"
proof -
  have "pow2 (-1000) \<le> pow2 (-100)" by simp
  also have "\<dots> \<le> 1 / 10 ^ 29" by (simp add: pow2_def power_int_def power_one_over)
  finally have lo: "y = 0 \<or> pow2 (-1000) \<le> y" using assms(3) by auto
  have "(2 :: rat) ^ 60 = pow2 60" by (simp add: pow2_def power_int_def)
  also have "\<dots> \<le> pow2 1000" by simp
  finally have "y \<le> pow2 1000" using assms(4) by linarith
  with assms(1,2) lo show "mk x = Fin (rnd x)" "rel (Suc k) (rnd x) y" by (rule mk_rel)+
qed

end
