(* ===== verification/Nuvex_Burn.thy ===== *)
theory Nuvex_Burn
  imports Nuvex_Prelude
begin

text \<open>
  The token constants (\<open>x/nvx/types/constants.go\<close>) and the burn keeper
  (\<open>x/nvx/keeper/burn.go\<close>). Amounts are \<open>int64\<close> micro-NVX. The burn keeper is an accumulator:
  whatever it adds to \<open>totalBurned\<close> it takes from \<open>circulating\<close>.
\<close>

section \<open>Constants\<close>

definition max_supply :: i64 where
  "max_supply = 500000000000000"

definition burn_rate_bps :: i64 where
  "burn_rate_bps = 10"

definition min_stake_micro_nvx :: i64 where
  "min_stake_micro_nvx = 100000000"

definition target_block_time_ms :: int where
  "target_block_time_ms = 400"

definition max_validators :: int where
  "max_validators = 512"

definition nvx_to_micro :: "i64 \<Rightarrow> i64" where
  "nvx_to_micro nvx = nvx * 1000000"

definition calculate_burn_amount :: "i64 \<Rightarrow> i64" where
  "calculate_burn_amount fee = quot64 (fee * burn_rate_bps) 10000"

section \<open>The burn keeper\<close>

record burn_keeper =
  total_burned :: i64
  circulating :: i64

definition new_burn_keeper :: burn_keeper where
  "new_burn_keeper = \<lparr>total_burned = 0, circulating = 500000000000000\<rparr>"

definition burn :: "i64 \<Rightarrow> burn_keeper \<Rightarrow> burn_keeper" where
  "burn amount bk =
     bk\<lparr>total_burned := total_burned bk + amount, circulating := circulating bk - amount\<rparr>"

text \<open>\<open>BurnFromFee\<close>: a tenth of a percent of the fee, rounded towards zero, when positive. The
  transaction hash and height arguments are not used by the code.\<close>

definition burn_from_fee :: "i64 \<Rightarrow> burn_keeper \<Rightarrow> burn_keeper" where
  "burn_from_fee fee bk =
     (let burn_amount = quot64 (fee * 10) 10000
      in if 0 <s burn_amount then burn burn_amount bk else bk)"

definition burn_stats :: "burn_keeper \<Rightarrow> i64 \<times> i64" where
  "burn_stats bk = (total_burned bk, circulating bk)"

section \<open>Lemmas\<close>

lemma burn_sum [simp]:
  "total_burned (burn a bk) + circulating (burn a bk) = total_burned bk + circulating bk"
  by (simp add: burn_def)

lemma burn_from_fee_sum [simp]:
  "total_burned (burn_from_fee f bk) + circulating (burn_from_fee f bk)
     = total_burned bk + circulating bk"
  by (simp add: burn_from_fee_def Let_def)

lemma fold_burn_sum [simp]:
  "total_burned (fold burn_from_fee fees bk) + circulating (fold burn_from_fee fees bk)
     = total_burned bk + circulating bk"
  by (induction fees arbitrary: bk) auto

text \<open>The amount on fees for which \<open>fee * 10\<close> does not wrap.\<close>

lemma sint_burn_amount:
  assumes "0 \<le> sint fee" "sint fee < 900000000000000000"
  shows "sint (quot64 (fee * 10) 10000) = sint fee div 1000"
proof -
  have m: "sint (fee * 10) = sint fee * 10"
    using assms by (subst sint64_mult) simp_all
  then have "sint (quot64 (fee * 10) 10000) = (sint fee * 10) div 10000"
    using assms by (subst sint64_quot) (simp_all add: m)
  also have "\<dots> = sint fee div 1000"
    using zdiv_zmult2_eq [of 1000 "sint fee * 10" 10] by simp
  finally show ?thesis .
qed

lemma burn_from_fee_effect:
  assumes "0 \<le> sint fee" "sint fee < 900000000000000000"
  shows "burn_from_fee fee bk = burn (calculate_burn_amount fee) bk"
proof (cases "sint fee div 1000 = 0")
  case True
  then have "quot64 (fee * 10) 10000 = 0"
    using sint_burn_amount [OF assms] by (intro i64_eqI) simp
  then show ?thesis
    by (simp add: burn_from_fee_def burn_def calculate_burn_amount_def burn_rate_bps_def)
next
  case False
  then have "0 < sint fee div 1000"
    using assms by (simp add: order_less_le pos_imp_zdiv_nonneg_iff)
  then show ?thesis
    using sint_burn_amount [OF assms]
    by (simp add: burn_from_fee_def calculate_burn_amount_def burn_rate_bps_def word_sless_alt)
qed

text \<open>Running totals stay exact and within the supply while they do.\<close>

lemma total_burned_fold:
  assumes "\<forall>f\<in>set fees. 0 \<le> sint f \<and> sint f < 900000000000000000"
    and "0 \<le> sint (total_burned bk)"
    and "sint (total_burned bk) + (\<Sum>f\<leftarrow>fees. sint f div 1000) < 2 ^ 63"
  shows "sint (total_burned (fold burn_from_fee fees bk))
           = sint (total_burned bk) + (\<Sum>f\<leftarrow>fees. sint f div 1000)"
  using assms
proof (induction fees arbitrary: bk)
  case (Cons f fs)
  let ?a = "calculate_burn_amount f"
  have f: "0 \<le> sint f" "sint f < 900000000000000000" using Cons.prems(1) by simp_all
  have a: "sint ?a = sint f div 1000"
    using sint_burn_amount [OF f] by (simp add: calculate_burn_amount_def burn_rate_bps_def)
  have nn: "0 \<le> (\<Sum>g\<leftarrow>fs. sint g div 1000)"
    using Cons.prems(1) by (intro sum_list_nonneg) (auto simp: pos_imp_zdiv_nonneg_iff)
  have an: "0 \<le> sint f div 1000" using f by (simp add: pos_imp_zdiv_nonneg_iff)
  have t: "sint (total_burned (burn ?a bk)) = sint (total_burned bk) + sint f div 1000"
    using Cons.prems(2,3) a nn an by (simp add: burn_def sint64_add)
  have "sint (total_burned (fold burn_from_fee fs (burn ?a bk)))
      = sint (total_burned (burn ?a bk)) + (\<Sum>g\<leftarrow>fs. sint g div 1000)"
    using Cons.prems t an by (intro Cons.IH) auto
  then show ?case by (simp add: burn_from_fee_effect [OF f] t)
qed simp

section \<open>Properties\<close>

text \<open>
  The burn keeper neither creates nor destroys value in its books. From a fresh keeper, after
  any sequence of fees, burned plus circulating is the maximum supply: as 64-bit words, so
  wrap-around included.
\<close>

theorem burn_keeps_supply:
  "total_burned (fold burn_from_fee fees new_burn_keeper)
     + circulating (fold burn_from_fee fees new_burn_keeper) = max_supply"
  by (simp add: new_burn_keeper_def max_supply_def)

text \<open>
  The burn is a tenth of a percent of every fee, rounded down fee by fee. For non-negative
  fees below \<open>9 * 10^17\<close> whose burns fit the counter, the total burned is the exact sum of
  \<open>fee div 1000\<close>, and circulating is the supply less that sum.
\<close>

theorem burn_total_exact:
  assumes "\<forall>f\<in>set fees. 0 \<le> sint f \<and> sint f < 900000000000000000"
    and "(\<Sum>f\<leftarrow>fees. sint f div 1000) \<le> sint max_supply"
  shows "sint (fst (burn_stats (fold burn_from_fee fees new_burn_keeper)))
           = (\<Sum>f\<leftarrow>fees. sint f div 1000)
       \<and> sint (snd (burn_stats (fold burn_from_fee fees new_burn_keeper)))
           = sint max_supply - (\<Sum>f\<leftarrow>fees. sint f div 1000)"
proof -
  let ?s = "\<Sum>f\<leftarrow>fees. sint f div 1000"
  let ?k = "fold burn_from_fee fees new_burn_keeper"
  have nn: "0 \<le> ?s"
    using assms(1) by (intro sum_list_nonneg) (auto simp: pos_imp_zdiv_nonneg_iff)
  have b: "sint (total_burned ?k) = ?s"
    using assms total_burned_fold [of fees new_burn_keeper]
    by (simp add: new_burn_keeper_def max_supply_def)
  have "circulating ?k = max_supply - total_burned ?k"
    using fold_burn_sum [of fees new_burn_keeper]
    by (simp add: new_burn_keeper_def max_supply_def eq_diff_eq add.commute)
  then show ?thesis
    using b nn assms(2) by (simp add: burn_stats_def max_supply_def sint64_sub)
qed

theorem burn_total_exact_witness:
  "sint (fst (burn_stats (fold burn_from_fee [10000, 999, 5500] new_burn_keeper))) = 15
     \<and> sint (snd (burn_stats (fold burn_from_fee [10000, 999, 5500] new_burn_keeper))) = 499999999999985"
  using burn_total_exact [of "[10000, 999, 5500]"] by (simp add: max_supply_def)

end
