(* ===== verification/Nuvex_Mining.thy ===== *)
theory Nuvex_Mining
  imports Nuvex_Prelude Nuvex_Float64
begin

text \<open>
  The mining keeper (\<open>x/nvx/keeper/mining.go\<close>): the block reward, its halving and the pool it
  is paid from. Rewards, heights and totals are \<open>int64\<close>; the epoch is a Go \<open>int\<close> that stays
  between 0 and 10. The lemmas give the keeper's invariant and its exact state after any number of
  consecutive blocks.
\<close>

section \<open>Constants and state\<close>

definition initial_block_reward :: i64 where
  "initial_block_reward = 50000000"

definition blocks_per_halving :: i64 where
  "blocks_per_halving = 78840000"

definition genesis_year :: nat where
  "genesis_year = 2025"

definition max_halvings :: nat where
  "max_halvings = 10"

record halving_state =
  current_epoch :: nat
  current_reward :: i64
  next_halving_block :: i64
  total_mined :: i64
  max_mineable :: i64

definition new_mining_keeper :: halving_state where
  "new_mining_keeper =
     \<lparr>current_epoch = 0, current_reward = initial_block_reward,
      next_halving_block = blocks_per_halving, total_mined = 0, max_mineable = 100000000000000\<rparr>"

section \<open>Operations\<close>

definition check_halving :: "i64 \<Rightarrow> halving_state \<Rightarrow> halving_state" where
  "check_halving height st =
     (if height <s next_halving_block st then st
      else if current_epoch st \<ge> max_halvings then st
      else st\<lparr>current_reward := quot64 (current_reward st) 2,
              current_epoch := current_epoch st + 1,
              next_halving_block := next_halving_block st + blocks_per_halving\<rparr>)"

definition get_block_reward :: "i64 \<Rightarrow> halving_state \<Rightarrow> i64 \<times> halving_state" where
  "get_block_reward height st0 =
     (let st = check_halving height st0 in
      if max_mineable st \<le>s total_mined st then (0, st)
      else let remaining = max_mineable st - total_mined st in
           if remaining <s current_reward st then (remaining, st)
           else (current_reward st, st))"

text \<open>\<open>ProcessBlockReward\<close> returns no error; it panics when the address is too short for the log
  line, after the total has been raised.\<close>

definition process_block_reward ::
    "i64 \<Rightarrow> string \<Rightarrow> halving_state \<Rightarrow> (unit, i64) res \<times> halving_state" where
  "process_block_reward height validator_address st0 =
     (let (reward, st) = get_block_reward height st0 in
      if reward = 0 then (Ok 0, st)
      else let st' = st\<lparr>total_mined := total_mined st + reward\<rparr> in
           (if slice_ok 16 validator_address then Ok reward else Panic, st'))"

record mining_stats =
  ms_current_epoch :: nat
  ms_current_reward :: i64
  ms_current_reward_nvx :: f64
  ms_next_halving_block :: i64
  ms_next_halving_year :: nat
  ms_total_mined :: i64
  ms_total_mined_nvx :: f64
  ms_max_mineable :: i64
  ms_percent_mined :: f64
  ms_estimated_last_coin :: string

text \<open>\<open>GetStats\<close> runs the halving check too, so a query can move the epoch.\<close>

definition mining_get_stats :: "i64 \<Rightarrow> halving_state \<Rightarrow> mining_stats \<times> halving_state" where
  "mining_get_stats current_height st0 =
     (let st = check_halving current_height st0;
          fl = (\<lambda>w :: i64. f64_of_int (sint w))
      in (\<lparr>ms_current_epoch = current_epoch st,
           ms_current_reward = current_reward st,
           ms_current_reward_nvx = fdiv (fl (current_reward st)) (Fin 1000000),
           ms_next_halving_block = next_halving_block st,
           ms_next_halving_year = genesis_year + (current_epoch st + 1) * 5,
           ms_total_mined = total_mined st,
           ms_total_mined_nvx = fdiv (fl (total_mined st)) (Fin 1000000),
           ms_max_mineable = max_mineable st,
           ms_percent_mined = fmul (fdiv (fl (total_mined st)) (fl (max_mineable st))) (Fin 100),
           ms_estimated_last_coin = ''~Jahr '' @ show_nat (genesis_year + max_halvings * 5)\<rparr>, st))"

record halving_event =
  he_epoch :: nat
  he_year :: nat
  he_block :: i64
  he_reward :: f64
  he_date :: string

fun halving_schedule_from :: "nat \<Rightarrow> nat \<Rightarrow> f64 \<Rightarrow> halving_event list" where
  "halving_schedule_from 0 i reward = []"
| "halving_schedule_from (Suc n) i reward =
     \<lparr>he_epoch = i, he_year = genesis_year + i * 5, he_block = word_of_nat i * blocks_per_halving,
      he_reward = reward, he_date = ''~January '' @ show_nat (genesis_year + i * 5)\<rparr>
     # halving_schedule_from n (i + 1) (fdiv reward (Fin 2))"

definition get_halving_schedule :: "halving_event list" where
  "get_halving_schedule =
     halving_schedule_from (max_halvings + 1) 0
       (fdiv (f64_of_int (sint initial_block_reward)) (Fin 1000000))"

section \<open>Invariant\<close>

text \<open>The reward is the initial one halved once per epoch; the total never passes the pool.\<close>

definition mining_inv :: "halving_state \<Rightarrow> bool" where
  "mining_inv st \<longleftrightarrow>
     current_epoch st \<le> max_halvings
     \<and> sint (current_reward st) = 50000000 div 2 ^ current_epoch st
     \<and> sint (next_halving_block st) = (int (current_epoch st) + 1) * 78840000
     \<and> max_mineable st = 100000000000000
     \<and> 0 \<le> sint (total_mined st) \<and> sint (total_mined st) \<le> 100000000000000"

lemma mining_inv_new [simp]: "mining_inv new_mining_keeper"
  by (simp add: mining_inv_def new_mining_keeper_def initial_block_reward_def
      blocks_per_halving_def)

lemma reward_div_nonneg: "0 \<le> (50000000 :: int) div 2 ^ n"
  by (simp add: pos_imp_zdiv_nonneg_iff)

lemma reward_div_le: "(50000000 :: int) div 2 ^ n \<le> 50000000"
  using zdiv_mono2 [of 50000000 1 "2 ^ n"] by simp

lemma check_halving_cases:
  assumes "mining_inv st"
  shows "check_halving h st = st
     \<or> (current_epoch st < 10 \<and> (int (current_epoch st) + 1) * 78840000 \<le> sint h
        \<and> current_epoch (check_halving h st) = current_epoch st + 1)"
  using assms by (auto simp: check_halving_def mining_inv_def word_sless_alt max_halvings_def)

lemma check_halving_inv [simp]:
  assumes "mining_inv st"
  shows "mining_inv (check_halving h st)"
proof (cases "check_halving h st = st")
  case False
  then have e: "current_epoch st < 10"
    using assms check_halving_cases by metis
  have r: "sint (quot64 (current_reward st) 2) = 50000000 div 2 ^ (current_epoch st + 1)"
    using assms reward_div_nonneg [of "current_epoch st"]
    by (subst sint64_quot) (auto simp: mining_inv_def zdiv_zmult2_eq [symmetric] mult.commute)
  have n: "sint (next_halving_block st + blocks_per_halving)
             = (int (current_epoch st) + 1) * 78840000 + 78840000"
    using assms e by (subst sint64_add) (auto simp: mining_inv_def blocks_per_halving_def)
  show ?thesis
    using assms False e r n
    by (auto simp: mining_inv_def check_halving_def max_halvings_def algebra_simps)
qed (use assms in simp)

lemma check_halving_total [simp]:
  "total_mined (check_halving h st) = total_mined st"
  "max_mineable (check_halving h st) = max_mineable st"
  by (simp_all add: check_halving_def)

lemma get_block_reward_snd [simp]: "snd (get_block_reward h st) = check_halving h st"
  by (simp add: get_block_reward_def Let_def)

text \<open>The reward as an integer: the epoch's reward, capped by what is left in the pool.\<close>

lemma sint_get_block_reward:
  assumes "mining_inv st"
  shows "sint (fst (get_block_reward h st))
           = min (50000000 div 2 ^ current_epoch (check_halving h st))
                 (100000000000000 - sint (total_mined st))"
proof -
  let ?s = "check_halving h st"
  have i: "mining_inv ?s" using assms by simp
  have t: "0 \<le> sint (total_mined st)" "sint (total_mined st) \<le> 100000000000000"
    and m: "max_mineable st = 100000000000000"
    and r: "sint (current_reward ?s) = 50000000 div 2 ^ current_epoch ?s"
    using assms i by (simp_all add: mining_inv_def)
  have d: "sint (100000000000000 - total_mined st) = 100000000000000 - sint (total_mined st)"
    using t by (subst sint64_sub) simp_all
  show ?thesis
    using t r d reward_div_nonneg [of "current_epoch ?s"]
    by (auto simp: get_block_reward_def Let_def word_sle_eq word_sless_alt m min_def)
qed

lemma process_block_reward_total:
  assumes "mining_inv st"
  shows "sint (total_mined (snd (process_block_reward h a st)))
           = sint (total_mined st) + sint (fst (get_block_reward h st))"
proof -
  have t: "0 \<le> sint (total_mined st)" "sint (total_mined st) \<le> 100000000000000"
    using assms by (simp_all add: mining_inv_def)
  have "0 \<le> sint (fst (get_block_reward h st))"
    "sint (fst (get_block_reward h st)) \<le> 100000000000000 - sint (total_mined st)"
    using t reward_div_nonneg by (simp_all add: sint_get_block_reward [OF assms])
  then have "sint (total_mined st + fst (get_block_reward h st))
      = sint (total_mined st) + sint (fst (get_block_reward h st))"
    using t by (subst sint64_add) simp_all
  then show ?thesis
    by (auto simp: process_block_reward_def Let_def split_beta)
qed

lemma process_block_reward_epoch:
  "current_epoch (snd (process_block_reward h a st)) = current_epoch (check_halving h st)"
  by (auto simp: process_block_reward_def Let_def split_beta)

lemma process_block_reward_inv [simp]:
  assumes "mining_inv st"
  shows "mining_inv (snd (process_block_reward h a st))"
proof -
  have i: "mining_inv (check_halving h st)" using assms by simp
  have "sint (total_mined (snd (process_block_reward h a st))) \<le> 100000000000000"
    "0 \<le> sint (total_mined (snd (process_block_reward h a st)))"
    using assms reward_div_nonneg
    by (simp_all add: process_block_reward_total sint_get_block_reward mining_inv_def)
  with i show ?thesis
    by (auto simp: process_block_reward_def Let_def split_beta mining_inv_def)
qed

lemma mining_get_stats_inv [simp]:
  "mining_inv st \<Longrightarrow> mining_inv (snd (mining_get_stats h st))"
  by (simp add: mining_get_stats_def Let_def)

section \<open>Runs\<close>

datatype mining_call = ProcessBlock i64 string | QueryStats i64

fun mining_step :: "mining_call \<Rightarrow> halving_state \<Rightarrow> halving_state" where
  "mining_step (ProcessBlock h a) st = snd (process_block_reward h a st)"
| "mining_step (QueryStats h) st = snd (mining_get_stats h st)"

lemma mining_step_inv: "mining_inv st \<Longrightarrow> mining_inv (mining_step c st)"
  by (cases c) simp_all

lemma mining_fold_inv: "mining_inv st \<Longrightarrow> mining_inv (fold mining_step cs st)"
  by (induction cs arbitrary: st) (simp_all add: mining_step_inv)

text \<open>The blocks 1 to \<open>n\<close> processed in order, as the application's \<open>Run\<close> loop does.\<close>

fun mine_blocks :: "nat \<Rightarrow> string \<Rightarrow> halving_state" where
  "mine_blocks 0 a = new_mining_keeper"
| "mine_blocks (Suc n) a = snd (process_block_reward (word_of_nat (Suc n)) a (mine_blocks n a))"

lemma mine_blocks_inv [simp]: "mining_inv (mine_blocks n a)"
  by (induction n) simp_all

lemma sint_of_nat_small: "n < 2 ^ 62 \<Longrightarrow> sint (word_of_nat n :: i64) = int n"
proof -
  assume n: "n < 2 ^ 62"
  then have "int n < 2 ^ 62" by (metis of_nat_less_iff of_nat_numeral of_nat_power)
  then have "sint (word_of_int (int n) :: i64) = int n" by (intro sint64_of_int) simp_all
  then show ?thesis by simp
qed

lemma check_halving_epoch:
  assumes "mining_inv st"
  shows "current_epoch (check_halving h st)
           = (if (int (current_epoch st) + 1) * 78840000 \<le> sint h \<and> current_epoch st < 10
              then current_epoch st + 1 else current_epoch st)"
  using assms by (auto simp: check_halving_def mining_inv_def word_sless_alt max_halvings_def)

lemma min_div_Suc:
  "(if (min 10 (n div k) + 1) * k \<le> Suc n \<and> min 10 (n div k) < 10 then min 10 (n div k) + 1
    else min 10 (n div k)) = min 10 (Suc n div k)" if "0 < k" for n k :: nat
proof -
  have "Suc n div k = n div k \<or> Suc n div k = n div k + 1"
    by (simp add: div_Suc)
  moreover have "m * k \<le> Suc n \<longleftrightarrow> m \<le> Suc n div k" for m
    using that by (simp add: less_eq_div_iff_mult_less_eq)
  ultimately show ?thesis by (elim disjE) (simp_all add: min_def del: mult_Suc)
qed

lemma mine_blocks_epoch: "n < 2 ^ 62 \<Longrightarrow> current_epoch (mine_blocks n a) = min 10 (n div 78840000)"
proof (induction n)
  case 0
  then show ?case by (simp add: new_mining_keeper_def)
next
  case (Suc n)
  let ?e = "min 10 (n div 78840000)"
  have IH: "current_epoch (mine_blocks n a) = ?e" using Suc by simp
  have "(int ?e + 1) * 78840000 \<le> int (Suc n) \<longleftrightarrow> (?e + 1) * 78840000 \<le> Suc n"
    using of_nat_le_iff [where 'a = int, of "(?e + 1) * 78840000" "Suc n"]
    by (simp only: of_nat_mult of_nat_add of_nat_1 of_nat_numeral)
  then have "current_epoch (mine_blocks (Suc n) a)
      = (if (?e + 1) * 78840000 \<le> Suc n \<and> ?e < 10 then ?e + 1 else ?e)"
    using sint_of_nat_small [OF Suc.prems]
    by (simp add: process_block_reward_epoch check_halving_epoch IH del: of_nat_Suc)
  then show ?case using min_div_Suc [of 78840000 n] by simp
qed

text \<open>The pool is empty after two million blocks, all of them in the first epoch.\<close>

lemma mine_blocks_total:
  "n < 2 ^ 62 \<Longrightarrow> sint (total_mined (mine_blocks n a)) = min (50000000 * int n) 100000000000000"
proof (induction n)
  case 0
  then show ?case by (simp add: new_mining_keeper_def)
next
  case (Suc n)
  let ?e = "min 10 (Suc n div 78840000)"
  have e: "current_epoch (check_halving (word_of_nat (Suc n)) (mine_blocks n a)) = ?e"
    using mine_blocks_epoch [OF Suc.prems, of a] by (simp add: process_block_reward_epoch)
  have "sint (total_mined (mine_blocks (Suc n) a))
      = sint (total_mined (mine_blocks n a))
        + min (50000000 div 2 ^ ?e) (100000000000000 - sint (total_mined (mine_blocks n a)))"
    using e by (simp add: process_block_reward_total sint_get_block_reward del: of_nat_Suc)
  also have "\<dots> = min (50000000 * int (Suc n)) 100000000000000"
  proof (cases "n < 2000000")
    case True
    then have "?e = 0" by simp
    with Suc True show ?thesis by simp
  next
    case False
    then show ?thesis
      using Suc reward_div_nonneg [of ?e] by simp
  qed
  finally show ?case .
qed

lemma representable_half_power: "i \<le> 1000 \<Longrightarrow> representable (50 / 2 ^ i)"
proof -
  assume "i \<le> 1000"
  then have "representable (of_int 50 * pow2 (- int i))" by (intro representable_of_int) simp_all
  then show ?thesis by (simp add: pow2_def power_int_minus divide_inverse)
qed

lemma mk_half_power: "i \<le> 1000 \<Longrightarrow> mk (50 / 2 ^ i) = Fin (50 / 2 ^ i)"
proof -
  assume i: "i \<le> 1000"
  have "\<bar>50 / 2 ^ i :: rat\<bar> \<le> 50" by (simp add: divide_le_eq)
  then have "\<bar>50 / 2 ^ i :: rat\<bar> \<le> 2 ^ 64" by simp
  then show ?thesis using i by (simp only: mk_small rnd_representable representable_half_power)
qed

lemma halving_schedule_from_nth:
  "j < n \<Longrightarrow> i + n \<le> 1000 \<Longrightarrow>
     halving_schedule_from n i (Fin (50 / 2 ^ i)) ! j =
       \<lparr>he_epoch = i + j, he_year = genesis_year + (i + j) * 5,
        he_block = word_of_nat (i + j) * blocks_per_halving,
        he_reward = Fin (50 / 2 ^ (i + j)),
        he_date = ''~January '' @ show_nat (genesis_year + (i + j) * 5)\<rparr>"
proof (induction n arbitrary: i j)
  case (Suc n)
  have "fdiv (Fin (50 / 2 ^ i)) (Fin 2) = Fin (50 / 2 ^ (i + 1))"
    using Suc.prems mk_half_power [of "i + 1"] by (simp add: field_simps)
  then show ?case
    using Suc.prems Suc.IH [of "j - 1" "i + 1"] by (cases j) simp_all
qed simp

lemma length_halving_schedule_from [simp]: "length (halving_schedule_from n i r) = n"
  by (induction n arbitrary: i r) simp_all

section \<open>Properties\<close>

text \<open>
  C23: emission is capped. After any sequence of block rewards and statistics queries, at any
  heights and for any validator addresses (too-short ones that panic included), the total mined is
  between 0 and the pool of 100 million NVX, at most ten halvings have happened, and the current
  reward is 50 NVX halved, rounding down, once per epoch.
\<close>

theorem mining_emission_capped:
  "0 \<le> sint (total_mined (fold mining_step calls new_mining_keeper))
   \<and> sint (total_mined (fold mining_step calls new_mining_keeper)) \<le> 100000000000000
   \<and> current_epoch (fold mining_step calls new_mining_keeper) \<le> 10
   \<and> sint (current_reward (fold mining_step calls new_mining_keeper))
       = 50000000 div 2 ^ current_epoch (fold mining_step calls new_mining_keeper)"
  using mining_fold_inv [OF mining_inv_new, of calls]
  by (simp add: mining_inv_def max_halvings_def)

text \<open>
  The exact state after the blocks 1 to n. The epoch is the number of halving intervals passed,
  at most ten, and the total mined is 50 NVX per block until the pool of 100 million NVX is empty:
  no halving ever reduces what is paid, since the pool is empty after two million blocks and the
  first halving comes at block 78,840,000.
\<close>

theorem mining_closed_form:
  assumes "n < 2 ^ 62"
  shows "current_epoch (mine_blocks n addr) = min 10 (n div 78840000)
    \<and> sint (total_mined (mine_blocks n addr)) = min (50000000 * int n) 100000000000000
    \<and> sint (fst (get_block_reward (word_of_nat (Suc n)) (mine_blocks n addr)))
        = (if n < 2000000 then 50000000 else 0)"
proof -
  let ?m = "mine_blocks n addr"
  have t: "sint (total_mined ?m) = min (50000000 * int n) 100000000000000"
    using assms by (rule mine_blocks_total)
  have "sint (fst (get_block_reward (word_of_nat (Suc n)) ?m)) = (if n < 2000000 then 50000000 else 0)"
  proof (cases "n < 2000000")
    case True
    then have "current_epoch ?m = 0" using mine_blocks_epoch [OF assms] by simp
    moreover have "sint (word_of_nat (Suc n) :: i64) = int (Suc n)"
      using True by (intro sint_of_nat_small) simp
    ultimately have "current_epoch (check_halving (word_of_nat (Suc n)) ?m) = 0"
      using True by (simp add: check_halving_epoch del: of_nat_Suc)
    with t True show ?thesis by (simp add: sint_get_block_reward)
  next
    case False
    with t reward_div_nonneg show ?thesis by (simp add: sint_get_block_reward)
  qed
  with t mine_blocks_epoch [OF assms] show ?thesis by simp
qed

theorem mining_closed_form_witness:
  "sint (fst (get_block_reward (word_of_nat (Suc 78840000)) (mine_blocks 78840000 ''nuvex1''))) = 0
   \<and> current_epoch (mine_blocks 78840000 ''nuvex1'') = 1"
  using mining_closed_form [of 78840000 "''nuvex1''"] by simp

text \<open>
  The published schedule has eleven events; event \<open>i\<close> is five years after event \<open>i - 1\<close>, at
  the block where the keeper halves for the \<open>i\<close>-th time, and its reward, computed by repeated
  floating-point halving, is exactly \<open>50 / 2^i\<close> NVX.
\<close>

theorem halving_schedule_exact:
  "length get_halving_schedule = 11
   \<and> (\<forall>i < 11. get_halving_schedule ! i =
         \<lparr>he_epoch = i, he_year = 2025 + 5 * i, he_block = word_of_nat i * 78840000,
          he_reward = Fin (50 / 2 ^ i), he_date = ''~January '' @ show_nat (2025 + 5 * i)\<rparr>)"
proof -
  have m: "fdiv (f64_of_int (sint initial_block_reward)) (Fin 1000000) = Fin (50 / 2 ^ 0)"
    using mk_half_power [of 0] by (simp add: initial_block_reward_def f64_of_int_exact)
  show ?thesis
    unfolding get_halving_schedule_def m
    using halving_schedule_from_nth [of _ 11 0]
    by (simp add: max_halvings_def genesis_year_def blocks_per_halving_def mult.commute)
qed

theorem halving_schedule_exact_witness:
  "he_reward (get_halving_schedule ! 4) = Fin (25/8)"
  using halving_schedule_exact by simp

end
