(* ===== verification/Nuvex_Signature.thy ===== *)
theory Nuvex_Signature
  imports Nuvex_Sha256
begin

text \<open>
  The signed payload of a transfer (\<open>x/nvx/keeper/signature.go\<close>): its text, its hash, the
  signature check and the address of a public key. The elliptic-curve check itself
  (\<open>ecdsa.Verify\<close> on the curve P-256 of Go's standard library) is an argument of
  \<open>verify_signature\<close>: a predicate on the key's coordinates, the hash and the pair \<open>(r, s)\<close>. The
  lemmas show that the payload text determines the payload.
\<close>

record tx_payload =
  pl_from :: string
  pl_to :: string
  pl_amount :: i64
  pl_fee :: i64
  pl_nonce :: u64

definition payload_string :: "tx_payload \<Rightarrow> string" where
  "payload_string p =
     pl_from p @ '':'' @ pl_to p @ '':'' @ show_i64 (pl_amount p) @ '':'' @ show_i64 (pl_fee p)
       @ '':'' @ show_u64 (pl_nonce p) @ '':nuvex-1''"

definition hash_payload :: "tx_payload \<Rightarrow> bytes" where
  "hash_payload p = sha256 (bytes_of (payload_string p))"

text \<open>\<open>new(big.Int).SetBytes\<close>: big-endian.\<close>

definition big_of_bytes :: "bytes \<Rightarrow> int" where
  "big_of_bytes bs = foldl (\<lambda>a b. 256 * a + uint b) 0 bs"

type_synonym ecdsa_verifier = "int \<times> int \<Rightarrow> bytes \<Rightarrow> int \<Rightarrow> int \<Rightarrow> bool"

datatype sig_error =
    BadPublicKeyHex
  | PublicKeyLength nat
  | BadSignatureHex
  | SignatureLength
  | SignatureRejected

definition verify_signature ::
    "ecdsa_verifier \<Rightarrow> string \<Rightarrow> tx_payload \<Rightarrow> string \<Rightarrow> (sig_error, unit) res" where
  "verify_signature ecdsa_verify public_key_hex payload signature_hex =
     (case hex_decode public_key_hex of
        None \<Rightarrow> Err BadPublicKeyHex
      | Some pub \<Rightarrow>
          if length pub \<noteq> 64 then Err (PublicKeyLength (length pub))
          else
            (case hex_decode signature_hex of
               None \<Rightarrow> Err BadSignatureHex
             | Some sg \<Rightarrow>
                 if length sg \<noteq> 64 then Err SignatureLength
                 else if \<not> ecdsa_verify
                             (big_of_bytes (take 32 pub), big_of_bytes (drop 32 pub))
                             (hash_payload payload)
                             (big_of_bytes (take 32 sg)) (big_of_bytes (drop 32 sg))
                 then Err SignatureRejected
                 else Ok ()))"

definition address_of_pubkey_bytes :: "bytes \<Rightarrow> string" where
  "address_of_pubkey_bytes pub = ''nuvex1'' @ hex_encode (take 19 (sha256 (sha256 pub)))"

definition address_from_public_key :: "string \<Rightarrow> (sig_error, string) res" where
  "address_from_public_key public_key_hex =
     (case hex_decode public_key_hex of
        None \<Rightarrow> Err BadPublicKeyHex
      | Some pub \<Rightarrow> Ok (address_of_pubkey_bytes pub))"

section \<open>Lemmas\<close>

lemma verify_signature_ok:
  "verify_signature V pk p sg = Ok u \<longleftrightarrow>
     (\<exists>pub sb. hex_decode pk = Some pub \<and> length pub = 64
        \<and> hex_decode sg = Some sb \<and> length sb = 64
        \<and> V (big_of_bytes (take 32 pub), big_of_bytes (drop 32 pub)) (hash_payload p)
            (big_of_bytes (take 32 sb)) (big_of_bytes (drop 32 sb)))"
  by (auto simp: verify_signature_def split: option.splits if_splits)

lemma verify_signature_lengths:
  "verify_signature V pk p sg = Ok u \<Longrightarrow> length pk = 128 \<and> length sg = 128"
  by (auto simp: verify_signature_ok dest: length_hex_decode)

lemma verify_signature_not_panic [simp]: "verify_signature V pk p sg \<noteq> Panic"
  by (auto simp: verify_signature_def split: option.splits)

lemma address_from_public_key_not_panic [simp]: "address_from_public_key pk \<noteq> Panic"
  by (auto simp: address_from_public_key_def split: option.splits)

lemma length_address [simp]: "length (address_of_pubkey_bytes pub) = 44"
  by (simp add: address_of_pubkey_bytes_def)

lemma hex_encode_chars: "ch \<in> set (hex_encode bs) \<Longrightarrow> \<exists>n < 16. ch = hex_digit n"
proof (induction bs)
  case (Cons b bs)
  have "unat b div 16 < 16" "unat b mod 16 < 16" using unat_less_256 [of b] by simp_all
  then show ?case using Cons by (auto intro: exI [of _ "unat b mod 16"])
qed simp

lemma hex_digit_not_colon: "n < 16 \<Longrightarrow> hex_digit n \<noteq> CHR '':''"
proof
  assume n: "n < 16" and "hex_digit n = CHR '':''"
  then have "of_char (hex_digit n) = (58 :: nat)" by simp
  then show False using n by (simp add: hex_digit_def split: if_splits)
qed

lemma address_no_colon: "CHR '':'' \<notin> set (address_of_pubkey_bytes pub)"
  using hex_encode_chars hex_digit_not_colon
  by (fastforce simp: address_of_pubkey_bytes_def)

text \<open>A payload's text can be read back: from the right the numbers, then the two addresses.\<close>

lemma payload_string_inject:
  assumes "CHR '':'' \<notin> set (pl_from p)" "CHR '':'' \<notin> set (pl_from q)"
  shows "payload_string p = payload_string q \<longleftrightarrow> p = q"
proof
  assume eq: "payload_string p = payload_string q"
  let ?t = "\<lambda>p. pl_to p @ CHR '':'' # show_i64 (pl_amount p) @ CHR '':'' # show_i64 (pl_fee p)
       @ CHR '':'' # show_u64 (pl_nonce p)"
  have "(pl_from p @ CHR '':'' # ?t p) @ CHR '':'' # ''nuvex-1''
      = (pl_from q @ CHR '':'' # ?t q) @ CHR '':'' # ''nuvex-1''"
    using eq by (simp add: payload_string_def)
  then have "pl_from p @ CHR '':'' # ?t p = pl_from q @ CHR '':'' # ?t q" by simp
  then have f: "pl_from p = pl_from q" and t: "?t p = ?t q"
    using assms by (simp_all add: sep_left)
  have "(pl_to p @ CHR '':'' # show_i64 (pl_amount p) @ CHR '':'' # show_i64 (pl_fee p))
          @ CHR '':'' # show_u64 (pl_nonce p)
      = (pl_to q @ CHR '':'' # show_i64 (pl_amount q) @ CHR '':'' # show_i64 (pl_fee q))
          @ CHR '':'' # show_u64 (pl_nonce q)"
    using t by simp
  then have n: "show_u64 (pl_nonce p) = show_u64 (pl_nonce q)"
    and "pl_to p @ CHR '':'' # show_i64 (pl_amount p) @ CHR '':'' # show_i64 (pl_fee p)
       = pl_to q @ CHR '':'' # show_i64 (pl_amount q) @ CHR '':'' # show_i64 (pl_fee q)"
    by (simp_all only: sep_right [OF colon_not_in_show(4) colon_not_in_show(4)])
  then have "(pl_to p @ CHR '':'' # show_i64 (pl_amount p)) @ CHR '':'' # show_i64 (pl_fee p)
       = (pl_to q @ CHR '':'' # show_i64 (pl_amount q)) @ CHR '':'' # show_i64 (pl_fee q)"
    by simp
  then have e: "show_i64 (pl_fee p) = show_i64 (pl_fee q)"
    and "pl_to p @ CHR '':'' # show_i64 (pl_amount p) = pl_to q @ CHR '':'' # show_i64 (pl_amount q)"
    by (simp_all only: sep_right [OF colon_not_in_show(3) colon_not_in_show(3)])
  then have "show_i64 (pl_amount p) = show_i64 (pl_amount q)" "pl_to p = pl_to q"
    by (simp_all only: sep_right [OF colon_not_in_show(3) colon_not_in_show(3)])
  with f n e show "p = q" by simp
qed simp

end
