(* ===== verification/Nuvex_State.thy ===== *)
theory Nuvex_State
  imports Nuvex_Signature
begin

text \<open>
  The state keeper (\<open>x/nvx/keeper/state.go\<close>): accounts, the transaction log and the copy of both
  that \<open>save\<close> writes to disk. The file holds the JSON text of exactly these two values; the model
  keeps the values. Every operation holds the keeper's mutex from start to end, so each is one
  step. The sender and the receiver of a transfer to oneself are the same Go object: the model
  updates the map field by field in the code's order, so the aliasing is kept.
\<close>

section \<open>Data\<close>

record account =
  acc_address :: string
  acc_balance :: i64
  acc_nonce :: u64
  acc_public_key :: string

record transaction =
  tx_hash :: string
  tx_from :: string
  tx_to :: string
  tx_amount :: i64
  tx_fee :: i64
  tx_nonce :: u64
  tx_height :: i64
  tx_timestamp :: string
  tx_status :: string
  tx_signature :: string

type_synonym account_map = "string \<rightharpoonup> account"

record state_keeper =
  accounts :: account_map
  txs :: "transaction list"
  disk :: "(account_map \<times> transaction list) option"

record genesis_entry =
  ge_address :: string
  ge_amount :: i64
  ge_public_key :: string

datatype state_error =
    AddressNotFound string
  | BadSignature sig_error
  | PublicKeyError sig_error
  | PublicKeyMismatch
  | InsufficientFunds i64 i64

section \<open>Persistence and construction\<close>

definition save :: "state_keeper \<Rightarrow> state_keeper" where
  "save sk = sk\<lparr>disk := Some (accounts sk, txs sk)\<rparr>"

definition load :: "state_keeper \<Rightarrow> state_keeper" where
  "load sk = (case disk sk of None \<Rightarrow> sk | Some (a, t) \<Rightarrow> sk\<lparr>accounts := a, txs := t\<rparr>)"

definition new_state_keeper :: "(account_map \<times> transaction list) option \<Rightarrow> state_keeper" where
  "new_state_keeper d = load \<lparr>accounts = Map.empty, txs = [], disk = d\<rparr>"

fun genesis_accounts :: "genesis_entry list \<Rightarrow> account_map \<Rightarrow> account_map" where
  "genesis_accounts [] m = m"
| "genesis_accounts (e # es) m =
     genesis_accounts es
       (if ge_address e \<in> dom m then m
        else m(ge_address e \<mapsto>
          \<lparr>acc_address = ge_address e, acc_balance = ge_amount e, acc_nonce = 0,
           acc_public_key = ge_public_key e\<rparr>))"

definition init_genesis :: "genesis_entry list \<Rightarrow> state_keeper \<Rightarrow> state_keeper" where
  "init_genesis es sk = save (sk\<lparr>accounts := genesis_accounts es (accounts sk)\<rparr>)"

section \<open>Queries\<close>

definition get_balance :: "string \<Rightarrow> state_keeper \<Rightarrow> i64" where
  "get_balance address sk = (case accounts sk address of Some acc \<Rightarrow> acc_balance acc | None \<Rightarrow> 0)"

definition get_transactions :: "int \<Rightarrow> state_keeper \<Rightarrow> (unit, transaction list) res" where
  "get_transactions limit sk = newest_first limit (txs sk)"

text \<open>\<open>order\<close> is the order in which Go ranges over the map.\<close>

definition get_all_accounts :: "string list \<Rightarrow> state_keeper \<Rightarrow> account list" where
  "get_all_accounts order sk = range_values order (accounts sk)"

section \<open>Transfers\<close>

definition upd_account :: "string \<Rightarrow> (account \<Rightarrow> account) \<Rightarrow> account_map \<Rightarrow> account_map" where
  "upd_account a f m = (case m a of None \<Rightarrow> m | Some acc \<Rightarrow> m(a \<mapsto> f acc))"

definition add_balance :: "i64 \<Rightarrow> account \<Rightarrow> account" where
  "add_balance x acc = acc\<lparr>acc_balance := acc_balance acc + x\<rparr>"

definition ensure_account :: "string \<Rightarrow> account_map \<Rightarrow> account_map" where
  "ensure_account a m =
     (if a \<in> dom m then m
      else m(a \<mapsto> \<lparr>acc_address = a, acc_balance = 0, acc_nonce = 0, acc_public_key = ''''\<rparr>))"

text \<open>The three assignments of a transfer, after the receiver's account exists.\<close>

definition move_funds :: "string \<Rightarrow> string \<Rightarrow> i64 \<Rightarrow> i64 \<Rightarrow> account_map \<Rightarrow> account_map" where
  "move_funds from to amount debit m =
     upd_account from (\<lambda>acc. acc\<lparr>acc_nonce := acc_nonce acc + 1\<rparr>)
       (upd_account to (add_balance amount)
         (upd_account from (add_balance (- debit)) (ensure_account to m)))"

text \<open>The record of an executed transfer; its hash covers the new nonce and, for a signed
  transfer, the signature.\<close>

definition confirmed_tx ::
    "string \<Rightarrow> string \<Rightarrow> i64 \<Rightarrow> i64 \<Rightarrow> u64 \<Rightarrow> i64 \<Rightarrow> string \<Rightarrow> string \<Rightarrow> string \<Rightarrow> transaction" where
  "confirmed_tx from to amount fee n height now sg sg_field =
     \<lparr>tx_hash = ''0x'' @ sha_hex (from @ to @ show_i64 amount @ show_i64 fee @ show_u64 n @ sg),
      tx_from = from, tx_to = to, tx_amount = amount, tx_fee = fee, tx_nonce = n,
      tx_height = height, tx_timestamp = now, tx_status = ''confirmed'',
      tx_signature = sg_field\<rparr>"

definition transfer ::
    "string \<Rightarrow> string \<Rightarrow> i64 \<Rightarrow> i64 \<Rightarrow> i64 \<Rightarrow> string \<Rightarrow> state_keeper
       \<Rightarrow> (state_error, transaction) res \<times> state_keeper" where
  "transfer from to amount fee height now sk =
     (case accounts sk from of
        None \<Rightarrow> (Err (AddressNotFound from), sk)
      | Some sender \<Rightarrow>
          let debit = amount + fee in
          if acc_balance sender <s debit
          then (Err (InsufficientFunds (acc_balance sender) debit), sk)
          else
            let tx = confirmed_tx from to amount fee (acc_nonce sender + 1) height now '''' '''';
                sk' = save (sk\<lparr>accounts := move_funds from to amount debit (accounts sk),
                              txs := txs sk @ [tx]\<rparr>)
            in (if slice_ok 16 from \<and> slice_ok 16 to then Ok tx else Panic, sk'))"

text \<open>\<open>SignedTransfer\<close>: the signature and the address are checked before the balance. The
  abbreviation of the signature is taken before the state is saved.\<close>

definition signed_transfer ::
    "ecdsa_verifier \<Rightarrow> string \<Rightarrow> string \<Rightarrow> i64 \<Rightarrow> i64 \<Rightarrow> i64 \<Rightarrow> string \<Rightarrow> string \<Rightarrow> string
       \<Rightarrow> state_keeper \<Rightarrow> (state_error, transaction) res \<times> state_keeper" where
  "signed_transfer ecdsa_verify from to amount fee height public_key_hex signature_hex now sk =
     (case accounts sk from of
        None \<Rightarrow> (Err (AddressNotFound from), sk)
      | Some sender \<Rightarrow>
          let payload = \<lparr>pl_from = from, pl_to = to, pl_amount = amount, pl_fee = fee,
                         pl_nonce = acc_nonce sender + 1\<rparr> in
          (case verify_signature ecdsa_verify public_key_hex payload signature_hex of
             Err e \<Rightarrow> (Err (BadSignature e), sk)
           | Panic \<Rightarrow> (Panic, sk)
           | Ok _ \<Rightarrow>
               (case address_from_public_key public_key_hex of
                  Err e \<Rightarrow> (Err (PublicKeyError e), sk)
                | Panic \<Rightarrow> (Panic, sk)
                | Ok derived \<Rightarrow>
                    if derived \<noteq> from then (Err PublicKeyMismatch, sk)
                    else
                      let debit = amount + fee in
                      if acc_balance sender <s debit
                      then (Err (InsufficientFunds (acc_balance sender) debit), sk)
                      else
                        let sk1 = sk\<lparr>accounts := move_funds from to amount debit (accounts sk)\<rparr>;
                            tx = confirmed_tx from to amount fee (acc_nonce sender + 1) height
                                   now signature_hex (take 16 signature_hex @ ''...'')
                        in if \<not> slice_ok 16 signature_hex then (Panic, sk1)
                           else let sk2 = save (sk1\<lparr>txs := txs sk1 @ [tx]\<rparr>)
                                in (if slice_ok 16 from \<and> slice_ok 16 to then Ok tx else Panic,
                                    sk2))))"

text \<open>What the staking and governance keepers do to an account they hold a pointer to, under the
  state mutex: \<open>accounts[a].Balance += x\<close>. Nothing is saved.\<close>

definition adjust_balance :: "string \<Rightarrow> i64 \<Rightarrow> state_keeper \<Rightarrow> state_keeper" where
  "adjust_balance a x sk = sk\<lparr>accounts := upd_account a (add_balance x) (accounts sk)\<rparr>"

section \<open>Lemmas on the account map\<close>

definition bal :: "account_map \<Rightarrow> string \<Rightarrow> i64" where
  "bal m a = (case m a of Some acc \<Rightarrow> acc_balance acc | None \<Rightarrow> 0)"

definition nonce :: "account_map \<Rightarrow> string \<Rightarrow> u64" where
  "nonce m a = (case m a of Some acc \<Rightarrow> acc_nonce acc | None \<Rightarrow> 0)"

definition total_supply :: "account_map \<Rightarrow> i64" where
  "total_supply m = sum_over acc_balance m"

lemma get_balance_bal: "get_balance a sk = bal (accounts sk) a"
  by (simp add: get_balance_def bal_def)

lemma upd_account_apply:
  "upd_account a f m b = (if a = b then map_option f (m b) else m b)"
  by (auto simp: upd_account_def split: option.splits)

lemma dom_upd_account [simp]: "dom (upd_account a f m) = dom m"
  by (auto simp: upd_account_def split: option.splits)

lemma dom_ensure_account [simp]: "dom (ensure_account a m) = insert a (dom m)"
  by (auto simp: ensure_account_def)

lemma bal_ensure [simp]: "bal (ensure_account a m) b = bal m b"
  by (auto simp: bal_def ensure_account_def split: option.splits)

lemma bal_upd_add:
  "bal (upd_account a (add_balance x) m) b = (if b = a \<and> a \<in> dom m then bal m b + x else bal m b)"
  by (auto simp: bal_def upd_account_apply add_balance_def split: option.splits)

lemma bal_upd_other [simp]: "(\<And>acc. acc_balance (f acc) = acc_balance acc) \<Longrightarrow> bal (upd_account a f m) b = bal m b"
  by (auto simp: bal_def upd_account_apply split: option.splits)

lemma nonce_ensure [simp]: "nonce (ensure_account a m) b = nonce m b"
  by (auto simp: nonce_def ensure_account_def split: option.splits)

lemma nonce_upd_add [simp]: "nonce (upd_account a (add_balance x) m) b = nonce m b"
  by (auto simp: nonce_def upd_account_apply add_balance_def split: option.splits)

lemma total_supply_ensure [simp]: "finite (dom m) \<Longrightarrow> total_supply (ensure_account a m) = total_supply m"
  by (cases "m a") (auto simp: total_supply_def ensure_account_def sum_over_insert)

lemma total_supply_upd:
  assumes "finite (dom m)" "a \<in> dom m"
  shows "total_supply (upd_account a f m) = total_supply m - acc_balance (the (m a)) + acc_balance (f (the (m a)))"
  using assms by (auto simp: total_supply_def upd_account_def sum_over_update)

lemma total_supply_upd_add:
  "finite (dom m) \<Longrightarrow> a \<in> dom m \<Longrightarrow> total_supply (upd_account a (add_balance x) m) = total_supply m + x"
  by (simp add: total_supply_upd add_balance_def)

lemma dom_move_funds [simp]: "dom (move_funds from to amount debit m) = insert to (dom m)"
  by (simp add: move_funds_def)

text \<open>The whole effect of a transfer on balances, nonces and supply, self-transfers included.\<close>

lemma bal_move_funds:
  assumes "from \<in> dom m"
  shows "bal (move_funds from to amount debit m) a
           = bal m a - (if a = from then debit else 0) + (if a = to then amount else 0)"
  using assms by (auto simp: move_funds_def bal_upd_add)

lemma nonce_move_funds:
  assumes "from \<in> dom m"
  shows "nonce (move_funds from to amount debit m) a = nonce m a + (if a = from then 1 else 0)"
proof -
  let ?m = "upd_account to (add_balance amount) (upd_account from (add_balance (- debit)) (ensure_account to m))"
  have "nonce (upd_account from (\<lambda>acc. acc\<lparr>acc_nonce := acc_nonce acc + 1\<rparr>) ?m) a
      = nonce ?m a + (if a = from then 1 else 0)"
    using assms by (auto simp: nonce_def upd_account_apply ensure_account_def split: option.splits)
  then show ?thesis by (simp add: move_funds_def)
qed

lemma total_supply_upd_same:
  assumes "\<And>acc. acc_balance (f acc) = acc_balance acc" "finite (dom m)"
  shows "total_supply (upd_account a f m) = total_supply m"
proof (cases "a \<in> dom m")
  case True
  with assms show ?thesis by (simp add: total_supply_upd)
next
  case False
  then have "upd_account a f m = m" by (auto simp: upd_account_def split: option.splits)
  then show ?thesis by simp
qed

lemma total_supply_move_funds:
  assumes "finite (dom m)" "from \<in> dom m"
  shows "total_supply (move_funds from to amount debit m) = total_supply m - debit + amount"
  using assms by (simp add: move_funds_def total_supply_upd_same total_supply_upd_add)

section \<open>Well-formedness\<close>

definition state_wf :: "state_keeper \<Rightarrow> bool" where
  "state_wf sk \<longleftrightarrow> finite (dom (accounts sk))
     \<and> (\<forall>a acc. accounts sk a = Some acc \<longrightarrow> acc_address acc = a)"

lemma state_wf_finite [simp]: "state_wf sk \<Longrightarrow> finite (dom (accounts sk))"
  by (simp add: state_wf_def)

lemma state_wf_alt:
  "state_wf sk \<longleftrightarrow> finite (dom (accounts sk))
     \<and> (\<forall>a. map_option acc_address (accounts sk a) \<in> {None, Some a})"
proof -
  have "(\<forall>acc. accounts sk a = Some acc \<longrightarrow> acc_address acc = a)
      \<longleftrightarrow> map_option acc_address (accounts sk a) \<in> {None, Some a}" for a
    by (cases "accounts sk a") auto
  then show ?thesis by (simp add: state_wf_def)
qed

lemma address_upd_add [simp]:
  "map_option acc_address (upd_account a (add_balance x) m b) = map_option acc_address (m b)"
  by (cases "m b") (auto simp: upd_account_apply add_balance_def)

lemma save_simps [simp]:
  "accounts (save sk) = accounts sk" "txs (save sk) = txs sk"
  "disk (save sk) = Some (accounts sk, txs sk)"
  by (simp_all add: save_def)

lemma state_wf_save [simp]: "state_wf (save sk) = state_wf sk"
  by (simp add: state_wf_def)

lemma wf_move_funds:
  assumes "finite (dom m)" "\<forall>a acc. m a = Some acc \<longrightarrow> acc_address acc = a"
  shows "finite (dom (move_funds from to amount debit m))"
    and "\<forall>a acc. move_funds from to amount debit m a = Some acc \<longrightarrow> acc_address acc = a"
  using assms
  by (auto simp: move_funds_def upd_account_apply ensure_account_def add_balance_def
      split: if_splits option.splits)

lemma load_save [simp]: "new_state_keeper (disk (save sk)) = save sk"
  by (simp add: new_state_keeper_def load_def save_def)

section \<open>Outcomes of a transfer\<close>

lemma transfer_cases:
  obtains (missing) "accounts sk from = None"
      "transfer from to amount fee h now sk = (Err (AddressNotFound from), sk)"
  | (poor) acc where "accounts sk from = Some acc" "acc_balance acc <s amount + fee"
      "transfer from to amount fee h now sk
         = (Err (InsufficientFunds (acc_balance acc) (amount + fee)), sk)"
  | (moved) acc tx where "accounts sk from = Some acc" "\<not> acc_balance acc <s amount + fee"
      "fst (transfer from to amount fee h now sk)
         = (if slice_ok 16 from \<and> slice_ok 16 to then Ok tx else Panic)"
      "snd (transfer from to amount fee h now sk)
         = save (sk\<lparr>accounts := move_funds from to amount (amount + fee) (accounts sk),
                    txs := txs sk @ [tx]\<rparr>)"
      "tx = confirmed_tx from to amount fee (acc_nonce acc + 1) h now '''' ''''"
proof (cases "accounts sk from")
  case None
  then show ?thesis by (intro missing) (simp_all add: transfer_def)
next
  case (Some acc)
  show ?thesis
  proof (cases "acc_balance acc <s amount + fee")
    case True
    with Some show ?thesis by (intro poor) (simp_all add: transfer_def)
  next
    case False
    with Some show ?thesis
      by (intro moved [OF Some False _ _ refl]) (simp_all add: transfer_def Let_def)
  qed
qed

lemma signed_transfer_ok:
  assumes "fst (signed_transfer V from to amount fee h pk sg now sk) = Ok tx"
  shows "\<exists>acc. accounts sk from = Some acc
     \<and> verify_signature V pk \<lparr>pl_from = from, pl_to = to, pl_amount = amount, pl_fee = fee,
                             pl_nonce = acc_nonce acc + 1\<rparr> sg = Ok ()
     \<and> address_from_public_key pk = Ok from
     \<and> \<not> acc_balance acc <s amount + fee
     \<and> snd (signed_transfer V from to amount fee h pk sg now sk)
         = save (sk\<lparr>accounts := move_funds from to amount (amount + fee) (accounts sk),
                    txs := txs sk @ [tx]\<rparr>)
     \<and> tx = confirmed_tx from to amount fee (acc_nonce acc + 1) h now sg (take 16 sg @ ''...'')"
  using assms
  by (auto simp: signed_transfer_def Let_def split: option.splits res.splits if_splits)

text \<open>An error leaves the state as it was.\<close>

lemma signed_transfer_err:
  "fst (signed_transfer V from to amount fee h pk sg now sk) = Err e \<Longrightarrow>
     snd (signed_transfer V from to amount fee h pk sg now sk) = sk"
  by (auto simp: signed_transfer_def Let_def split: option.splits res.splits if_splits)

lemma transfer_err:
  "fst (transfer from to amount fee h now sk) = Err e \<Longrightarrow>
     snd (transfer from to amount fee h now sk) = sk"
  by (rule transfer_cases [of sk "from" to amount fee h now]) (auto split: if_splits)

section \<open>The ledger interface\<close>

text \<open>
  What the staking and governance keepers rely on: reading a balance and crediting or debiting
  (a negative credit) an account that exists. The laws say that a credit changes one balance and
  the supply by its amount and nothing else.
\<close>

locale balance_ledger =
  fixes read :: "'s \<Rightarrow> string \<Rightarrow> i64"
    and known :: "'s \<Rightarrow> string set"
    and credit :: "string \<Rightarrow> i64 \<Rightarrow> 's \<Rightarrow> 's"
    and money :: "'s \<Rightarrow> i64"
    and ok :: "'s \<Rightarrow> bool"
  assumes read_credit: "a \<in> known s \<Longrightarrow> read (credit a x s) b = (if b = a then read s b + x else read s b)"
    and credit_unknown: "a \<notin> known s \<Longrightarrow> credit a x s = s"
    and read_unknown: "a \<notin> known s \<Longrightarrow> read s a = 0"
    and known_credit: "known (credit a x s) = known s"
    and money_credit: "ok s \<Longrightarrow> a \<in> known s \<Longrightarrow> money (credit a x s) = money s + x"
    and ok_credit: "ok (credit a x s) = ok s"
begin

lemma read_pos_known: "read s a \<noteq> 0 \<Longrightarrow> a \<in> known s"
  using read_unknown by blast

lemma read_other: "b \<noteq> a \<Longrightarrow> read (credit a x s) b = read s b"
  using read_credit [of a s x b] credit_unknown [of a s x] by (cases "a \<in> known s") simp_all

lemma debit_credit_read: "a \<in> known s \<Longrightarrow> read (credit a y (credit a (- x) s)) a = read s a - x + y"
  by (simp add: read_credit known_credit)

lemma debit_credit_money: "ok s \<Longrightarrow> a \<in> known s \<Longrightarrow> money (credit a y (credit a (- x) s)) = money s - x + y"
  by (simp add: money_credit known_credit ok_credit)

text \<open>Locking funds in a keeper: what leaves the ledger is what the keeper holds.\<close>

lemma escrow_conserved:
  "ok s \<Longrightarrow> a \<in> known s \<Longrightarrow> money (credit a (- x) s) + (held + x) = money s + held"
  by (simp add: money_credit)

lemma release_conserved:
  "ok s \<Longrightarrow> a \<in> known s \<Longrightarrow> money (credit a x s) + (held - x) = money s + held"
  by (simp add: money_credit)

end

interpretation state_ledger: balance_ledger
  "\<lambda>sk a. get_balance a sk" "\<lambda>sk. dom (accounts sk)" adjust_balance
  "\<lambda>sk. total_supply (accounts sk)" state_wf
proof unfold_locales
  fix a b x and s :: state_keeper
  show "a \<in> dom (accounts s) \<Longrightarrow>
      get_balance b (adjust_balance a x s) = (if b = a then get_balance b s + x else get_balance b s)"
    by (simp add: get_balance_bal adjust_balance_def bal_upd_add)
  show "a \<notin> dom (accounts s) \<Longrightarrow> adjust_balance a x s = s"
    by (cases "accounts s a") (auto simp: adjust_balance_def upd_account_def)
  show "a \<notin> dom (accounts s) \<Longrightarrow> get_balance a s = 0"
    by (auto simp: get_balance_def split: option.splits)
  show "dom (accounts (adjust_balance a x s)) = dom (accounts s)"
    by (simp add: adjust_balance_def)
  show "state_wf s \<Longrightarrow> a \<in> dom (accounts s) \<Longrightarrow>
      total_supply (accounts (adjust_balance a x s)) = total_supply (accounts s) + x"
    by (simp add: adjust_balance_def total_supply_upd_add)
  show "state_wf (adjust_balance a x s) = state_wf s"
    by (simp add: state_wf_alt adjust_balance_def address_upd_add)
qed

section \<open>Runs of the keeper\<close>

text \<open>One request to the keeper; height and time are the caller's.\<close>

datatype state_op =
    Unsigned string string i64 i64 i64 string
  | Signed string string i64 i64 i64 string string string

fun op_from :: "state_op \<Rightarrow> string" where
  "op_from (Unsigned f _ _ _ _ _) = f"
| "op_from (Signed f _ _ _ _ _ _ _) = f"

fun op_to :: "state_op \<Rightarrow> string" where
  "op_to (Unsigned _ t _ _ _ _) = t"
| "op_to (Signed _ t _ _ _ _ _ _) = t"

fun op_amount :: "state_op \<Rightarrow> i64" where
  "op_amount (Unsigned _ _ a _ _ _) = a"
| "op_amount (Signed _ _ a _ _ _ _ _) = a"

fun op_fee :: "state_op \<Rightarrow> i64" where
  "op_fee (Unsigned _ _ _ fee _ _) = fee"
| "op_fee (Signed _ _ _ fee _ _ _ _) = fee"

fun state_exec ::
    "ecdsa_verifier \<Rightarrow> state_op \<Rightarrow> state_keeper \<Rightarrow> (state_error, transaction) res \<times> state_keeper" where
  "state_exec V (Unsigned f t a fee h now) sk = transfer f t a fee h now sk"
| "state_exec V (Signed f t a fee h pk sg now) sk = signed_transfer V f t a fee h pk sg now sk"

definition state_step :: "ecdsa_verifier \<Rightarrow> state_op \<Rightarrow> state_keeper \<Rightarrow> state_keeper" where
  "state_step V op sk = snd (state_exec V op sk)"

text \<open>Every request either changes nothing or moves the funds and logs one transaction.\<close>

lemma state_step_cases:
  obtains (same) "state_step V op sk = sk"
  | (moved) acc tx where "accounts sk (op_from op) = Some acc"
      "\<not> acc_balance acc <s op_amount op + op_fee op"
      "state_step V op sk = save (sk\<lparr>
          accounts := move_funds (op_from op) (op_to op) (op_amount op) (op_amount op + op_fee op)
                        (accounts sk),
          txs := txs sk @ [tx]\<rparr>)"
      "tx_from tx = op_from op" "tx_fee tx = op_fee op" "tx_nonce tx = acc_nonce acc + 1"
proof (cases op)
  case (Unsigned f t a fee h now)
  show ?thesis
  proof (cases rule: transfer_cases [of sk f t a fee h now])
    case missing
    then show ?thesis using Unsigned by (intro same) (simp add: state_step_def)
  next
    case (poor acc)
    then show ?thesis using Unsigned by (intro same) (simp add: state_step_def)
  next
    case (moved acc tx)
    then show ?thesis
      using Unsigned by (intro that(2) [of acc tx]) (simp_all add: state_step_def confirmed_tx_def)
  qed
next
  case (Signed f t a fee h pk sg now)
  show ?thesis
  proof (cases "state_step V op sk = sk")
    case False
    then obtain acc where acc: "accounts sk f = Some acc"
      and v: "verify_signature V pk \<lparr>pl_from = f, pl_to = t, pl_amount = a, pl_fee = fee,
                                    pl_nonce = acc_nonce acc + 1\<rparr> sg = Ok ()"
      and b: "\<not> acc_balance acc <s a + fee" and d: "address_from_public_key pk = Ok f"
      using Signed
      by (auto simp: state_step_def signed_transfer_def Let_def
          split: option.splits res.splits if_splits)
    have "slice_ok 16 sg" using verify_signature_lengths [OF v] by (simp add: slice_ok_def)
    then show ?thesis
      using Signed acc v b d
      by (intro that(2) [of acc "confirmed_tx f t a fee (acc_nonce acc + 1) h now sg (take 16 sg @ ''...'')"])
        (simp_all add: state_step_def signed_transfer_def Let_def confirmed_tx_def)
  qed (rule same)
qed

lemma state_step_wf [simp]: "state_wf sk \<Longrightarrow> state_wf (state_step V op sk)"
proof (cases rule: state_step_cases [of V op sk])
  case (moved acc tx)
  assume "state_wf sk"
  then have w: "finite (dom (accounts sk))"
    "\<forall>a acc. accounts sk a = Some acc \<longrightarrow> acc_address acc = a" by (simp_all add: state_wf_def)
  show ?thesis
    unfolding moved(3) state_wf_save unfolding state_wf_def
    using wf_move_funds [OF w] by (intro conjI) simp_all
qed simp

lemma state_fold_wf [simp]: "state_wf sk \<Longrightarrow> state_wf (fold (state_step V) ops sk)"
  by (induction ops arbitrary: sk) simp_all

text \<open>Fees leave the ledger: supply plus the fees logged is constant.\<close>

definition fees_logged :: "state_keeper \<Rightarrow> i64" where
  "fees_logged sk = (\<Sum>tx\<leftarrow>txs sk. tx_fee tx)"

lemma state_step_conserves:
  "state_wf sk \<Longrightarrow>
     total_supply (accounts (state_step V op sk)) + fees_logged (state_step V op sk)
       = total_supply (accounts sk) + fees_logged sk"
proof (cases rule: state_step_cases [of V op sk])
  case (moved acc tx)
  assume "state_wf sk"
  then have "total_supply (move_funds (op_from op) (op_to op) (op_amount op)
      (op_amount op + op_fee op) (accounts sk)) = total_supply (accounts sk) - op_fee op"
    using moved(1) by (subst total_supply_move_funds) auto
  then show ?thesis using moved by (simp add: fees_logged_def)
qed simp

lemma state_fold_conserves:
  "state_wf sk \<Longrightarrow>
     total_supply (accounts (fold (state_step V) ops sk)) + fees_logged (fold (state_step V) ops sk)
       = total_supply (accounts sk) + fees_logged sk"
proof (induction ops arbitrary: sk)
  case (Cons op ops)
  have "total_supply (accounts (fold (state_step V) ops (state_step V op sk)))
      + fees_logged (fold (state_step V) ops (state_step V op sk))
      = total_supply (accounts (state_step V op sk)) + fees_logged (state_step V op sk)"
    using Cons.prems by (intro Cons.IH) simp
  also have "\<dots> = total_supply (accounts sk) + fees_logged sk"
    using Cons.prems by (rule state_step_conserves)
  finally show ?case by simp
qed simp

text \<open>The nonces an address has used are the numbers after its starting nonce, in order.\<close>

definition sent_nonces :: "string \<Rightarrow> state_keeper \<Rightarrow> u64 list" where
  "sent_nonces a sk = map tx_nonce (filter (\<lambda>tx. tx_from tx = a) (txs sk))"

definition nonces_from :: "u64 \<Rightarrow> nat \<Rightarrow> u64 list" where
  "nonces_from n k = map (\<lambda>i. n + word_of_nat (Suc i)) [0..<k]"

definition nonce_inv :: "(string \<Rightarrow> u64) \<Rightarrow> state_keeper \<Rightarrow> bool" where
  "nonce_inv n0 sk \<longleftrightarrow> (\<forall>a. sent_nonces a sk = nonces_from (n0 a) (length (sent_nonces a sk))
     \<and> nonce (accounts sk) a = n0 a + word_of_nat (length (sent_nonces a sk)))"

lemma nonces_from_Suc: "nonces_from n (Suc k) = nonces_from n k @ [n + word_of_nat (Suc k)]"
  by (simp add: nonces_from_def)

lemma state_step_nonce_inv: "nonce_inv n0 sk \<Longrightarrow> nonce_inv n0 (state_step V op sk)"
proof (cases rule: state_step_cases [of V op sk])
  case (moved acc tx)
  assume inv: "nonce_inv n0 sk"
  let ?f = "op_from op"
  have n: "acc_nonce acc = n0 ?f + word_of_nat (length (sent_nonces ?f sk))"
    using inv moved(1) by (auto simp: nonce_inv_def nonce_def split: option.splits)
  have sn: "sent_nonces a (state_step V op sk)
      = (if a = ?f then sent_nonces a sk @ [acc_nonce acc + 1] else sent_nonces a sk)" for a
    using moved by (simp add: sent_nonces_def)
  have nn: "nonce (accounts (state_step V op sk)) a
      = nonce (accounts sk) a + (if a = ?f then 1 else 0)" for a
    using moved(1) unfolding moved(3) by (simp add: nonce_move_funds domI)
  show ?thesis
    using inv unfolding nonce_inv_def sn nn
    by (auto simp: nonces_from_Suc n ac_simps)
qed simp

lemma state_fold_nonce_inv: "nonce_inv n0 sk \<Longrightarrow> nonce_inv n0 (fold (state_step V) ops sk)"
  by (induction ops arbitrary: sk) (simp_all add: state_step_nonce_inv)

text \<open>What is on disk is what is in memory.\<close>

definition disk_synced :: "state_keeper \<Rightarrow> bool" where
  "disk_synced sk \<longleftrightarrow> disk sk = Some (accounts sk, txs sk)"

lemma state_step_synced: "disk_synced sk \<Longrightarrow> disk_synced (state_step V op sk)"
  by (cases rule: state_step_cases [of V op sk]) (simp_all add: disk_synced_def)

lemma state_fold_synced: "disk_synced sk \<Longrightarrow> disk_synced (fold (state_step V) ops sk)"
  by (induction ops arbitrary: sk) (simp_all add: state_step_synced)

section \<open>Balances as integers\<close>

text \<open>
  With non-negative amounts and fees nothing overflows, because every balance is bounded by the
  sum of all of them.
\<close>

definition isum :: "account_map \<Rightarrow> int" where
  "isum m = (\<Sum>a\<in>dom m. sint (bal m a))"

definition solvent :: "account_map \<Rightarrow> bool" where
  "solvent m \<longleftrightarrow> finite (dom m) \<and> (\<forall>a. 0 \<le> sint (bal m a)) \<and> isum m < 2 ^ 63"

lemma bal_outside [simp]: "a \<notin> dom m \<Longrightarrow> bal m a = 0"
  by (auto simp: bal_def split: option.splits)

lemma isum_insert: "finite (dom m) \<Longrightarrow> (\<Sum>a\<in>insert b (dom m). sint (bal m a)) = isum m"
  by (cases "b \<in> dom m") (simp_all add: isum_def insert_absorb)

lemma two_balances_bounded:
  assumes "solvent m" "a \<noteq> b"
  shows "sint (bal m a) + sint (bal m b) \<le> isum m"
proof -
  let ?D = "insert a (insert b (dom m))"
  have fin: "finite (dom m)" and nn: "\<And>c. 0 \<le> sint (bal m c)" using assms by (auto simp: solvent_def)
  have "(\<Sum>c\<in>{a, b}. sint (bal m c)) \<le> (\<Sum>c\<in>?D. sint (bal m c))"
    using fin nn by (intro sum_mono2) auto
  also have "\<dots> = (\<Sum>c\<in>dom m. sint (bal m c))"
    using fin by (intro sum.mono_neutral_right) auto
  finally show ?thesis using assms(2) by (simp add: isum_def)
qed

lemma balance_bounded: "solvent m \<Longrightarrow> sint (bal m a) \<le> isum m"
proof -
  assume s: "solvent m"
  obtain b where "b \<noteq> a" "0 \<le> sint (bal m b)" using s by (metis list.distinct(1) solvent_def)
  then show ?thesis using two_balances_bounded [OF s, of a b] by simp
qed

lemma solvent_move_funds:
  assumes "solvent m" and "from \<in> dom m" and "0 \<le> sint amount" "0 \<le> sint fee"
    and "sint amount + sint fee < 2 ^ 63" and "\<not> bal m from <s amount + fee"
  shows "solvent (move_funds from to amount (amount + fee) m)
    \<and> isum (move_funds from to amount (amount + fee) m) = isum m - sint fee"
proof -
  let ?m = "move_funds from to amount (amount + fee) m"
  have fin: "finite (dom m)" and nn: "\<And>a. 0 \<le> sint (bal m a)" and top: "isum m < 2 ^ 63"
    using assms(1) by (auto simp: solvent_def)
  have d: "sint (amount + fee) = sint amount + sint fee"
    using assms by (simp add: sint64_add)
  have enough: "sint amount + sint fee \<le> sint (bal m from)"
    using assms(6) d by (simp add: word_sless_alt)
  have b: "sint (bal ?m a) = sint (bal m a) - (if a = from then sint amount + sint fee else 0)
      + (if a = to then sint amount else 0)" for a
  proof -
    have 1: "sint (bal m a - (if a = from then amount + fee else 0))
        = sint (bal m a) - (if a = from then sint amount + sint fee else 0)"
      using enough d nn [of a] sint64_bounds [of "bal m a"] assms(3,4) by (subst sint64_sub) auto
    have 2: "sint (bal m a) - (if a = from then sint amount + sint fee else 0)
        + (if a = to then sint amount else 0) < 2 ^ 63"
      using two_balances_bounded [OF assms(1), of a "from"] top enough assms(3,4)
        balance_bounded [OF assms(1), of a] by (cases "a = from") auto
    have 3: "0 \<le> sint (bal m a) - (if a = from then sint amount + sint fee else 0)
        + (if a = to then sint amount else 0)"
      using enough nn [of a] assms(3) by auto
    show ?thesis
      using 1 2 3 unfolding bal_move_funds [OF assms(2)]
      by (subst sint64_add) (auto split: if_splits)
  qed
  have "isum ?m = (\<Sum>a\<in>insert to (dom m). sint (bal m a)
      - (if a = from then sint amount + sint fee else 0) + (if a = to then sint amount else 0))"
    by (simp add: isum_def b)
  also have "\<dots> = isum m - (sint amount + sint fee) + sint amount"
    using fin assms(2) by (simp add: sum.distrib sum_subtractf isum_insert)
  finally have s: "isum ?m = isum m - sint fee" by simp
  moreover have "0 \<le> sint (bal ?m a)" for a
    using b [of a] enough nn [of a] assms(3) by auto
  ultimately show ?thesis
    using fin top assms(4) by (simp add: solvent_def)
qed

definition op_positive :: "state_op \<Rightarrow> bool" where
  "op_positive op \<longleftrightarrow> 0 \<le> sint (op_amount op) \<and> 0 \<le> sint (op_fee op)
     \<and> sint (op_amount op) + sint (op_fee op) < 2 ^ 63"

lemma solvent_step:
  assumes "solvent (accounts sk)" "op_positive op"
  shows "solvent (accounts (state_step V op sk)) \<and> isum (accounts (state_step V op sk)) \<le> isum (accounts sk)"
proof (cases rule: state_step_cases [of V op sk])
  case (moved acc tx)
  have "bal (accounts sk) (op_from op) = acc_balance acc" "op_from op \<in> dom (accounts sk)"
    using moved(1) by (auto simp: bal_def)
  then show ?thesis
    using assms moved(1,2) solvent_move_funds [of "accounts sk" "op_from op" "op_amount op" "op_fee op" "op_to op"]
    unfolding moved(3) by (auto simp: op_positive_def)
qed (use assms in simp)

lemma solvent_fold:
  assumes "solvent (accounts sk)" "\<forall>op\<in>set ops. op_positive op"
  shows "solvent (accounts (fold (state_step V) ops sk))
    \<and> isum (accounts (fold (state_step V) ops sk)) \<le> isum (accounts sk)"
  using assms
proof (induction ops arbitrary: sk)
  case (Cons op ops)
  then show ?case using solvent_step [of sk op V] by (fastforce dest: Cons.IH)
qed simp

lemma solvent_genesis:
  assumes "solvent m" "\<forall>e\<in>set es. 0 \<le> sint (ge_amount e)"
    "isum m + (\<Sum>e\<leftarrow>es. sint (ge_amount e)) < 2 ^ 63"
  shows "solvent (genesis_accounts es m)
    \<and> isum (genesis_accounts es m) \<le> isum m + (\<Sum>e\<leftarrow>es. sint (ge_amount e))"
  using assms
proof (induction es arbitrary: m)
  case (Cons e es)
  let ?m = "if ge_address e \<in> dom m then m else m(ge_address e \<mapsto>
          \<lparr>acc_address = ge_address e, acc_balance = ge_amount e, acc_nonce = 0,
           acc_public_key = ge_public_key e\<rparr>)"
  have rest: "0 \<le> (\<Sum>e\<leftarrow>es. sint (ge_amount e))"
    using Cons.prems(2) by (intro sum_list_nonneg) auto
  have "solvent ?m \<and> isum ?m \<le> isum m + sint (ge_amount e)"
  proof (cases "ge_address e \<in> dom m")
    case True
    then show ?thesis using Cons.prems by auto
  next
    case False
    then have b: "bal ?m a = (if a = ge_address e then ge_amount e else bal m a)" for a
      by (auto simp: bal_def)
    have "isum ?m = (\<Sum>a\<in>insert (ge_address e) (dom m). sint (bal ?m a))"
      using False by (simp add: isum_def)
    also have "\<dots> = sint (ge_amount e) + (\<Sum>a\<in>dom m. sint (bal ?m a))"
      using False Cons.prems(1) b [of "ge_address e"] by (simp add: solvent_def)
    also have "(\<Sum>a\<in>dom m. sint (bal ?m a)) = isum m"
      unfolding isum_def using False b by (intro sum.cong) auto
    finally have s: "isum ?m = sint (ge_amount e) + isum m" .
    have "finite (dom ?m)" "0 \<le> sint (bal ?m a)" for a
      using Cons.prems(1,2) b [of a] by (auto simp: solvent_def)
    then show ?thesis using s Cons.prems(3) rest by (simp add: solvent_def)
  qed
  then show ?case
    using Cons.prems Cons.IH [of ?m] by auto
qed simp

section \<open>A concrete sender\<close>

definition demo_pub :: bytes where
  "demo_pub = replicate 64 0"

definition demo_addr :: string where
  "demo_addr = address_of_pubkey_bytes demo_pub"

definition demo_state :: "i64 \<Rightarrow> state_keeper" where
  "demo_state x = init_genesis
     [\<lparr>ge_address = demo_addr, ge_amount = x, ge_public_key = ''''\<rparr>,
      \<lparr>ge_address = ''nuvex1victimvictim'', ge_amount = 700, ge_public_key = ''''\<rparr>]
     (new_state_keeper None)"

lemma demo_addr_neq: "demo_addr \<noteq> ''nuvex1victimvictim''" "''nuvex1victimvictim'' \<noteq> demo_addr"
proof -
  have "length demo_addr \<noteq> length ''nuvex1victimvictim''" by (simp add: demo_addr_def)
  then show "demo_addr \<noteq> ''nuvex1victimvictim''" "''nuvex1victimvictim'' \<noteq> demo_addr" by metis+
qed

lemma demo_accounts:
  "accounts (demo_state x) demo_addr = Some \<lparr>acc_address = demo_addr, acc_balance = x, acc_nonce = 0, acc_public_key = ''''\<rparr>"
  "accounts (demo_state x) ''nuvex1victimvictim''
     = Some \<lparr>acc_address = ''nuvex1victimvictim'', acc_balance = 700, acc_nonce = 0, acc_public_key = ''''\<rparr>"
  using demo_addr_neq
  by (simp_all add: demo_state_def init_genesis_def new_state_keeper_def load_def)

lemma demo_verify:
  "verify_signature (\<lambda>_ _ _ _. True) (hex_encode demo_pub) p (hex_encode demo_pub) = Ok ()"
  "address_from_public_key (hex_encode demo_pub) = Ok demo_addr"
  by (simp_all add: verify_signature_ok demo_pub_def demo_addr_def address_from_public_key_def)

lemma demo_signed_transfer:
  assumes "\<not> x <s amount + fee"
  shows "\<exists>tx. fst (signed_transfer (\<lambda>_ _ _ _. True) demo_addr ''nuvex1victimvictim'' amount fee 1
           (hex_encode demo_pub) (hex_encode demo_pub) ''t'' (demo_state x)) = Ok tx"
  using assms
  by (simp add: signed_transfer_def demo_accounts demo_verify Let_def slice_ok_def)
    (simp add: demo_addr_def demo_pub_def)

section \<open>Properties\<close>

text \<open>
  C4: what a transfer does, whoever sends to whom. If the sender exists and its balance is not below
  amount plus fee (compared as signed 64-bit integers), then in the new state every balance, the
  sender's own included when it sends to itself, has changed by minus amount plus fee for the sender
  and by plus the amount for the receiver; only the sender's nonce has moved, by one; one
  transaction with that nonce has been appended; and the state has been written to disk. The call
  returns the transaction when both addresses have sixteen characters for the log line.
\<close>

theorem transfer_effect:
  assumes "accounts sk from = Some acc" and "\<not> acc_balance acc <s amount + fee"
  shows "let (r, sk') = transfer from to amount fee h now sk in
     (\<forall>a. get_balance a sk' = get_balance a sk - (if a = from then amount + fee else 0)
                             + (if a = to then amount else 0))
     \<and> (\<forall>a. nonce (accounts sk') a = nonce (accounts sk) a + (if a = from then 1 else 0))
     \<and> (\<exists>tx. txs sk' = txs sk @ [tx] \<and> tx_from tx = from \<and> tx_to tx = to
          \<and> tx_amount tx = amount \<and> tx_fee tx = fee \<and> tx_nonce tx = acc_nonce acc + 1
          \<and> r = (if 16 \<le> length from \<and> 16 \<le> length to then Ok tx else Panic))
     \<and> new_state_keeper (disk sk') = sk'"
proof -
  have m: "from \<in> dom (accounts sk)" using assms(1) by auto
  show ?thesis
    using assms
    by (simp add: transfer_def Let_def get_balance_bal bal_move_funds [OF m] nonce_move_funds [OF m]
        slice_ok_def confirmed_tx_def new_state_keeper_def load_def save_def)
qed

theorem transfer_effect_witness:
  "let sk = init_genesis [\<lparr>ge_address = ''nuvex1alicealice'', ge_amount = 5000, ge_public_key = ''''\<rparr>]
              (new_state_keeper None);
       (r, sk') = transfer ''nuvex1alicealice'' ''nuvex1bobbobbobb'' 1000 10 1 ''t'' sk
   in get_balance ''nuvex1alicealice'' sk' = 3990 \<and> get_balance ''nuvex1bobbobbobb'' sk' = 1000
      \<and> new_state_keeper (disk sk') = sk'"
proof -
  let ?sk = "init_genesis [\<lparr>ge_address = ''nuvex1alicealice'', ge_amount = 5000, ge_public_key = ''''\<rparr>]
              (new_state_keeper None)"
  have a: "accounts ?sk = [''nuvex1alicealice'' \<mapsto> \<lparr>acc_address = ''nuvex1alicealice'',
      acc_balance = 5000, acc_nonce = 0, acc_public_key = ''''\<rparr>]"
    by (simp add: init_genesis_def new_state_keeper_def load_def)
  have s: "\<not> (5000 :: i64) <s 1000 + 10" by (simp add: word_sless_alt)
  show ?thesis
    using transfer_effect [of ?sk "''nuvex1alicealice''" _ 1000 10 "''nuvex1bobbobbobb''" 1 "''t''"] s
    by (simp add: a get_balance_def split_beta Let_def)
qed

text \<open>
  C5: value is conserved. In any run of signed and unsigned transfers, whatever they return, the sum
  of all balances plus the fees of the logged transactions stays the same, as 64-bit words: a
  transfer creates nothing, and a fee leaves the ledger.
\<close>

theorem ledger_conserves_value:
  assumes "state_wf sk"
  shows "total_supply (accounts (fold (state_step V) ops sk)) + fees_logged (fold (state_step V) ops sk)
           = total_supply (accounts sk) + fees_logged sk"
  using assms by (rule state_fold_conserves)

theorem ledger_conserves_value_witness:
  "let sk = init_genesis [\<lparr>ge_address = ''nuvex1alicealice'', ge_amount = 5000, ge_public_key = ''''\<rparr>]
              (new_state_keeper None);
       sk' = state_step (\<lambda>_ _ _ _. True)
               (Unsigned ''nuvex1alicealice'' ''nuvex1bobbobbobb'' 1000 10 1 ''t'') sk
   in total_supply (accounts sk') + fees_logged sk' = 5000"
proof -
  let ?sk = "init_genesis [\<lparr>ge_address = ''nuvex1alicealice'', ge_amount = 5000, ge_public_key = ''''\<rparr>]
              (new_state_keeper None)"
  let ?op = "Unsigned ''nuvex1alicealice'' ''nuvex1bobbobbobb'' 1000 10 1 ''t''"
  have w: "state_wf ?sk"
    by (simp add: state_wf_def init_genesis_def new_state_keeper_def load_def)
  have "total_supply (accounts ?sk) + fees_logged ?sk = 5000"
    by (simp add: init_genesis_def new_state_keeper_def load_def fees_logged_def total_supply_def
        sum_over_def)
  then show ?thesis
    using ledger_conserves_value [OF w, of "\<lambda>_ _ _ _. True" "[?op]"] by simp
qed

text \<open>
  C6: no overdraft for non-negative requests. From genesis entries with non-negative amounts whose
  sum fits 63 bits, after any run of transfers with non-negative amounts and fees (and amount plus
  fee within 63 bits), no balance is negative and the integer sum of all balances is at most what
  the genesis entries put in.
\<close>

theorem positive_transfers_never_overdraw:
  assumes "\<forall>e\<in>set es. 0 \<le> sint (ge_amount e)"
    and "(\<Sum>e\<leftarrow>es. sint (ge_amount e)) < 2 ^ 63"
    and "\<forall>op\<in>set ops. op_positive op"
  shows "let sk = fold (state_step V) ops (init_genesis es (new_state_keeper None)) in
     (\<forall>a. 0 \<le> sint (get_balance a sk))
     \<and> isum (accounts sk) \<le> (\<Sum>e\<leftarrow>es. sint (ge_amount e))"
proof -
  have e: "solvent Map.empty" "isum Map.empty = 0" by (simp_all add: solvent_def isum_def)
  have a: "accounts (init_genesis es (new_state_keeper None)) = genesis_accounts es Map.empty"
    by (simp add: init_genesis_def new_state_keeper_def load_def)
  have g: "solvent (genesis_accounts es Map.empty)
    \<and> isum (genesis_accounts es Map.empty) \<le> (\<Sum>e\<leftarrow>es. sint (ge_amount e))"
    using solvent_genesis [OF e(1) assms(1)] assms(2) e(2) by simp
  show ?thesis
    using solvent_fold [of "init_genesis es (new_state_keeper None)" ops V] g assms(3)
    by (auto simp: a Let_def get_balance_bal solvent_def)
qed

theorem positive_transfers_never_overdraw_witness:
  "let sk = fold (state_step (\<lambda>_ _ _ _. True))
              [Unsigned ''nuvex1alicealice'' ''nuvex1bobbobbobb'' 1000 10 1 ''t'']
              (init_genesis [\<lparr>ge_address = ''nuvex1alicealice'', ge_amount = 5000, ge_public_key = ''''\<rparr>]
                 (new_state_keeper None)) in
     (\<forall>a. 0 \<le> sint (get_balance a sk)) \<and> isum (accounts sk) \<le> 5000"
proof -
  let ?es = "[\<lparr>ge_address = ''nuvex1alicealice'', ge_amount = 5000, ge_public_key = ''''\<rparr>]"
  let ?ops = "[Unsigned ''nuvex1alicealice'' ''nuvex1bobbobbobb'' 1000 10 1 ''t'']"
  have "\<forall>op\<in>set ?ops. op_positive op" by (simp add: op_positive_def)
  then show ?thesis
    using positive_transfers_never_overdraw [of ?es ?ops "\<lambda>_ _ _ _. True"] by (simp add: Let_def)
qed

text \<open>
  C11: replay protection. From genesis, after any run, the transactions an address has sent carry
  the nonces 1, 2, 3, ... in order, and the account's nonce is their number (modulo \<open>2^64\<close>): every
  executed transfer uses up its nonce.
\<close>

theorem nonces_are_consecutive:
  "let sk = fold (state_step V) ops (init_genesis es (new_state_keeper None)) in
     map tx_nonce (filter (\<lambda>tx. tx_from tx = a) (txs sk))
       = map word_of_nat [1..<Suc (length (filter (\<lambda>tx. tx_from tx = a) (txs sk)))]
     \<and> nonce (accounts sk) a = word_of_nat (length (filter (\<lambda>tx. tx_from tx = a) (txs sk)))"
proof -
  have n0: "nonce (genesis_accounts es m) a = 0" if "\<forall>b. nonce m b = 0" for m a
    using that
  proof (induction es arbitrary: m)
    case (Cons e es)
    then show ?case by (auto simp: nonce_def)
  qed simp
  have "nonce_inv (\<lambda>_. 0) (init_genesis es (new_state_keeper None))"
    by (simp add: nonce_inv_def sent_nonces_def nonces_from_def init_genesis_def
        new_state_keeper_def load_def n0 nonce_def [of Map.empty])
  from state_fold_nonce_inv [OF this, of V ops] have
    i: "nonce_inv (\<lambda>_. 0) (fold (state_step V) ops (init_genesis es (new_state_keeper None)))" .
  have "nonces_from 0 k = map word_of_nat [1..<Suc k]" for k
    by (simp add: nonces_from_def map_Suc_upt [symmetric] del: upt_Suc)
  then show ?thesis
    using i by (simp add: nonce_inv_def sent_nonces_def Let_def)
qed

text \<open>
  C7: authorisation. A signed transfer succeeds only if the public key hashes to the sender's
  address and the signature verifies, under that key, for exactly the text
  \<open>from:to:amount:fee:nonce:nuvex-1\<close> with the sender's next nonce. The sender's address then
  contains no colon, so a signature that is accepted for this request is a signature on a text that
  no other request of such a sender has.
\<close>

theorem signed_transfer_authorised:
  assumes "fst (signed_transfer V from to amount fee h pk sg now sk) = Ok tx"
  shows "\<exists>acc pub sb. accounts sk from = Some acc \<and> hex_decode pk = Some pub \<and> hex_decode sg = Some sb
     \<and> from = address_of_pubkey_bytes pub
     \<and> (let p = \<lparr>pl_from = from, pl_to = to, pl_amount = amount, pl_fee = fee,
                 pl_nonce = acc_nonce acc + 1\<rparr> in
          V (big_of_bytes (take 32 pub), big_of_bytes (drop 32 pub))
            (sha256 (bytes_of (payload_string p)))
            (big_of_bytes (take 32 sb)) (big_of_bytes (drop 32 sb))
          \<and> (\<forall>q. CHR '':'' \<notin> set (pl_from q) \<longrightarrow> payload_string q = payload_string p \<longrightarrow> q = p))"
proof -
  obtain acc where acc: "accounts sk from = Some acc"
    and v: "verify_signature V pk \<lparr>pl_from = from, pl_to = to, pl_amount = amount, pl_fee = fee,
                             pl_nonce = acc_nonce acc + 1\<rparr> sg = Ok ()"
    and d: "address_from_public_key pk = Ok from"
    using signed_transfer_ok [OF assms] by blast
  obtain pub where pub: "hex_decode pk = Some pub" "from = address_of_pubkey_bytes pub"
    using d by (auto simp: address_from_public_key_def split: option.splits)
  then show ?thesis
    using acc v address_no_colon [of pub]
    by (auto simp: verify_signature_ok hash_payload_def Let_def payload_string_inject)
qed

theorem signed_transfer_authorised_witness:
  "\<exists>pub. hex_decode (hex_encode demo_pub) = Some pub \<and> demo_addr = address_of_pubkey_bytes pub"
proof -
  have "\<not> (5000 :: i64) <s 100 + 10" by (simp add: word_sless_alt)
  then obtain tx where "fst (signed_transfer (\<lambda>_ _ _ _. True) demo_addr ''nuvex1victimvictim'' 100 10 1
           (hex_encode demo_pub) (hex_encode demo_pub) ''t'' (demo_state 5000)) = Ok tx"
    using demo_signed_transfer by blast
  from signed_transfer_authorised [OF this] show ?thesis by blast
qed

text \<open>
  A flaw. The amount is not checked to be positive: with a valid signature of its own, a
  sender can pass a negative amount, and the transfer moves that much from the receiver to the
  sender (who pays the fee), even past the receiver's whole balance.
\<close>

theorem negative_amount_takes_from_receiver:
  assumes "fst (signed_transfer V from to amount fee h pk sg now sk) = Ok tx"
    and "from \<noteq> to" "sint amount < 0" "0 \<le> sint fee"
    and "sint (get_balance from sk) - sint amount - sint fee < 2 ^ 63"
    and "- (2 ^ 63) \<le> sint (get_balance to sk) + sint amount"
  shows "let sk' = snd (signed_transfer V from to amount fee h pk sg now sk) in
     sint (get_balance from sk') = sint (get_balance from sk) + \<bar>sint amount\<bar> - sint fee
     \<and> sint (get_balance to sk') = sint (get_balance to sk) - \<bar>sint amount\<bar>"
proof -
  let ?sk' = "snd (signed_transfer V from to amount fee h pk sg now sk)"
  obtain acc where acc: "accounts sk from = Some acc"
    and enough: "\<not> acc_balance acc <s amount + fee"
    and s: "?sk' = save (sk\<lparr>accounts := move_funds from to amount (amount + fee) (accounts sk),
                    txs := txs sk @ [tx]\<rparr>)"
    using signed_transfer_ok [OF assms(1)] by blast
  have m: "from \<in> dom (accounts sk)" using acc by auto
  have d: "sint (amount + fee) = sint amount + sint fee"
    using assms(3,4) sint64_bounds [of amount] sint64_bounds [of fee] by (simp add: sint64_add)
  have e: "sint (amount + fee) \<le> sint (get_balance from sk)"
    using enough acc by (simp add: get_balance_def word_sless_alt)
  have b: "get_balance from ?sk' = get_balance from sk - (amount + fee)"
    "get_balance to ?sk' = get_balance to sk + amount"
    using assms(2) by (simp_all add: s get_balance_bal bal_move_funds [OF m])
  have "sint (get_balance from sk - (amount + fee)) = sint (get_balance from sk) - sint (amount + fee)"
    using assms(5) d e by (intro sint64_sub) simp_all
  moreover have "sint (get_balance to sk + amount) = sint (get_balance to sk) + sint amount"
    using assms(3,6) sint64_bounds [of "get_balance to sk"] by (intro sint64_add) simp_all
  ultimately show ?thesis
    using assms(3) by (simp add: b d Let_def)
qed

theorem negative_amount_takes_from_receiver_witness:
  "let sk' = snd (signed_transfer (\<lambda>_ _ _ _. True) demo_addr ''nuvex1victimvictim'' (- 900) 1 1
           (hex_encode demo_pub) (hex_encode demo_pub) ''t'' (demo_state 10)) in
     sint (get_balance demo_addr sk') = 909 \<and> sint (get_balance ''nuvex1victimvictim'' sk') = - 200"
proof -
  have "\<not> (10 :: i64) <s (- 900) + 1" by (simp add: word_sless_alt)
  then obtain tx where "fst (signed_transfer (\<lambda>_ _ _ _. True) demo_addr ''nuvex1victimvictim'' (- 900) 1 1
           (hex_encode demo_pub) (hex_encode demo_pub) ''t'' (demo_state 10)) = Ok tx"
    using demo_signed_transfer by blast
  from negative_amount_takes_from_receiver [OF this demo_addr_neq(1)] show ?thesis
    by (simp add: get_balance_def demo_accounts Let_def)
qed



end
