(* ===== verification/Nuvex_Mempool.thy ===== *)
theory Nuvex_Mempool
  imports Nuvex_Sha256 Nuvex_Float64
begin

text \<open>
  The mempool (\<open>x/nvx/keeper/mempool.go\<close>): pending transactions by hash, a separately kept
  size, submission, selection for a block by fee, statistics and expiry. Times are nanoseconds.
  Every method holds the pool's mutex, so it is one step; \<open>order\<close> arguments are the orders in
  which Go ranges over the map.
\<close>

section \<open>Data\<close>

definition max_mempool_size :: int where
  "max_mempool_size = 10000"

definition max_tx_per_block :: int where
  "max_tx_per_block = 1000"

definition tx_expiry :: rat where
  "tx_expiry = 3600"

record pending_tx =
  p_hash :: string
  p_from :: string
  p_to :: string
  p_amount :: i64
  p_fee :: i64
  p_nonce :: u64
  p_timestamp :: int
  p_priority :: i64
  p_status :: string

record mempool =
  pending :: "string \<rightharpoonup> pending_tx"
  pool_size :: int

record mempool_stats =
  st_size :: int
  st_max_size :: int
  st_min_fee :: i64
  st_max_fee :: i64
  st_avg_fee :: i64
  st_max_tx_block :: int

datatype mempool_error = PoolFull int | FeeTooLow

definition new_mempool :: mempool where
  "new_mempool = \<lparr>pending = Map.empty, pool_size = 0\<rparr>"

section \<open>Time\<close>

text \<open>\<open>Duration.Seconds\<close> is the \<open>float64\<close> sum of the whole seconds and
  the rest. A transaction has expired when that sum is above 3600.\<close>

definition duration_seconds :: "int \<Rightarrow> f64" where
  "duration_seconds d =
     fadd (f64_of_int (d sdiv 1000000000)) (fdiv (f64_of_int (d smod 1000000000)) (Fin 1000000000))"

definition expired :: "int \<Rightarrow> pending_tx \<Rightarrow> bool" where
  "expired now tx = flt (Fin tx_expiry) (duration_seconds (time_sub now (p_timestamp tx)))"

section \<open>Operations\<close>

text \<open>\<open>Submit\<close>: the clock is read twice, once for the hash and once for the timestamp.\<close>

definition submit ::
    "string \<Rightarrow> string \<Rightarrow> i64 \<Rightarrow> i64 \<Rightarrow> u64 \<Rightarrow> int \<Rightarrow> int \<Rightarrow> mempool
       \<Rightarrow> (mempool_error, pending_tx) res \<times> mempool" where
  "submit from to amount fee nonce nano now mp =
     (if pool_size mp \<ge> max_mempool_size then (Err (PoolFull (pool_size mp)), mp)
      else if fee <s 100 then (Err FeeTooLow, mp)
      else
        let h = ''0x'' @ sha_hex (from @ '':'' @ to @ '':'' @ show_i64 amount @ '':'' @ show_i64 fee
                  @ '':'' @ show_u64 nonce @ '':'' @ show_int nano);
            tx = \<lparr>p_hash = h, p_from = from, p_to = to, p_amount = amount, p_fee = fee,
                  p_nonce = nonce, p_timestamp = now, p_priority = fee, p_status = ''pending''\<rparr>
        in (Ok tx, mp\<lparr>pending := (pending mp)(h \<mapsto> tx), pool_size := pool_size mp + 1\<rparr>))"

definition confirm :: "pending_tx \<Rightarrow> pending_tx" where
  "confirm tx = tx\<lparr>p_status := ''confirmed''\<rparr>"

fun remove_all :: "pending_tx list \<Rightarrow> mempool \<Rightarrow> mempool" where
  "remove_all [] mp = mp"
| "remove_all (tx # ts) mp =
     remove_all ts (mp\<lparr>pending := (pending mp)(p_hash tx := None), pool_size := pool_size mp - 1\<rparr>)"

definition by_priority :: "pending_tx list \<Rightarrow> pending_tx list" where
  "by_priority = sort_desc (\<lambda>tx. sint (p_priority tx))"

text \<open>\<open>SelectForBlock\<close>: a negative limit makes the slice expression panic, before anything is
  removed.\<close>

definition select_for_block ::
    "int \<Rightarrow> string list \<Rightarrow> int \<Rightarrow> mempool \<Rightarrow> (unit, pending_tx list) res \<times> mempool" where
  "select_for_block max_txs0 order now mp =
     (let max_txs = (if max_txs0 > max_tx_per_block then max_tx_per_block else max_txs0);
          candidates = by_priority (filter (\<lambda>tx. \<not> expired now tx) (range_values order (pending mp)))
      in if int (length candidates) > max_txs \<and> max_txs < 0 then (Panic, mp)
         else let chosen = (if int (length candidates) > max_txs then take (nat max_txs) candidates
                            else candidates)
              in (Ok (map confirm chosen), remove_all chosen mp))"

definition get_pending :: "int \<Rightarrow> string list \<Rightarrow> mempool \<Rightarrow> pending_tx list" where
  "get_pending limit order mp =
     (let sorted_txs = by_priority (range_values order (pending mp))
      in if 0 < limit \<and> limit < int (length sorted_txs) then take (nat limit) sorted_txs
         else sorted_txs)"

definition mempool_size :: "mempool \<Rightarrow> int" where
  "mempool_size mp = pool_size mp"

text \<open>The loop of \<open>Stats\<close>: running sum, and minimum and maximum seeded by the first entry.\<close>

fun fee_stats :: "pending_tx list \<Rightarrow> i64 \<times> i64 \<times> i64 \<times> bool \<Rightarrow> i64 \<times> i64 \<times> i64 \<times> bool" where
  "fee_stats [] acc = acc"
| "fee_stats (tx # ts) (tot, min_f, max_f, first) =
     fee_stats ts
       (if first then (tot + p_fee tx, p_fee tx, p_fee tx, False)
        else (tot + p_fee tx, if p_fee tx <s min_f then p_fee tx else min_f,
              if max_f <s p_fee tx then p_fee tx else max_f, False))"

definition mempool_stats_of :: "string list \<Rightarrow> mempool \<Rightarrow> mempool_stats" where
  "mempool_stats_of order mp =
     (let stats = \<lparr>st_size = pool_size mp, st_max_size = max_mempool_size, st_min_fee = 100,
                   st_max_fee = 0, st_avg_fee = 0, st_max_tx_block = max_tx_per_block\<rparr>
      in if pool_size mp = 0 then stats
         else let (tot, min_f, max_f, _) =
                    fee_stats (range_values order (pending mp)) (0, 0, 0, True)
              in stats\<lparr>st_min_fee := min_f, st_max_fee := max_f,
                       st_avg_fee := quot64 tot (word_of_int (pool_size mp))\<rparr>)"

text \<open>One tick of \<open>cleanupRoutine\<close>.\<close>

definition cleanup :: "string list \<Rightarrow> int \<Rightarrow> mempool \<Rightarrow> mempool" where
  "cleanup order now mp =
     fold (\<lambda>h m. case pending m h of
                    None \<Rightarrow> m
                  | Some tx \<Rightarrow>
                      if expired now tx
                      then m\<lparr>pending := (pending m)(h := None), pool_size := pool_size m - 1\<rparr>
                      else m) order mp"

section \<open>Expiry is exact\<close>

lemma sdiv_smod_bounds:
  fixes d :: int
  assumes "- (2 ^ 63) \<le> d" "d \<le> 2 ^ 63"
  shows "\<bar>d sdiv 1000000000\<bar> \<le> 2 ^ 53" "\<bar>d smod 1000000000\<bar> < 1000000000"
proof -
  have "\<bar>d\<bar> div 1000000000 \<le> 2 ^ 63 div 1000000000" using assms by (intro zdiv_mono1) auto
  moreover have "0 \<le> \<bar>d\<bar> div 1000000000" by (simp add: pos_imp_zdiv_nonneg_iff)
  ultimately show "\<bar>d sdiv 1000000000\<bar> \<le> 2 ^ 53"
    by (cases "0 \<le> d") (simp_all add: sdiv_smod_pos sdiv_smod_neg)
  show "\<bar>d smod 1000000000\<bar> < 1000000000"
    by (cases "0 \<le> d") (simp_all add: sdiv_smod_pos sdiv_smod_neg)
qed

lemma duration_seconds_Fin:
  assumes "- (2 ^ 63) \<le> d" "d \<le> 2 ^ 63"
  shows "duration_seconds d
     = Fin (rnd (of_int (d sdiv 1000000000) + rnd (of_int (d smod 1000000000) / 1000000000)))"
proof -
  let ?s = "d sdiv 1000000000" and ?n = "d smod 1000000000"
  note b = sdiv_smod_bounds [OF assms]
  have n: "\<bar>of_int ?n / 1000000000 :: rat\<bar> \<le> 1"
  proof -
    have "\<bar>of_int ?n :: rat\<bar> \<le> of_int 1000000000"
      using b(2) by (simp only: of_int_abs [symmetric] of_int_le_iff)
    then show ?thesis by simp
  qed
  then have r: "\<bar>rnd (of_int ?n / 1000000000)\<bar> \<le> 1"
    using rnd_mono [of "of_int ?n / 1000000000" 1] rnd_mono [of "- 1" "of_int ?n / 1000000000"]
    by (auto simp: rnd_minus abs_le_iff)
  have "\<bar>of_int ?s :: rat\<bar> \<le> of_int (2 ^ 53)"
    using b(1) by (simp only: of_int_abs [symmetric] of_int_le_iff)
  then have "\<bar>of_int ?s + rnd (of_int ?n / 1000000000)\<bar> \<le> 2 ^ 64"
    using r by (simp add: abs_le_iff)
  then show ?thesis
    using n b by (simp add: duration_seconds_def f64_of_int_exact mk_small)
qed

lemma rnd_above_3600: "3600 + 1 / 1000000000 \<le> x \<Longrightarrow> 3600 < rnd (3600 + rnd (x - 3600))"
proof -
  assume x: "3600 + 1 / 1000000000 \<le> x"
  have p: "pow2 (-30) = 1 / 1073741824" by (simp add: pow2_def power_int_def power_one_over)
  have e: "rnd (pow2 (-30)) = pow2 (-30)"
    using rnd_representable [OF representable_of_int [of 1 "-30"]] by simp
  have "pow2 (-30) \<le> rnd (x - 3600)"
    using rnd_mono [of "pow2 (-30)" "x - 3600"] x unfolding e by (simp add: p)
  then have "rnd (3600 + pow2 (-30)) \<le> rnd (3600 + rnd (x - 3600))" by (intro rnd_mono) simp
  moreover have "3600 + pow2 (-30) = of_int 3865470566401 * pow2 (-30)" by (simp add: p)
  moreover have "rnd (of_int 3865470566401 * pow2 (-30)) = of_int 3865470566401 * pow2 (-30)"
    by (rule rnd_representable, rule representable_of_int) simp_all
  ultimately show ?thesis by (simp add: p)
qed

lemma duration_above_hour:
  assumes "- (2 ^ 63) \<le> d" "d \<le> 2 ^ 63"
  shows "flt (Fin 3600) (duration_seconds d) \<longleftrightarrow> 3600000000000 < d"
proof -
  let ?s = "d sdiv 1000000000" and ?n = "d smod 1000000000"
  let ?f = "rnd (of_int ?n / 1000000000)"
  have d: "d = 1000000000 * ?s + ?n" by (rule sdiv_smod_split) simp
  have b: "\<bar>?n\<bar> < 1000000000" by (rule sdiv_smod_bounds(2) [OF assms])
  have r36: "rnd 3600 = 3600" by (rule rnd_numeral) simp
  have "3600 < rnd (of_int ?s + ?f) \<longleftrightarrow> 3600000000000 < d"
  proof (cases "3600000000000 < d")
    case True
    then have s: "3600 \<le> ?s" and n: "0 \<le> ?n" by (simp_all add: sdiv_smod_pos)
    have f0: "0 \<le> ?f" using n by (intro rnd_nonneg) simp
    show ?thesis
    proof (cases "?s = 3600")
      case s3600: True
      then have "1 \<le> ?n" using d True by linarith
      then have "3600 < rnd (3600 + rnd ((3600 + of_int ?n / 1000000000) - 3600))"
        by (intro rnd_above_3600) (simp add: divide_right_mono)
      with True s3600 show ?thesis by simp
    next
      case False
      then have "(of_int 3601 :: rat) \<le> of_int ?s" using s by (simp only: of_int_le_iff)
      then have "rnd 3601 \<le> rnd (of_int ?s + ?f)" using f0 by (intro rnd_mono) simp
      moreover have "rnd 3601 = 3601" by (rule rnd_numeral) simp
      ultimately show ?thesis using True by simp
    qed
  next
    case False
    have "of_int ?s + ?f \<le> (3600 :: rat)"
    proof (cases "?s < 3600")
      case True
      then have "(of_int ?s :: rat) \<le> of_int 3599" by (simp only: of_int_le_iff)
      moreover have "(of_int ?n :: rat) \<le> of_int 1000000000"
        using b by (simp only: of_int_le_iff)
      then have "?f \<le> 1" using rnd_mono [of "of_int ?n / 1000000000" 1] by simp
      ultimately show ?thesis by simp
    next
      case s: False
      then have "0 \<le> d" using d b by linarith
      then have n: "0 \<le> ?n" by (simp add: sdiv_smod_pos)
      then have "?s = 3600" "?n = 0" using False s d by linarith+
      then show ?thesis by simp
    qed
    then have "rnd (of_int ?s + ?f) \<le> 3600" using rnd_mono [of _ 3600] by (simp add: r36)
    with False show ?thesis by simp
  qed
  then show ?thesis by (auto simp: duration_seconds_Fin [OF assms] flt_def)
qed

text \<open>The float comparison decides expiry at the nanosecond.\<close>

lemma expired_iff: "expired now tx \<longleftrightarrow> 3600000000000 < now - p_timestamp tx"
proof -
  have "expired now tx \<longleftrightarrow> 3600000000000 < time_sub now (p_timestamp tx)"
    unfolding expired_def tx_expiry_def
    by (rule duration_above_hour) (auto simp: time_sub_def)
  also have "\<dots> \<longleftrightarrow> 3600000000000 < now - p_timestamp tx"
    by (auto simp: time_sub_def)
  finally show ?thesis .
qed

section \<open>Invariant\<close>

text \<open>Entries are filed under their hash, carry an admissible fee as their priority, and the
  separate size never falls below the number of entries nor above the limit.\<close>

definition entry_ok :: "string \<Rightarrow> pending_tx \<Rightarrow> bool" where
  "entry_ok h tx \<longleftrightarrow> p_hash tx = h \<and> p_priority tx = p_fee tx \<and> 100 \<le> sint (p_fee tx)
     \<and> p_status tx = ''pending''"

definition mempool_wf :: "mempool \<Rightarrow> bool" where
  "mempool_wf mp \<longleftrightarrow> finite (dom (pending mp))
     \<and> (\<forall>h tx. pending mp h = Some tx \<longrightarrow> entry_ok h tx)
     \<and> int (card (dom (pending mp))) \<le> pool_size mp \<and> pool_size mp \<le> 10000"

definition eligible :: "int \<Rightarrow> mempool \<Rightarrow> pending_tx set" where
  "eligible now mp = {tx \<in> ran (pending mp). now - p_timestamp tx \<le> 3600000000000}"

lemma mempool_wfD:
  assumes "mempool_wf mp"
  shows "finite (dom (pending mp))" "pending mp h = Some tx \<Longrightarrow> entry_ok h tx"
    "int (card (dom (pending mp))) \<le> pool_size mp" "pool_size mp \<le> 10000"
  using assms by (simp_all add: mempool_wf_def)

lemma mempool_wf_new: "mempool_wf new_mempool"
  by (simp add: mempool_wf_def new_mempool_def)

lemma submit_cases:
  obtains (full) "pool_size mp \<ge> 10000"
      "submit from to amount fee n nano now mp = (Err (PoolFull (pool_size mp)), mp)"
  | (low) "pool_size mp < 10000" "sint fee < 100"
      "submit from to amount fee n nano now mp = (Err FeeTooLow, mp)"
  | (admitted) tx where "pool_size mp < 10000" "100 \<le> sint fee"
      "tx = \<lparr>p_hash = ''0x'' @ sha_hex (from @ '':'' @ to @ '':'' @ show_i64 amount @ '':''
              @ show_i64 fee @ '':'' @ show_u64 n @ '':'' @ show_int nano), p_from = from, p_to = to,
             p_amount = amount, p_fee = fee, p_nonce = n, p_timestamp = now, p_priority = fee,
             p_status = ''pending''\<rparr>"
      "submit from to amount fee n nano now mp
         = (Ok tx, mp\<lparr>pending := (pending mp)(p_hash tx \<mapsto> tx), pool_size := pool_size mp + 1\<rparr>)"
proof (cases "pool_size mp \<ge> 10000")
  case True
  then show ?thesis by (intro full) (simp_all add: submit_def max_mempool_size_def)
next
  case False
  show ?thesis
  proof (cases "sint fee < 100")
    case True
    with False show ?thesis
      by (intro low) (simp_all add: submit_def max_mempool_size_def word_sless_alt)
  next
    case high: False
    with False show ?thesis
      by (intro admitted [OF _ _ refl]) (simp_all add: submit_def max_mempool_size_def word_sless_alt Let_def)
  qed
qed

lemma mempool_wf_submit: "mempool_wf mp \<Longrightarrow> mempool_wf (snd (submit from to amount fee n nano now mp))"
proof (cases rule: submit_cases [of mp "from" to amount fee n nano now])
  case (admitted tx)
  assume wf: "mempool_wf mp"
  have "card (insert (p_hash tx) (dom (pending mp))) \<le> Suc (card (dom (pending mp)))"
    by (rule card_insert_le_m1) simp_all
  moreover have "entry_ok (p_hash tx) tx" using admitted by (simp add: entry_ok_def)
  ultimately show ?thesis
    using mempool_wfD [OF wf] admitted(1,4) by (auto simp: mempool_wf_def)
qed simp_all

text \<open>Removing a list of entries, one by one.\<close>

lemma pending_remove_all: "pending (remove_all ts mp) = pending mp |` (- p_hash ` set ts)"
  by (induction ts arbitrary: mp) (auto simp: restrict_map_def fun_eq_iff)

lemma pool_size_remove_all: "pool_size (remove_all ts mp) = pool_size mp - int (length ts)"
  by (induction ts arbitrary: mp) auto

lemma mempool_wf_removed:
  assumes "mempool_wf mp" "H \<subseteq> dom (pending mp)"
    "pending mp' = pending mp |` (- H)" "pool_size mp' = pool_size mp - int (card H)"
  shows "mempool_wf mp'"
proof -
  note wf = mempool_wfD [OF assms(1)]
  have dom: "dom (pending mp') = dom (pending mp) - H" using assms(3) by (auto simp: dom_restrict)
  then have fin: "finite (dom (pending mp'))" using wf(1) by simp
  from dom have "card (dom (pending mp')) = card (dom (pending mp)) - card H"
    using wf(1) assms(2) by (simp add: card_Diff_subset finite_subset)
  moreover have "card H \<le> card (dom (pending mp))" using wf(1) assms(2) by (rule card_mono)
  moreover have "entry_ok h tx" if "pending mp' h = Some tx" for h tx
    using that wf(2) assms(3) by (auto simp: restrict_map_def split: if_splits)
  ultimately show ?thesis using fin wf(3,4) assms(4) by (simp add: mempool_wf_def)
qed

lemma range_values_distinct:
  assumes "mempool_wf mp" "enumerates order (pending mp)"
  shows "distinct (map p_hash (range_values order (pending mp)))"
proof -
  have "map p_hash (range_values order (pending mp)) = order"
    unfolding range_values_def map_map
    by (rule map_idI) (use assms in \<open>auto simp: mempool_wf_def enumerates_def entry_ok_def\<close>)
  then show ?thesis using assms by (simp add: enumerates_def)
qed

section \<open>Selection\<close>

definition candidates :: "string list \<Rightarrow> int \<Rightarrow> mempool \<Rightarrow> pending_tx list" where
  "candidates order now mp =
     by_priority (filter (\<lambda>tx. \<not> expired now tx) (range_values order (pending mp)))"

lemma select_for_block_eq:
  assumes "0 \<le> n"
  shows "select_for_block n order now mp =
    (let chosen = take (nat (min n 1000)) (candidates order now mp)
     in (Ok (map confirm chosen), remove_all chosen mp))"
proof -
  let ?m = "if n > 1000 then 1000 else n"
  have m: "?m = min n 1000" by simp
  show ?thesis
    using assms unfolding select_for_block_def candidates_def [symmetric] max_tx_per_block_def Let_def m
    by (cases "int (length (candidates order now mp)) > min n 1000") auto
qed

lemma candidates_set:
  "enumerates order (pending mp) \<Longrightarrow> set (candidates order now mp) = eligible now mp"
  by (auto simp: candidates_def by_priority_def eligible_def set_range_values expired_iff)

lemma candidates_distinct:
  assumes "mempool_wf mp" "enumerates order (pending mp)"
  shows "distinct (map p_hash (candidates order now mp))"
proof -
  have "distinct (map p_hash (filter (\<lambda>tx. \<not> expired now tx) (range_values order (pending mp))))"
    by (rule distinct_map_filter) (rule range_values_distinct [OF assms])
  then have "distinct (map p_hash (candidates order now mp)) \<longleftrightarrow> True"
    unfolding candidates_def by_priority_def distinct_map by simp
  then show ?thesis by simp
qed

lemma candidates_sorted:
  "sorted_wrt (\<lambda>a b. sint (p_priority a) \<ge> sint (p_priority b)) (candidates order now mp)"
  unfolding candidates_def by_priority_def by (rule sorted_sort_desc)

lemma candidates_subset: "set (candidates order now mp) \<subseteq> set (range_values order (pending mp))"
  by (auto simp: candidates_def by_priority_def)

lemma take_candidates_hashes:
  fixes now :: int and k :: nat
  assumes "mempool_wf mp" "enumerates order (pending mp)"
  defines "chosen \<equiv> take k (candidates order now mp)"
  shows "p_hash ` set chosen \<subseteq> dom (pending mp)" "card (p_hash ` set chosen) = length chosen"
proof -
  have "set chosen \<subseteq> ran (pending mp)"
    using candidates_subset set_range_values [OF assms(2)] set_take_subset
    unfolding chosen_def by (metis subset_trans)
  then show "p_hash ` set chosen \<subseteq> dom (pending mp)"
    using mempool_wfD(2) [OF assms(1)] by (fastforce simp: ran_def entry_ok_def)
  have "distinct (map p_hash chosen)"
    using candidates_distinct [OF assms(1,2)] unfolding chosen_def take_map [symmetric]
    by (rule distinct_take)
  then show "card (p_hash ` set chosen) = length chosen"
    by (metis distinct_card length_map set_map)
qed

lemma mempool_wf_select:
  assumes "mempool_wf mp" "enumerates order (pending mp)"
  shows "mempool_wf (snd (select_for_block n order now mp))"
proof (cases "0 \<le> n")
  case True
  let ?chosen = "take (nat (min n 1000)) (candidates order now mp)"
  note h = take_candidates_hashes [OF assms, of "nat (min n 1000)" now]
  have "mempool_wf (remove_all ?chosen mp)"
    by (rule mempool_wf_removed [OF assms(1) h(1) pending_remove_all]) (simp only: pool_size_remove_all h(2))
  then show ?thesis by (simp add: select_for_block_eq [OF True] Let_def)
next
  case False
  with assms show ?thesis by (auto simp: select_for_block_def max_tx_per_block_def Let_def)
qed

section \<open>Expiry\<close>

definition sweep :: "int \<Rightarrow> string \<Rightarrow> mempool \<Rightarrow> mempool" where
  "sweep now h m = (case pending m h of
                    None \<Rightarrow> m
                  | Some tx \<Rightarrow>
                      if expired now tx
                      then m\<lparr>pending := (pending m)(h := None), pool_size := pool_size m - 1\<rparr>
                      else m)"

definition expired_keys :: "int \<Rightarrow> mempool \<Rightarrow> string set" where
  "expired_keys now mp = {h. \<exists>tx. pending mp h = Some tx \<and> 3600000000000 < now - p_timestamp tx}"

lemma cleanup_fold: "cleanup order now mp = fold (sweep now) order mp"
  unfolding cleanup_def sweep_def ..

lemma fold_sweep:
  assumes "distinct hs"
  shows "pending (fold (sweep now) hs mp) = pending mp |` (- (set hs \<inter> expired_keys now mp))
    \<and> pool_size (fold (sweep now) hs mp) = pool_size mp - int (card (set hs \<inter> expired_keys now mp))"
  using assms
proof (induction hs arbitrary: mp)
  case (Cons h hs)
  show ?case
  proof (cases "h \<in> expired_keys now mp")
    case True
    then obtain tx where tx: "pending mp h = Some tx" "expired now tx"
      by (auto simp: expired_keys_def expired_iff)
    let ?m = "sweep now h mp"
    have m: "pending ?m = (pending mp)(h := None)" "pool_size ?m = pool_size mp - 1"
      using tx by (simp_all add: sweep_def)
    have k: "set hs \<inter> expired_keys now ?m = set hs \<inter> expired_keys now mp"
      using Cons.prems m(1) by (auto simp: expired_keys_def)
    have "set (h # hs) \<inter> expired_keys now mp = insert h (set hs \<inter> expired_keys now mp)"
      using True by auto
    then show ?thesis
      using Cons.IH [of ?m] Cons.prems m k
      by (auto simp: restrict_map_def fun_eq_iff)
  next
    case False
    then have m: "sweep now h mp = mp"
      by (auto simp: expired_keys_def expired_iff sweep_def split: option.splits)
    have "set (h # hs) \<inter> expired_keys now mp = set hs \<inter> expired_keys now mp" using False by auto
    then show ?thesis using Cons.IH [of mp] Cons.prems m by simp
  qed
qed (simp add: restrict_map_def)

lemma cleanup_eq:
  assumes "enumerates order (pending mp)"
  shows "pending (cleanup order now mp) = pending mp |` (- expired_keys now mp)"
    "pool_size (cleanup order now mp) = pool_size mp - int (card (expired_keys now mp))"
proof -
  have "set order \<inter> expired_keys now mp = expired_keys now mp"
    using assms by (auto simp: enumerates_def expired_keys_def)
  moreover have "distinct order" using assms by (simp add: enumerates_def)
  ultimately show "pending (cleanup order now mp) = pending mp |` (- expired_keys now mp)"
    "pool_size (cleanup order now mp) = pool_size mp - int (card (expired_keys now mp))"
    using fold_sweep [of order now mp] by (simp_all add: cleanup_fold)
qed

lemma mempool_wf_cleanup:
  assumes "mempool_wf mp" "enumerates order (pending mp)"
  shows "mempool_wf (cleanup order now mp)"
  by (rule mempool_wf_removed [OF assms(1) _ cleanup_eq [OF assms(2)]])
    (auto simp: expired_keys_def)

section \<open>Reachable pools\<close>

text \<open>The calls that change the pool, with the order each one ranges over the map.\<close>

datatype pool_call =
    Submit string string i64 i64 u64 int int
  | Select int "string list" int
  | Sweep "string list" int

fun pool_exec :: "pool_call \<Rightarrow> mempool \<Rightarrow> mempool" where
  "pool_exec (Submit from to amount fee n nano now) mp = snd (submit from to amount fee n nano now mp)"
| "pool_exec (Select n order now) mp = snd (select_for_block n order now mp)"
| "pool_exec (Sweep order now) mp = cleanup order now mp"

fun ranges_over :: "pool_call \<Rightarrow> mempool \<Rightarrow> bool" where
  "ranges_over (Submit from to amount fee n nano now) mp = True"
| "ranges_over (Select n order now) mp = enumerates order (pending mp)"
| "ranges_over (Sweep order now) mp = enumerates order (pending mp)"

inductive pool_reachable :: "mempool \<Rightarrow> bool" where
  pool_init: "pool_reachable new_mempool"
| pool_call: "pool_reachable mp \<Longrightarrow> ranges_over c mp \<Longrightarrow> pool_reachable (pool_exec c mp)"

lemma mempool_wf_exec: "mempool_wf mp \<Longrightarrow> ranges_over c mp \<Longrightarrow> mempool_wf (pool_exec c mp)"
  by (cases c) (auto intro: mempool_wf_submit mempool_wf_select mempool_wf_cleanup)

lemma mempool_wf_reachable: "pool_reachable mp \<Longrightarrow> mempool_wf mp"
  by (induction rule: pool_reachable.induct) (auto intro: mempool_wf_new mempool_wf_exec)

text \<open>A small pool with one expired entry.\<close>

definition demo_tx :: "string \<Rightarrow> i64 \<Rightarrow> int \<Rightarrow> pending_tx" where
  "demo_tx h fee t = \<lparr>p_hash = h, p_from = ''alice'', p_to = ''bob'', p_amount = 5, p_fee = fee,
     p_nonce = 1, p_timestamp = t, p_priority = fee, p_status = ''pending''\<rparr>"

definition demo_pool :: mempool where
  "demo_pool = \<lparr>pending = [''a'' \<mapsto> demo_tx ''a'' 100 5000000000000, ''b'' \<mapsto> demo_tx ''b'' 400 5000000000000,
     ''c'' \<mapsto> demo_tx ''c'' 900 0], pool_size = 3\<rparr>"

lemma demo_pool_wf: "mempool_wf demo_pool" "enumerates [''a'', ''b'', ''c''] (pending demo_pool)"
  by (auto simp: demo_pool_def mempool_wf_def demo_tx_def entry_ok_def enumerates_def split: if_splits)

text \<open>
  C14: A pool that the node can reach never holds more than 10,000 entries, each filed under its
  own hash with a fee of at least 100 unvx as its priority, and its size field is never below
  the number of entries nor above the limit.
\<close>
theorem mempool_bounded:
  assumes "pool_reachable mp"
  shows "finite (dom (pending mp)) \<and> int (card (dom (pending mp))) \<le> mempool_size mp
    \<and> mempool_size mp \<le> max_mempool_size
    \<and> (\<forall>tx\<in>ran (pending mp). pending mp (p_hash tx) = Some tx \<and> 100 \<le> sint (p_fee tx)
        \<and> p_priority tx = p_fee tx)"
  using mempool_wf_reachable [OF assms]
  by (auto simp: mempool_wf_def mempool_size_def max_mempool_size_def entry_ok_def ran_def)

theorem mempool_bounded_witness:
  "let mp = snd (submit ''alice'' ''bob'' 5 250 1 7 9 new_mempool)
   in int (card (dom (pending mp))) \<le> mempool_size mp \<and> mempool_size mp = 1"
proof -
  let ?c = "Submit ''alice'' ''bob'' 5 250 1 7 9"
  have "pool_reachable (pool_exec ?c new_mempool)"
    by (rule pool_call [OF pool_init]) simp
  then show ?thesis using mempool_bounded [of "pool_exec ?c new_mempool"]
    by (simp add: Let_def mempool_size_def submit_def new_mempool_def max_mempool_size_def)
qed

text \<open>
  C13: \<open>SelectForBlock\<close> with a non-negative limit returns the highest-paying transactions that have
  not expired, at most 1,000 and at most the limit, in descending order of fee; it takes as many
  as there are, no transaction left behind pays more than one taken, and exactly the taken
  ones leave the pool.
\<close>
theorem selection_takes_best_payers:
  assumes "mempool_wf mp" "enumerates order (pending mp)" "0 \<le> n"
  shows "\<exists>chosen mp'. select_for_block n order now mp = (Ok (map confirm chosen), mp')
    \<and> distinct (map p_hash chosen) \<and> set chosen \<subseteq> eligible now mp
    \<and> length chosen = min (nat (min n 1000)) (card (eligible now mp))
    \<and> sorted_wrt (\<lambda>a b. sint (p_fee a) \<ge> sint (p_fee b)) chosen
    \<and> (\<forall>a\<in>set chosen. \<forall>b\<in>eligible now mp - set chosen. sint (p_fee b) \<le> sint (p_fee a))
    \<and> pending mp' = pending mp |` (- p_hash ` set chosen)
    \<and> pool_size mp' = pool_size mp - int (length chosen)"
proof -
  let ?cs = "candidates order now mp" and ?k = "nat (min n 1000)"
  let ?chosen = "take ?k ?cs"
  have el: "set ?cs = eligible now mp" by (rule candidates_set [OF assms(2)])
  have d: "distinct (map p_hash ?cs)" by (rule candidates_distinct [OF assms(1,2)])
  then have len: "length ?cs = card (eligible now mp)"
    using el by (metis distinct_card distinct_map)
  have fee: "p_priority tx = p_fee tx" if "tx \<in> set ?cs" for tx
    using that mempool_wfD(2) [OF assms(1)] unfolding el eligible_def by (auto simp: ran_def entry_ok_def)
  have sorted: "sorted_wrt (\<lambda>a b. sint (p_fee a) \<ge> sint (p_fee b)) ?cs"
    by (rule sorted_wrt_mono_rel [OF _ candidates_sorted]) (simp add: fee)
  have "b \<in> set (drop ?k ?cs)" if "b \<in> eligible now mp - set ?chosen" for b
    using that unfolding el [symmetric] by (metis Diff_iff UnE append_take_drop_id set_append)
  then have best: "\<forall>a\<in>set ?chosen. \<forall>b\<in>eligible now mp - set ?chosen. sint (p_fee b) \<le> sint (p_fee a)"
    using sorted_wrt_take_drop [OF sorted] by blast
  show ?thesis
    unfolding select_for_block_eq [OF assms(3)] Let_def
    using d el len best sorted set_take_subset [of ?k ?cs]
    by (intro exI [of _ ?chosen] exI [of _ "remove_all ?chosen mp"])
      (auto simp: pending_remove_all pool_size_remove_all take_map [symmetric] sorted_wrt_take)
qed

theorem selection_takes_best_payers_witness:
  "\<exists>chosen mp'. select_for_block 1 [''a'', ''b'', ''c''] 5000000000001 demo_pool = (Ok (map confirm chosen), mp')
     \<and> length chosen = min 1 (card (eligible 5000000000001 demo_pool)) \<and> pool_size mp' = 3 - int (length chosen)"
  using selection_takes_best_payers [OF demo_pool_wf, of 1 5000000000001]
  by (auto simp: demo_pool_def)

text \<open>
  One tick of the cleanup routine removes exactly the transactions that are more than one hour
  old, to the nanosecond although the code compares floating-point seconds, and lowers the size
  by their number.
\<close>
theorem cleanup_removes_expired:
  assumes "enumerates order (pending mp)"
  shows "pending (cleanup order now mp)
      = (\<lambda>h. case pending mp h of None \<Rightarrow> None
              | Some tx \<Rightarrow> if now - p_timestamp tx \<le> 3600000000000 then Some tx else None)
    \<and> pool_size (cleanup order now mp)
      = pool_size mp - int (card {h. \<exists>tx. pending mp h = Some tx \<and> 3600000000000 < now - p_timestamp tx})"
  by (auto simp: cleanup_eq [OF assms] restrict_map_def expired_keys_def fun_eq_iff split: option.splits)

theorem cleanup_removes_expired_witness:
  "pending (cleanup [''a'', ''b'', ''c''] 5000000000001 demo_pool) ''c'' = None
   \<and> pending (cleanup [''a'', ''b'', ''c''] 5000000000001 demo_pool) ''a'' \<noteq> None"
  using cleanup_removes_expired [OF demo_pool_wf(2), of 5000000000001]
  by (simp add: demo_pool_def demo_tx_def)

text \<open>
  Two identical submissions in the same nanosecond share one hash: the map keeps one entry and
  the size counts two, and once the entry has expired the pool is empty but its size stays 1
  for good, one slot of the limit lost.
\<close>
theorem equal_submissions_leak_a_slot:
  "let put = \<lambda>mp. submit from to amount 100 n nano now mp;
       mp = snd (put (snd (put new_mempool)));
       h = ''0x'' @ sha_hex (from @ '':'' @ to @ '':'' @ show_i64 amount @ '':'' @ show_i64 100 @ '':''
             @ show_u64 n @ '':'' @ show_int nano);
       mp' = cleanup [h] (now + 3600000000001) mp
   in dom (pending mp) = {h} \<and> mempool_size mp = 2 \<and> pending mp' = Map.empty \<and> mempool_size mp' = 1"
  by (simp add: Let_def submit_def new_mempool_def max_mempool_size_def cleanup_def mempool_size_def
      expired_iff fun_upd_idem)

section \<open>Statistics\<close>

lemma sint_sum_list:
  assumes "\<forall>w\<in>set ws. 0 \<le> sint w" "(\<Sum>w\<leftarrow>ws. sint w) < 2 ^ 63"
  shows "sint (sum_list ws :: i64) = (\<Sum>w\<leftarrow>ws. sint w)"
  using assms
proof (induction ws)
  case (Cons w ws)
  have "0 \<le> (\<Sum>v\<leftarrow>ws. sint v)" using Cons.prems(1) by (intro sum_list_nonneg) auto
  moreover have "sint (sum_list ws) = (\<Sum>v\<leftarrow>ws. sint v)"
    using Cons by (intro Cons.IH) auto
  ultimately show ?case using Cons.prems by (simp add: sint64_add)
qed simp

definition low_word :: "i64 \<Rightarrow> i64 \<Rightarrow> i64" where
  "low_word a b = (if a <s b then a else b)"

definition high_word :: "i64 \<Rightarrow> i64 \<Rightarrow> i64" where
  "high_word a b = (if b <s a then a else b)"

lemma sint_low_high:
  "sint (low_word a b) = min (sint a) (sint b)" "sint (high_word a b) = max (sint a) (sint b)"
  by (simp_all add: low_word_def high_word_def word_sless_alt)

lemma fee_stats_run:
  "fee_stats ts (t, lo, hi, False)
     = (t + (\<Sum>tx\<leftarrow>ts. p_fee tx), fold low_word (map p_fee ts) lo, fold high_word (map p_fee ts) hi, False)"
  by (induction ts arbitrary: t lo hi) (simp_all add: low_word_def high_word_def)

lemma fold_low_word: "sint (fold low_word ws lo) = fold min (map sint ws) (sint lo)"
  by (induction ws arbitrary: lo) (simp_all add: sint_low_high)

lemma fold_high_word: "sint (fold high_word ws hi) = fold max (map sint ws) (sint hi)"
  by (induction ws arbitrary: hi) (simp_all add: sint_low_high)

lemma fee_stats_values:
  assumes "ts \<noteq> []" "fee_stats ts (0, 0, 0, True) = (t, lo, hi, b)"
  shows "t = (\<Sum>tx\<leftarrow>ts. p_fee tx)" "sint lo = Min (sint ` p_fee ` set ts)" "sint hi = Max (sint ` p_fee ` set ts)"
proof -
  obtain tx us where ts: "ts = tx # us" using assms(1) by (cases ts) auto
  have v: "t = p_fee tx + (\<Sum>x\<leftarrow>us. p_fee x)" "lo = fold low_word (map p_fee us) (p_fee tx)"
    "hi = fold high_word (map p_fee us) (p_fee tx)"
    using assms(2) unfolding ts by (auto simp: fee_stats_run)
  show "t = (\<Sum>tx\<leftarrow>ts. p_fee tx)" using v by (simp add: ts)
  have s: "sint ` p_fee ` set ts = set (sint (p_fee tx) # map sint (map p_fee us))"
    by (simp add: ts image_image)
  show "sint lo = Min (sint ` p_fee ` set ts)" "sint hi = Max (sint ` p_fee ` set ts)"
    unfolding v fold_low_word fold_high_word s Min.set_eq_fold Max.set_eq_fold by (rule refl)+
qed

lemma sum_list_bounds:
  assumes "\<forall>x\<in>set xs. l \<le> x \<and> x \<le> (u :: int)"
  shows "int (length xs) * l \<le> sum_list xs \<and> sum_list xs \<le> int (length xs) * u"
  using assms by (induction xs) (auto simp: algebra_simps)

text \<open>
  For a pool whose size field agrees with its map and whose fees add up to less than 2^63,
  \<open>Stats\<close> reports the exact minimum, maximum and truncated mean of the fees, whatever order
  the map is read in, and the mean lies between the other two.
\<close>
theorem mempool_stats_exact:
  assumes "mempool_wf mp" "enumerates order (pending mp)" "pending mp \<noteq> Map.empty"
    and "pool_size mp = int (card (dom (pending mp)))"
    and "(\<Sum>h\<in>dom (pending mp). sint (p_fee (the (pending mp h)))) < 2 ^ 63"
  shows "let st = mempool_stats_of order mp; fees = (\<lambda>tx. sint (p_fee tx)) ` ran (pending mp)
     in st_size st = mempool_size mp \<and> sint (st_min_fee st) = Min fees \<and> sint (st_max_fee st) = Max fees
      \<and> sint (st_avg_fee st) = (\<Sum>h\<in>dom (pending mp). sint (p_fee (the (pending mp h)))) div pool_size mp
      \<and> sint (st_min_fee st) \<le> sint (st_avg_fee st) \<and> sint (st_avg_fee st) \<le> sint (st_max_fee st)"
proof -
  note wf = mempool_wfD [OF assms(1)]
  let ?ts = "range_values order (pending mp)"
  let ?sum = "\<Sum>h\<in>dom (pending mp). sint (p_fee (the (pending mp h)))"
  have order: "distinct order" "set order = dom (pending mp)" "int (length order) = pool_size mp"
    using assms(2,4) enumerates_card [OF assms(2)] by (auto simp: enumerates_def)
  have pos: "0 < pool_size mp" using assms(3,4) wf(1) by (simp add: card_gt_0_iff dom_eq_empty_conv)
  then have ne: "?ts \<noteq> []" using order(3) by (auto simp: range_values_def)
  obtain t lo hi b where fs: "fee_stats ?ts (0, 0, 0, True) = (t, lo, hi, b)" by (metis prod_cases4)
  note v = fee_stats_values [OF ne fs]
  have ran: "set ?ts = ran (pending mp)" by (rule set_range_values [OF assms(2)])
  have fee: "100 \<le> sint (p_fee tx)" if "tx \<in> set ?ts" for tx
    using that wf(2) unfolding ran by (auto simp: ran_def entry_ok_def)
  have sum: "(\<Sum>w\<leftarrow>map p_fee ?ts. sint w) = ?sum"
    using order(1) by (simp add: range_values_def comp_def sum_list_distinct_conv_sum_set order(2))
  have t: "sint t = ?sum"
  proof -
    have "(\<Sum>w\<leftarrow>map p_fee ?ts. sint w) < 2 ^ 63" using assms(5) by (simp only: sum)
    moreover have "\<forall>w\<in>set (map p_fee ?ts). 0 \<le> sint w" using fee by fastforce
    ultimately show ?thesis unfolding v(1) sum [symmetric] by (intro sint_sum_list)
  qed
  have size: "sint (word_of_int (pool_size mp) :: i64) = pool_size mp"
    using pos wf(4) by (intro sint64_of_int) simp_all
  have "0 \<le> ?sum" unfolding sum [symmetric] using fee by (intro sum_list_nonneg) fastforce
  then have avg: "sint (quot64 t (word_of_int (pool_size mp))) = ?sum div pool_size mp"
    using pos by (simp add: sint64_quot size t)
  have fin: "finite (sint ` p_fee ` set ?ts)" by simp
  have "\<forall>x\<in>set (map sint (map p_fee ?ts)). sint lo \<le> x \<and> x \<le> sint hi"
    unfolding v using fin by (auto simp: image_image)
  from sum_list_bounds [OF this] have bounds: "pool_size mp * sint lo \<le> ?sum" "?sum \<le> pool_size mp * sint hi"
    unfolding sum [unfolded map_map] using order(3) by (simp_all add: sum [unfolded map_map comp_def] comp_def)
  have "sint lo \<le> ?sum div pool_size mp" "?sum div pool_size mp \<le> sint hi"
    using bounds pos zdiv_mono1 [OF bounds(1) pos] zdiv_mono1 [OF bounds(2) pos] by simp_all
  then show ?thesis
    using pos v avg by (simp add: mempool_stats_of_def fs Let_def mempool_size_def ran image_image)
qed

theorem mempool_stats_exact_witness:
  "let st = mempool_stats_of [''a'', ''b'', ''c''] demo_pool
   in sint (st_min_fee st) \<le> sint (st_avg_fee st) \<and> sint (st_avg_fee st) \<le> sint (st_max_fee st)"
proof -
  have "dom (pending demo_pool) = {''a'', ''b'', ''c''}" by (auto simp: demo_pool_def)
  then show ?thesis
    using mempool_stats_exact [OF demo_pool_wf] by (simp add: demo_pool_def demo_tx_def Let_def)
qed

end
