(* ===== verification/Nuvex_Blockchain.thy ===== *)
theory Nuvex_Blockchain
  imports Nuvex_Sha256
begin

text \<open>
  The chain of blocks (\<open>x/nvx/keeper/blockchain.go\<close>): genesis block, appending, hashing,
  validation, queries and the file the chain is kept in, one JSON line per block. The JSON encoder
  and decoder are the arguments \<open>marshal\<close> and \<open>unmarshal\<close>; file operations succeed. A nil slice
  of transactions is the empty list. Timestamps are the formatted strings the code stores.
\<close>

section \<open>Data\<close>

record block =
  b_height :: i64
  b_hash :: string
  b_prev_hash :: string
  b_timestamp :: string
  b_validator :: string
  b_transactions :: "string list"
  b_tx_count :: int
  b_total_fees :: i64
  b_burned_amount :: i64
  b_mining_reward :: i64
  b_state_root :: string
  b_signature :: string

record blockchain =
  blocks :: "block list"
  db_file :: "bytes option"

datatype chain_error = BadHash i64 | BrokenLink i64 | WrongHeight i64

section \<open>Hashes\<close>

definition hash_data :: "block \<Rightarrow> string" where
  "hash_data b = show_i64 (b_height b) @ b_prev_hash b @ b_timestamp b @ b_validator b
     @ show_int (b_tx_count b) @ show_i64 (b_total_fees b) @ show_i64 (b_mining_reward b)
     @ b_state_root b"

definition calculate_hash :: "block \<Rightarrow> string" where
  "calculate_hash b = sha_hex (hash_data b)"

definition calculate_state_root :: "string list \<Rightarrow> string" where
  "calculate_state_root tx_hashes = sha_hex (concat tx_hashes)"

section \<open>The file\<close>

definition append_block :: "(block \<Rightarrow> bytes) \<Rightarrow> block \<Rightarrow> blockchain \<Rightarrow> blockchain" where
  "append_block marshal b bc =
     bc\<lparr>db_file := Some ((case db_file bc of None \<Rightarrow> [] | Some d \<Rightarrow> d) @ marshal b @ [10])\<rparr>"

definition save_chain :: "(block \<Rightarrow> bytes) \<Rightarrow> blockchain \<Rightarrow> blockchain" where
  "save_chain marshal bc = bc\<lparr>db_file := Some (concat (map (\<lambda>b. marshal b @ [10]) (blocks bc)))\<rparr>"

text \<open>The loop of \<open>splitLines\<close>; \<open>cur\<close> is \<open>data[start:i]\<close>.\<close>

fun split_from :: "bytes \<Rightarrow> bytes \<Rightarrow> bytes list" where
  "split_from cur [] = (if cur = [] then [] else [cur])"
| "split_from cur (b # bs) =
     (if b = 10 then (if cur = [] then split_from [] bs else cur # split_from [] bs)
      else split_from (cur @ [b]) bs)"

definition split_lines :: "bytes \<Rightarrow> bytes list" where
  "split_lines data = split_from [] data"

fun load_lines :: "(bytes \<Rightarrow> block option) \<Rightarrow> bytes list \<Rightarrow> block list" where
  "load_lines unmarshal [] = []"
| "load_lines unmarshal (l # ls) =
     (if l = [] then load_lines unmarshal ls
      else case unmarshal l of
             None \<Rightarrow> load_lines unmarshal ls
           | Some b \<Rightarrow> b # load_lines unmarshal ls)"

definition load_chain :: "(bytes \<Rightarrow> block option) \<Rightarrow> blockchain \<Rightarrow> blockchain" where
  "load_chain unmarshal bc =
     (case db_file bc of
        None \<Rightarrow> bc
      | Some data \<Rightarrow> bc\<lparr>blocks := blocks bc @ load_lines unmarshal (split_lines data)\<rparr>)"

section \<open>Construction and growth\<close>

definition genesis_header :: block where
  "genesis_header =
     \<lparr>b_height = 0, b_hash = '''',
      b_prev_hash = ''0000000000000000000000000000000000000000000000000000000000000000'',
      b_timestamp = ''2025-10-01T12:00:00Z'',
      b_validator = ''nuvex19d85718c8da8f4213e1a2a41fe894ba928b9c9'', b_transactions = [],
      b_tx_count = 0, b_total_fees = 0, b_burned_amount = 0, b_mining_reward = 50000000,
      b_state_root = ''GENESIS_STATE_ROOT'', b_signature = ''''\<rparr>"

definition sealed :: "block \<Rightarrow> block" where
  "sealed b = b\<lparr>b_hash := calculate_hash b\<rparr>"

definition create_genesis_block :: "(block \<Rightarrow> bytes) \<Rightarrow> blockchain \<Rightarrow> blockchain" where
  "create_genesis_block marshal bc =
     save_chain marshal (bc\<lparr>blocks := blocks bc @ [sealed genesis_header]\<rparr>)"

definition new_blockchain ::
    "(block \<Rightarrow> bytes) \<Rightarrow> (bytes \<Rightarrow> block option) \<Rightarrow> bytes option \<Rightarrow> blockchain" where
  "new_blockchain marshal unmarshal file =
     (let bc = load_chain unmarshal \<lparr>blocks = [], db_file = file\<rparr>
      in if blocks bc = [] then create_genesis_block marshal bc else bc)"

text \<open>The arguments of \<open>AddBlock\<close>, with the clock reading.\<close>

record block_body =
  bb_validator :: string
  bb_tx_hashes :: "string list"
  bb_total_fees :: i64
  bb_burned :: i64
  bb_reward :: i64
  bb_now :: string

definition next_block :: "block_body \<Rightarrow> block \<Rightarrow> block" where
  "next_block body prev = sealed
     \<lparr>b_height = b_height prev + 1, b_hash = '''', b_prev_hash = b_hash prev,
      b_timestamp = bb_now body, b_validator = bb_validator body,
      b_transactions = bb_tx_hashes body, b_tx_count = int (length (bb_tx_hashes body)),
      b_total_fees = bb_total_fees body, b_burned_amount = bb_burned body,
      b_mining_reward = bb_reward body,
      b_state_root = calculate_state_root (bb_tx_hashes body), b_signature = ''''\<rparr>"

definition add_block ::
    "(block \<Rightarrow> bytes) \<Rightarrow> block_body \<Rightarrow> blockchain \<Rightarrow> (unit, block) res \<times> blockchain" where
  "add_block marshal body bc =
     (if blocks bc = [] then (Panic, bc)
      else let b = next_block body (last (blocks bc))
           in (Ok b, append_block marshal b (bc\<lparr>blocks := blocks bc @ [b]\<rparr>)))"

section \<open>Validation\<close>

text \<open>The loop body of \<open>ValidateChain\<close>: hash, link, height, in this order.\<close>

definition check_link :: "block \<Rightarrow> block \<Rightarrow> chain_error option" where
  "check_link previous current =
     (if b_hash current \<noteq> calculate_hash current then Some (BadHash (b_height current))
      else if b_prev_hash current \<noteq> b_hash previous then Some (BrokenLink (b_height current))
      else if b_height current \<noteq> b_height previous + 1 then Some (WrongHeight (b_height current))
      else None)"

fun validate_blocks :: "block list \<Rightarrow> (chain_error, unit) res" where
  "validate_blocks (previous # current # bs) =
     (case check_link previous current of
        Some e \<Rightarrow> Err e
      | None \<Rightarrow> validate_blocks (current # bs))"
| "validate_blocks _ = Ok ()"

definition validate_chain :: "blockchain \<Rightarrow> (chain_error, unit) res" where
  "validate_chain bc = validate_blocks (blocks bc)"

section \<open>Queries\<close>

definition get_latest_block :: "blockchain \<Rightarrow> block option" where
  "get_latest_block bc = (if blocks bc = [] then None else Some (last (blocks bc)))"

fun find_height :: "i64 \<Rightarrow> block list \<Rightarrow> block option" where
  "find_height h [] = None"
| "find_height h (b # bs) = (if b_height b = h then Some b else find_height h bs)"

definition get_block :: "i64 \<Rightarrow> blockchain \<Rightarrow> block option" where
  "get_block h bc = find_height h (blocks bc)"

definition get_recent_blocks :: "int \<Rightarrow> blockchain \<Rightarrow> (unit, block list) res" where
  "get_recent_blocks limit bc = newest_first limit (blocks bc)"

definition chain_height :: "blockchain \<Rightarrow> i64" where
  "chain_height bc = (if blocks bc = [] then 0 else b_height (last (blocks bc)))"

definition total_blocks :: "blockchain \<Rightarrow> int" where
  "total_blocks bc = int (length (blocks bc))"

section \<open>Validation, link by link\<close>

lemma hash_data_update [simp]:
  "hash_data (b\<lparr>b_hash := h\<rparr>) = hash_data b"
  "hash_data (b\<lparr>b_transactions := t\<rparr>) = hash_data b"
  "hash_data (b\<lparr>b_burned_amount := x\<rparr>) = hash_data b"
  "hash_data (b\<lparr>b_signature := s\<rparr>) = hash_data b"
  by (simp_all add: hash_data_def)

lemma hash_sealed [simp]: "b_hash (sealed b) = calculate_hash b" "calculate_hash (sealed b) = calculate_hash b"
  by (simp_all add: sealed_def calculate_hash_def)

lemma sealed_fields [simp]:
  "b_height (sealed b) = b_height b" "b_prev_hash (sealed b) = b_prev_hash b"
  "b_transactions (sealed b) = b_transactions b" "b_validator (sealed b) = b_validator b"
  "b_total_fees (sealed b) = b_total_fees b" "b_burned_amount (sealed b) = b_burned_amount b"
  "b_mining_reward (sealed b) = b_mining_reward b" "b_tx_count (sealed b) = b_tx_count b"
  by (simp_all add: sealed_def)

lemma check_link_next [simp]: "check_link p (next_block body p) = None"
  by (simp add: check_link_def next_block_def)

lemma check_link_None:
  "check_link p c = None \<longleftrightarrow>
     b_hash c = calculate_hash c \<and> b_prev_hash c = b_hash p \<and> b_height c = b_height p + 1"
  by (simp add: check_link_def)

definition linked :: "block list \<Rightarrow> bool" where
  "linked = successively (\<lambda>p c. check_link p c = None)"

lemma validate_blocks_Ok: "validate_blocks bs = Ok () \<longleftrightarrow> linked bs"
  unfolding linked_def by (induction bs rule: validate_blocks.induct) (auto split: option.splits)

lemma linked_append: "linked bs \<Longrightarrow> bs \<noteq> [] \<Longrightarrow> check_link (last bs) b = None \<Longrightarrow> linked (bs @ [b])"
  by (simp add: linked_def successively_append_iff)

lemma linked_nth: "linked bs \<longleftrightarrow> (\<forall>i. Suc i < length bs \<longrightarrow> check_link (bs ! i) (bs ! Suc i) = None)"
  unfolding linked_def by (auto simp: successively_conv_nth)

lemma linked_height:
  assumes "linked bs" "i < length bs"
  shows "b_height (bs ! i) = b_height (bs ! 0) + of_nat i"
  using assms(2)
proof (induction i)
  case (Suc i)
  then have "check_link (bs ! i) (bs ! Suc i) = None" using assms(1) by (simp add: linked_nth)
  with Suc show ?case by (simp add: check_link_None)
qed simp

lemma validate_blocks_no_panic: "validate_blocks bs \<noteq> Panic"
  by (induction bs rule: validate_blocks.induct) (auto split: option.splits)

section \<open>An append-only log\<close>

text \<open>
  What the callers of the chain rely on: appending adds one entry at the end, made from the
  argument and the log, and keeps the log good. The lemmas follow from that alone.
\<close>

locale append_log =
  fixes entries :: "'c \<Rightarrow> 'b list"
    and append :: "'a \<Rightarrow> 'c \<Rightarrow> 'c"
    and make :: "'a \<Rightarrow> 'c \<Rightarrow> 'b"
    and good :: "'c \<Rightarrow> bool"
  assumes entries_append: "good c \<Longrightarrow> entries (append a c) = entries c @ [make a c]"
    and good_append: "good c \<Longrightarrow> good (append a c)"
begin

lemma good_run: "good c \<Longrightarrow> good (fold append as c)"
  by (induction "as" arbitrary: c) (auto intro: good_append)

lemma entries_run:
  "good c \<Longrightarrow> \<exists>new. entries (fold append as c) = entries c @ new \<and> length new = length as"
proof (induction "as" arbitrary: c)
  case (Cons a "as")
  then obtain new where "entries (fold append as (append a c)) = entries (append a c) @ new"
    "length new = length as" using good_append by blast
  then show ?case using Cons.prems
    by (intro exI [of _ "make a c # new"]) (simp add: entries_append)
qed simp

lemma length_run: "good c \<Longrightarrow> length (entries (fold append as c)) = length (entries c) + length as"
  using entries_run [of c "as"] by auto

lemma prefix_kept: "good c \<Longrightarrow> i < length (entries c) \<Longrightarrow> entries (fold append as c) ! i = entries c ! i"
  using entries_run [of c "as"] by (auto simp: nth_append)

lemma new_entry:
  assumes "good c" "i < length as"
  shows "entries (fold append as c) ! (length (entries c) + i) = make (as ! i) (fold append (take i as) c)"
proof -
  let ?d = "fold append (take i as) c"
  have "as = take i as @ as ! i # drop (Suc i) as" using assms(2) by (rule id_take_nth_drop)
  then have run: "fold append as c = fold append (drop (Suc i) as) (append (as ! i) ?d)"
    by (metis comp_apply fold_append fold_simps(2))
  have d: "good ?d" "length (entries ?d) = length (entries c) + i"
    using assms good_run length_run [of c "take i as"] by simp_all
  have "entries (fold append as c) ! (length (entries c) + i)
      = entries (append (as ! i) ?d) ! (length (entries c) + i)"
    unfolding run by (rule prefix_kept) (use d in \<open>simp_all add: good_append entries_append\<close>)
  also have "\<dots> = make (as ! i) ?d"
    unfolding entries_append [OF d(1)] d(2) [symmetric] by simp
  finally show ?thesis .
qed

end

definition chain_append :: "(block \<Rightarrow> bytes) \<Rightarrow> block_body \<Rightarrow> blockchain \<Rightarrow> blockchain" where
  "chain_append marshal body bc = snd (add_block marshal body bc)"

definition chain_good :: "blockchain \<Rightarrow> bool" where
  "chain_good bc \<longleftrightarrow> blocks bc \<noteq> [] \<and> validate_chain bc = Ok ()"

lemma blocks_append_block [simp]: "blocks (append_block marshal b bc) = blocks bc"
  by (simp add: append_block_def)

lemma blocks_chain_append:
  "blocks bc \<noteq> [] \<Longrightarrow> blocks (chain_append marshal body bc) = blocks bc @ [next_block body (last (blocks bc))]"
  by (simp add: chain_append_def add_block_def Let_def)

interpretation chain_log: append_log blocks "chain_append marshal"
    "\<lambda>body bc. next_block body (last (blocks bc))" chain_good for marshal
proof
  fix a c
  assume c: "chain_good c"
  then show app: "blocks (chain_append marshal a c) = blocks c @ [next_block a (last (blocks c))]"
    by (simp add: chain_good_def blocks_chain_append)
  show "chain_good (chain_append marshal a c)"
    using c unfolding chain_good_def validate_chain_def validate_blocks_Ok app
    by (simp add: linked_append)
qed

lemma new_blockchain_None:
  "blocks (new_blockchain marshal unmarshal None) = [sealed genesis_header]"
  by (simp add: new_blockchain_def load_chain_def create_genesis_block_def save_chain_def)

lemma chain_good_new: "chain_good (new_blockchain marshal unmarshal None)"
  by (simp add: chain_good_def validate_chain_def new_blockchain_None)

text \<open>The chain of a node that started without a file and appended the given blocks.\<close>

definition grown_chain ::
    "(block \<Rightarrow> bytes) \<Rightarrow> (bytes \<Rightarrow> block option) \<Rightarrow> block_body list \<Rightarrow> blockchain" where
  "grown_chain marshal unmarshal bodies =
     fold (chain_append marshal) bodies (new_blockchain marshal unmarshal None)"

lemma grown_chain_good: "chain_good (grown_chain marshal unmarshal bodies)"
  unfolding grown_chain_def by (rule chain_log.good_run [OF chain_good_new])

lemma grown_chain_length: "length (blocks (grown_chain marshal unmarshal bodies)) = Suc (length bodies)"
  unfolding grown_chain_def using chain_log.length_run [OF chain_good_new] by (simp add: new_blockchain_None)

lemma grown_chain_genesis: "blocks (grown_chain marshal unmarshal bodies) ! 0 = sealed genesis_header"
  unfolding grown_chain_def
  using chain_log.prefix_kept [OF chain_good_new, of 0] by (simp add: new_blockchain_None)

lemma grown_chain_linked: "linked (blocks (grown_chain marshal unmarshal bodies))"
  using grown_chain_good by (simp add: chain_good_def validate_chain_def validate_blocks_Ok)

lemma grown_chain_height:
  "i \<le> length bodies \<Longrightarrow> b_height (blocks (grown_chain marshal unmarshal bodies) ! i) = of_nat i"
  using linked_height [OF grown_chain_linked] grown_chain_length [of marshal unmarshal bodies]
  by (simp add: grown_chain_genesis genesis_header_def)

lemma find_height_nth:
  assumes "\<forall>i<length bs. b_height (bs ! i) = h0 + of_nat i" "length bs \<le> 2 ^ 64" "k < length bs"
  shows "find_height (h0 + of_nat k) bs = Some (bs ! k)"
  using assms
proof (induction bs arbitrary: h0 k)
  case (Cons b bs)
  have h: "b_height b = h0" using Cons.prems(1) by fastforce
  show ?case
  proof (cases k)
    case 0
    with h show ?thesis by simp
  next
    case (Suc j)
    have "(of_nat k :: i64) \<noteq> 0"
    proof
      assume "(of_nat k :: i64) = 0"
      moreover have "unat (of_nat k :: i64) = k"
        using Cons.prems(2,3) by (simp add: unsigned_of_nat take_bit_nat_eq_self)
      ultimately show False using Suc by simp
    qed
    moreover have "find_height (h0 + 1 + of_nat j) bs = Some (bs ! j)"
      using Cons.prems Suc by (intro Cons.IH) (auto simp: add.assoc)
    ultimately show ?thesis using h Suc by (simp add: add.assoc)
  qed
qed simp

section \<open>Lines of the file\<close>

lemma split_from_line: "10 \<notin> set l \<Longrightarrow> cur @ l \<noteq> [] \<Longrightarrow> split_from cur (l @ 10 # ds) = (cur @ l) # split_from [] ds"
proof (induction l arbitrary: cur)
  case (Cons b l)
  then show ?case using Cons.IH [of "cur @ [b]"] by auto
qed simp

definition lines_of :: "(block \<Rightarrow> bytes) \<Rightarrow> block list \<Rightarrow> bytes" where
  "lines_of marshal bs = concat (map (\<lambda>b. marshal b @ [10]) bs)"

lemma split_lines_of:
  "\<forall>b\<in>set bs. 10 \<notin> set (marshal b) \<and> marshal b \<noteq> [] \<Longrightarrow> split_lines (lines_of marshal bs) = map marshal bs"
proof (induction bs)
  case (Cons b bs)
  then show ?case by (simp add: split_lines_def lines_of_def split_from_line)
qed (simp add: split_lines_def lines_of_def)

lemma load_lines_map:
  "\<forall>b\<in>set bs. unmarshal (marshal b) = Some b \<and> marshal b \<noteq> [] \<Longrightarrow> load_lines unmarshal (map marshal bs) = bs"
  by (induction bs) auto

lemma synced_append:
  assumes "db_file bc = Some (lines_of marshal (blocks bc))"
  shows "db_file (chain_append marshal body bc) = Some (lines_of marshal (blocks (chain_append marshal body bc)))"
  using assms by (simp add: chain_append_def add_block_def append_block_def Let_def lines_of_def)

lemma synced_grown:
  "db_file (grown_chain marshal unmarshal bodies) = Some (lines_of marshal (blocks (grown_chain marshal unmarshal bodies)))"
proof -
  have "db_file bc = Some (lines_of marshal (blocks bc)) \<Longrightarrow>
     db_file (fold (chain_append marshal) bodies bc)
       = Some (lines_of marshal (blocks (fold (chain_append marshal) bodies bc)))" for bc
    by (induction bodies arbitrary: bc) (simp_all add: synced_append)
  then show ?thesis unfolding grown_chain_def
    by (simp add: new_blockchain_def load_chain_def create_genesis_block_def save_chain_def lines_of_def)
qed

section \<open>Tampering\<close>

lemma hash_data_prev:
  assumes "hash_data b = hash_data c" "b_height b = b_height c"
    "length (b_prev_hash b) = length (b_prev_hash c)"
  shows "b_prev_hash b = b_prev_hash c"
  using assms by (simp add: hash_data_def)

lemma linked_hash_length:
  assumes "linked bs" "length (b_hash (bs ! 0)) = 64" "i < length bs"
  shows "length (b_hash (bs ! i)) = 64"
proof (cases i)
  case (Suc j)
  then show ?thesis using assms by (simp add: linked_nth check_link_None calculate_hash_def)
qed (use assms in simp)

lemma hashes_agree_downwards:
  assumes "linked bs" "linked cs" "length cs = length bs"
    and "b_height (bs ! 0) = b_height (cs ! 0)"
    and "length (b_hash (bs ! 0)) = 64" "length (b_hash (cs ! 0)) = 64"
    and no_collision: "\<And>i. 0 < i \<Longrightarrow> i < length bs \<Longrightarrow>
       calculate_hash (bs ! i) = calculate_hash (cs ! i) \<Longrightarrow> hash_data (bs ! i) = hash_data (cs ! i)"
    and "i + k < length bs" "b_hash (bs ! (i + k)) = b_hash (cs ! (i + k))"
  shows "b_hash (bs ! i) = b_hash (cs ! i)"
  using assms(8,9)
proof (induction k)
  case (Suc k)
  let ?j = "i + k"
  have l: "check_link (bs ! ?j) (bs ! Suc ?j) = None" "check_link (cs ! ?j) (cs ! Suc ?j) = None"
    using Suc.prems assms(1-3) by (simp_all add: linked_nth)
  have "hash_data (bs ! Suc ?j) = hash_data (cs ! Suc ?j)"
    using Suc.prems l by (intro no_collision) (simp_all add: check_link_None)
  moreover have "b_height (bs ! Suc ?j) = b_height (cs ! Suc ?j)"
    using Suc.prems linked_height [OF assms(1), of "Suc ?j"] linked_height [OF assms(2), of "Suc ?j"] assms(3,4)
    by simp
  moreover have "length (b_prev_hash (bs ! Suc ?j)) = length (b_prev_hash (cs ! Suc ?j))"
    using Suc.prems l linked_hash_length [OF assms(1,5), of ?j] linked_hash_length [OF assms(2,6), of ?j] assms(3)
    by (simp add: check_link_None)
  ultimately have "b_prev_hash (bs ! Suc ?j) = b_prev_hash (cs ! Suc ?j)" by (rule hash_data_prev)
  then show ?case using l Suc.prems by (intro Suc.IH) (simp_all add: check_link_None)
qed simp

lemma check_link_cong:
  assumes "hash_data c' = hash_data c" "b_hash c' = b_hash c" "b_prev_hash c' = b_prev_hash c"
    "b_height c' = b_height c" "b_hash p' = b_hash p" "b_height p' = b_height p"
  shows "check_link p' c' = check_link p c"
  using assms by (simp add: check_link_def calculate_hash_def)

lemma validate_map_cong:
  assumes "\<And>b. hash_data (f b) = hash_data b" "\<And>b. b_hash (f b) = b_hash b"
    "\<And>b. b_prev_hash (f b) = b_prev_hash b" "\<And>b. b_height (f b) = b_height b"
  shows "validate_blocks (map f bs) = validate_blocks bs"
proof (induction bs rule: validate_blocks.induct)
  case (1 p c bs)
  have "check_link (f p) (f c) = check_link p c" by (rule check_link_cong) (simp_all add: assms)
  with 1 show ?case by (simp split: option.splits)
qed simp_all

section \<open>Properties\<close>

definition demo_body :: block_body where
  "demo_body = \<lparr>bb_validator = ''nuvex19d85718c8da8f4213e1a2a41fe894ba928b9c9'', bb_tx_hashes = [''0xab''],
     bb_total_fees = 1000, bb_burned = 1, bb_reward = 50000000, bb_now = ''2025-10-01T12:00:01Z''\<rparr>"

text \<open>
  C15: Whatever blocks a node appends to a fresh chain, \<open>ValidateChain\<close> accepts the chain, the genesis
  block stays at its start, there is one block more than was appended, and \<open>Height\<close> is that
  number minus one (modulo 2^64).
\<close>
theorem grown_chain_valid:
  "let bc = grown_chain marshal unmarshal bodies
   in validate_chain bc = Ok () \<and> blocks bc ! 0 = sealed genesis_header
    \<and> total_blocks bc = int (length bodies) + 1 \<and> chain_height bc = of_nat (length bodies)"
proof -
  let ?bs = "blocks (grown_chain marshal unmarshal bodies)"
  have l: "length ?bs = Suc (length bodies)" by (rule grown_chain_length)
  then have ne: "?bs \<noteq> []" by auto
  then have "last ?bs = ?bs ! length bodies" using l by (simp add: last_conv_nth)
  then show ?thesis
    using grown_chain_good grown_chain_genesis grown_chain_height [of "length bodies" bodies] l ne
    by (simp add: Let_def chain_good_def total_blocks_def chain_height_def)
qed

text \<open>
  In such a chain of fewer than 2^64 blocks, \<open>GetBlock i\<close> finds the block at position \<open>i\<close>; for
  \<open>i > 0\<close> it holds exactly the arguments of the i-th call of \<open>AddBlock\<close>, its hash is the hash of
  its header and its previous hash is the hash of the block before it.
\<close>
theorem get_block_finds_appended:
  assumes "length bodies < 2 ^ 64" "0 < i" "i \<le> length bodies"
  shows "\<exists>b prev. get_block (of_nat i) (grown_chain marshal unmarshal bodies) = Some b
    \<and> get_block (of_nat (i - 1)) (grown_chain marshal unmarshal bodies) = Some prev
    \<and> b_prev_hash b = b_hash prev \<and> b_hash b = calculate_hash b \<and> b_height b = of_nat i
    \<and> b_transactions b = bb_tx_hashes (bodies ! (i - 1)) \<and> b_validator b = bb_validator (bodies ! (i - 1))
    \<and> b_total_fees b = bb_total_fees (bodies ! (i - 1)) \<and> b_burned_amount b = bb_burned (bodies ! (i - 1))
    \<and> b_mining_reward b = bb_reward (bodies ! (i - 1)) \<and> b_tx_count b = int (length (b_transactions b))"
proof -
  let ?bc = "grown_chain marshal unmarshal bodies"
  let ?bs = "blocks ?bc"
  have len: "length ?bs = Suc (length bodies)" by (rule grown_chain_length)
  have find: "get_block (of_nat k) ?bc = Some (?bs ! k)" if "k \<le> length bodies" for k
    unfolding get_block_def
    using find_height_nth [of ?bs 0 k] that assms(1) len grown_chain_height [of _ bodies] by simp
  have "?bs ! (1 + (i - 1)) = next_block (bodies ! (i - 1)) (last (blocks (fold (chain_append marshal) (take (i - 1) bodies) (new_blockchain marshal unmarshal None))))"
    using chain_log.new_entry [OF chain_good_new, of "i - 1" bodies marshal marshal unmarshal] assms(2,3)
    unfolding grown_chain_def by (simp add: new_blockchain_None)
  then obtain p where b: "?bs ! i = next_block (bodies ! (i - 1)) p" using assms(2) by auto
  have "check_link (?bs ! (i - 1)) (?bs ! Suc (i - 1)) = None"
    using grown_chain_linked [of marshal unmarshal bodies, unfolded linked_nth, THEN spec, of "i - 1"]
      len assms(2,3) by simp
  then have "check_link (?bs ! (i - 1)) (?bs ! i) = None" using assms(2) by simp
  then have l: "b_prev_hash (?bs ! i) = b_hash (?bs ! (i - 1))" "b_hash (?bs ! i) = calculate_hash (?bs ! i)"
    by (simp_all add: check_link_None)
  have "get_block (of_nat i) ?bc = Some (?bs ! i)" "get_block (of_nat (i - 1)) ?bc = Some (?bs ! (i - 1))"
    using assms(3) by (intro find; simp)+
  moreover have "b_height (?bs ! i) = of_nat i" using assms(3) by (rule grown_chain_height)
  moreover have "b_transactions (?bs ! i) = bb_tx_hashes (bodies ! (i - 1))"
    "b_validator (?bs ! i) = bb_validator (bodies ! (i - 1))"
    "b_total_fees (?bs ! i) = bb_total_fees (bodies ! (i - 1))"
    "b_burned_amount (?bs ! i) = bb_burned (bodies ! (i - 1))"
    "b_mining_reward (?bs ! i) = bb_reward (bodies ! (i - 1))"
    "b_tx_count (?bs ! i) = int (length (b_transactions (?bs ! i)))"
    unfolding b by (simp_all add: next_block_def)
  ultimately show ?thesis using l by blast
qed

theorem get_block_finds_appended_witness:
  "\<exists>b. get_block 1 (grown_chain (\<lambda>_. [1]) (\<lambda>_. None) [demo_body]) = Some b \<and> b_transactions b = [''0xab'']"
  using get_block_finds_appended [of "[demo_body]" 1 "\<lambda>_. [1]" "\<lambda>_. None"] by (auto simp: demo_body_def)





text \<open>
  What validation does not see: the list of transactions, the burned amount and the signature of
  any block, and in the first block everything but its hash and height, can be replaced by
  anything without changing the verdict.
\<close>
theorem validation_ignores_contents:
  "validate_blocks (map (\<lambda>b. b\<lparr>b_transactions := t b, b_burned_amount := x b, b_signature := s b\<rparr>) bs)
     = validate_blocks bs
   \<and> validate_blocks (first\<lparr>b_validator := v, b_mining_reward := r, b_timestamp := ts, b_state_root := root,
        b_prev_hash := p\<rparr> # bs) = validate_blocks (first # bs)"
proof (intro conjI)
  show "validate_blocks (map (\<lambda>b. b\<lparr>b_transactions := t b, b_burned_amount := x b, b_signature := s b\<rparr>) bs)
     = validate_blocks bs"
    by (rule validate_map_cong) simp_all
  show "validate_blocks (first\<lparr>b_validator := v, b_mining_reward := r, b_timestamp := ts, b_state_root := root,
        b_prev_hash := p\<rparr> # bs) = validate_blocks (first # bs)"
    by (cases bs) (simp_all add: check_link_def)
qed

text \<open>
  The header text has no separators, so different headers share one text and one hash: a block
  with 1 transaction and fees of 23 hashes like one with 12 transactions and fees of 3, whatever
  its other fields are.
\<close>
theorem header_text_ambiguous:
  "calculate_hash (b\<lparr>b_tx_count := 1, b_total_fees := 23\<rparr>) = calculate_hash (b\<lparr>b_tx_count := 12, b_total_fees := 3\<rparr>)
   \<and> b\<lparr>b_tx_count := 1, b_total_fees := 23\<rparr> \<noteq> b\<lparr>b_tx_count := 12, b_total_fees := 3\<rparr>"
proof
  have "show_int 1 = ''1''" "show_i64 23 = ''23''" "show_int 12 = ''12''" "show_i64 3 = ''3''"
    by (simp_all add: show_int_def show_i64_def show_nat.simps digit_char_def char_of_def bit_0)
  then show "calculate_hash (b\<lparr>b_tx_count := 1, b_total_fees := 23\<rparr>) = calculate_hash (b\<lparr>b_tx_count := 12, b_total_fees := 3\<rparr>)"
    by (simp add: calculate_hash_def hash_data_def)
  have "b_tx_count (b\<lparr>b_tx_count := 1, b_total_fees := 23\<rparr>) \<noteq> b_tx_count (b\<lparr>b_tx_count := 12, b_total_fees := 3\<rparr>)"
    by simp
  then show "b\<lparr>b_tx_count := 1, b_total_fees := 23\<rparr> \<noteq> b\<lparr>b_tx_count := 12, b_total_fees := 3\<rparr>" by metis
qed

text \<open>
  C18: A node that restarts from the file of a chain it has grown gets the same blocks back, given a
  JSON decoder that inverts the encoder on these blocks and an encoder that writes no newline
  and no empty text.
\<close>
theorem chain_reloads:
  assumes "bc = grown_chain marshal unmarshal bodies"
    and "\<forall>b\<in>set (blocks bc). unmarshal (marshal b) = Some b"
    and "\<forall>b\<in>set (blocks bc). 10 \<notin> set (marshal b) \<and> marshal b \<noteq> []"
  shows "blocks (new_blockchain marshal unmarshal (db_file bc)) = blocks bc
    \<and> db_file (new_blockchain marshal unmarshal (db_file bc)) = db_file bc"
proof -
  have f: "db_file bc = Some (lines_of marshal (blocks bc))" unfolding assms(1) by (rule synced_grown)
  have "split_lines (lines_of marshal (blocks bc)) = map marshal (blocks bc)"
    using assms(3) by (intro split_lines_of)
  moreover have "load_lines unmarshal (map marshal (blocks bc)) = blocks bc"
    using assms(2,3) by (intro load_lines_map) auto
  moreover have "blocks bc \<noteq> []" using grown_chain_good [of marshal unmarshal bodies] assms(1) by (simp add: chain_good_def)
  ultimately show ?thesis by (simp add: new_blockchain_def load_chain_def f Let_def)
qed

theorem chain_reloads_witness:
  "let g = sealed genesis_header; n = next_block demo_body g;
       marshal = (\<lambda>b. if b = g then [1] else [2 :: byte]);
       unmarshal = (\<lambda>l. if l = [1] then Some g else Some n);
       bc = grown_chain marshal unmarshal [demo_body]
   in blocks bc = [g, n] \<and> blocks (new_blockchain marshal unmarshal (db_file bc)) = blocks bc"
proof -
  let ?g = "sealed genesis_header"
  let ?n = "next_block demo_body ?g"
  let ?m = "\<lambda>b. if b = ?g then [1] else [2 :: byte]"
  let ?u = "\<lambda>l. if l = [1] then Some ?g else Some ?n"
  let ?bc = "grown_chain ?m ?u [demo_body]"
  have bs: "blocks ?bc = [?g, ?n]"
    unfolding grown_chain_def using new_blockchain_None [of ?m ?u] by (simp add: blocks_chain_append)
  then have "\<forall>b\<in>set (blocks ?bc). ?u (?m b) = Some b" by auto
  then show ?thesis using chain_reloads [of ?bc ?m ?u "[demo_body]"] bs by (simp add: Let_def)
qed

end
