(* ===== verification/Nuvex_Consensus.thy ===== *)
theory Nuvex_Consensus
  imports Nuvex_Sha256 Nuvex_Burn Nuvex_Mining
begin

text \<open>
  The consensus engine (\<open>x/nvx/keeper/consensus.go\<close>): the leader of a block, drawn by stake from the
  hash of the previous block, and the accounting of a block: fees burned, reward mined, bonus
  of a green validator. A pointer into the slice of validators is an index.
\<close>

section \<open>Data\<close>

record validator =
  v_address :: string
  v_voting_power :: i64
  v_is_active :: bool
  v_is_green :: bool
  v_commission_bps :: i64
  v_total_earned :: i64

record consensus_engine =
  ce_validators :: "validator list"
  ce_quorum :: int
  ce_burn :: burn_keeper
  ce_mining :: halving_state

definition new_consensus_engine :: "validator list \<Rightarrow> consensus_engine" where
  "new_consensus_engine vs =
     \<lparr>ce_validators = vs, ce_quorum = (2 * int (length vs)) div 3 + 1,
      ce_burn = new_burn_keeper, ce_mining = new_mining_keeper\<rparr>"

section \<open>The leader\<close>

fun active_power :: "validator list \<Rightarrow> i64 \<Rightarrow> i64" where
  "active_power [] tot = tot"
| "active_power (v # vs) tot = active_power vs (if v_is_active v then tot + v_voting_power v else tot)"

text \<open>The second loop of \<open>SelectLeader\<close>, from index \<open>i\<close> with the cumulated power so far.\<close>

fun leader_from :: "i64 \<Rightarrow> i64 \<Rightarrow> nat \<Rightarrow> validator list \<Rightarrow> nat option" where
  "leader_from slot cum i [] = None"
| "leader_from slot cum i (v # vs) =
     (if \<not> v_is_active v then leader_from slot cum (i + 1) vs
      else if slot <s cum + v_voting_power v then Some i
      else leader_from slot (cum + v_voting_power v) (i + 1) vs)"

definition leader_seed :: "bytes \<Rightarrow> i64 \<Rightarrow> u64" where
  "leader_seed prev_hash height = be_word (take 8 (sha256 (prev_hash @ be_bytes 8 height)))"

definition select_leader :: "bytes \<Rightarrow> i64 \<Rightarrow> consensus_engine \<Rightarrow> nat option" where
  "select_leader prev_hash height ce =
     (if ce_validators ce = [] then None
      else let tot = active_power (ce_validators ce) 0 in
           if tot = 0 then Some 0
           else let slot = leader_seed prev_hash height mod tot in
                case leader_from slot 0 0 (ce_validators ce) of Some i \<Rightarrow> Some i | None \<Rightarrow> Some 0)"

section \<open>A block\<close>

definition credit_reward :: "string \<Rightarrow> i64 \<Rightarrow> validator \<Rightarrow> validator" where
  "credit_reward address reward v =
     (if v_address v = address then v\<lparr>v_total_earned := v_total_earned v + reward\<rparr> else v)"

definition green_reward :: "validator \<Rightarrow> i64 \<Rightarrow> i64" where
  "green_reward leader reward =
     (if v_is_green leader \<and> 0 <s reward then reward + quot64 (reward * 5) 1000 else reward)"

definition process_block :: "i64 \<Rightarrow> i64 \<Rightarrow> consensus_engine \<Rightarrow> (unit, unit) res \<times> consensus_engine" where
  "process_block height total_fees ce =
     (case select_leader (bytes_of ''prevhash'') height ce of
        None \<Rightarrow> (Ok (), ce)
      | Some i \<Rightarrow>
          let leader = ce_validators ce ! i;
              ce1 = ce\<lparr>ce_burn := burn_from_fee total_fees (ce_burn ce)\<rparr>;
              (r, mk') = process_block_reward height (v_address leader) (ce_mining ce1);
              ce2 = ce1\<lparr>ce_mining := mk'\<rparr>
          in if r = Panic then (Panic, ce2)
             else
               let reward = (case r of Ok x \<Rightarrow> x | _ \<Rightarrow> 0);
                   ce3 = ce2\<lparr>ce_validators :=
                     map (credit_reward (v_address leader) (green_reward leader reward)) (ce_validators ce2)\<rparr>
               in (if slice_ok 16 (v_address leader) then Ok () else Panic, ce3))"

definition engine_mining_stats :: "i64 \<Rightarrow> consensus_engine \<Rightarrow> mining_stats \<times> consensus_engine" where
  "engine_mining_stats height ce =
     (let (st, mk') = mining_get_stats height (ce_mining ce) in (st, ce\<lparr>ce_mining := mk'\<rparr>))"

section \<open>Slots\<close>

definition power :: "validator \<Rightarrow> int" where
  "power v = (if v_is_active v then sint (v_voting_power v) else 0)"

definition powers_ok :: "validator list \<Rightarrow> bool" where
  "powers_ok vs \<longleftrightarrow> (\<forall>v\<in>set vs. 0 \<le> power v) \<and> (\<Sum>v\<leftarrow>vs. power v) < 2 ^ 63"

lemma powers_ok_Cons: "powers_ok (v # vs) \<Longrightarrow> powers_ok vs \<and> 0 \<le> power v \<and> 0 \<le> (\<Sum>v\<leftarrow>vs. power v)"
  by (auto simp: powers_ok_def intro!: sum_list_nonneg)

lemma active_power_sum:
  assumes "powers_ok vs" "0 \<le> sint c" "sint c + (\<Sum>v\<leftarrow>vs. power v) < 2 ^ 63"
  shows "sint (active_power vs c) = sint c + (\<Sum>v\<leftarrow>vs. power v)"
  using assms
proof (induction vs arbitrary: c)
  case (Cons v vs)
  note p = powers_ok_Cons [OF Cons.prems(1)]
  show ?case
  proof (cases "v_is_active v")
    case True
    then have c: "sint (c + v_voting_power v) = sint c + power v"
      using p Cons.prems(2,3) by (subst sint64_add) (simp_all add: power_def)
    have "sint (active_power vs (c + v_voting_power v)) = sint (c + v_voting_power v) + (\<Sum>v\<leftarrow>vs. power v)"
      using p Cons.prems(2,3) by (intro Cons.IH) (simp_all add: c)
    with True c show ?thesis by simp
  next
    case False
    then show ?thesis using p Cons by (simp add: power_def)
  qed
qed simp

text \<open>The cumulated power before each validator cuts the slots into one interval per validator.\<close>

definition power_before :: "nat \<Rightarrow> validator list \<Rightarrow> int" where
  "power_before j vs = (\<Sum>v\<leftarrow>take j vs. power v)"

lemma power_before_Cons [simp]:
  "power_before 0 vs = 0" "power_before (Suc j) (v # vs) = power v + power_before j vs"
  by (simp_all add: power_before_def)

lemma power_before_Suc: "j < length vs \<Longrightarrow> power_before (Suc j) vs = power_before j vs + power (vs ! j)"
  by (simp add: power_before_def take_Suc_conv_app_nth)

lemma power_before_mono:
  assumes "powers_ok vs" "i \<le> j"
  shows "power_before i vs \<le> power_before j vs"
proof -
  have "take j vs = take i vs @ take (j - i) (drop i vs)"
    using assms(2) by (metis le_add_diff_inverse take_add)
  moreover have "0 \<le> (\<Sum>v\<leftarrow>take (j - i) (drop i vs). power v)"
    using assms(1) by (intro sum_list_nonneg) (auto simp: powers_ok_def dest!: in_set_takeD in_set_dropD)
  ultimately show ?thesis by (simp add: power_before_def)
qed

lemma leader_from_interval:
  assumes "powers_ok vs" "0 \<le> sint c" "sint c + (\<Sum>v\<leftarrow>vs. power v) < 2 ^ 63"
    and "sint c \<le> sint slot" "sint slot < sint c + (\<Sum>v\<leftarrow>vs. power v)"
  shows "\<exists>j < length vs. leader_from slot c k vs = Some (k + j) \<and> v_is_active (vs ! j)
     \<and> sint c + power_before j vs \<le> sint slot \<and> sint slot < sint c + power_before (Suc j) vs"
  using assms
proof (induction vs arbitrary: c k)
  case (Cons v vs)
  note p = powers_ok_Cons [OF Cons.prems(1)]
  show ?case
  proof (cases "v_is_active v")
    case True
    then have c: "sint (c + v_voting_power v) = sint c + power v"
      using p Cons.prems(2,3) by (subst sint64_add) (simp_all add: power_def)
    show ?thesis
    proof (cases "sint slot < sint c + power v")
      case lt: True
      with True Cons.prems show ?thesis by (intro exI [of _ 0]) (simp add: word_sless_alt c)
    next
      case False
      have "\<exists>j < length vs. leader_from slot (c + v_voting_power v) (k + 1) vs = Some (k + 1 + j)
         \<and> v_is_active (vs ! j) \<and> sint (c + v_voting_power v) + power_before j vs \<le> sint slot
         \<and> sint slot < sint (c + v_voting_power v) + power_before (Suc j) vs"
        using p Cons.prems False by (intro Cons.IH) (simp_all add: c)
      then obtain j where "j < length vs" "leader_from slot (c + v_voting_power v) (k + 1) vs = Some (k + 1 + j)"
        "v_is_active (vs ! j)" "sint c + power v + power_before j vs \<le> sint slot"
        "sint slot < sint c + power v + power_before (Suc j) vs" unfolding c by blast
      with True False show ?thesis by (intro exI [of _ "Suc j"]) (simp add: word_sless_alt c)
    qed
  next
    case False
    then have "power v = 0" by (simp add: power_def)
    moreover obtain j where "j < length vs" "leader_from slot c (k + 1) vs = Some (k + 1 + j)"
        "v_is_active (vs ! j)" "sint c + power_before j vs \<le> sint slot"
        "sint slot < sint c + power_before (Suc j) vs"
      using Cons.IH [of c "k + 1"] p Cons.prems \<open>power v = 0\<close> by auto
    ultimately show ?thesis using False by (intro exI [of _ "Suc j"]) simp
  qed
qed simp

lemma leader_slots:
  assumes "powers_ok vs" "i < length vs" "v_is_active (vs ! i)"
    and "T = (\<Sum>v\<leftarrow>vs. power v)"
  shows "{s \<in> {0..<T}. leader_from (word_of_int s) 0 0 vs = Some i} = {power_before i vs..<power_before (Suc i) vs}"
proof -
  have s_int: "sint (word_of_int s :: i64) = s" if "0 \<le> s" "s < T" for s
    using that assms(1,4) by (intro sint64_of_int) (auto simp: powers_ok_def)
  have pick: "\<exists>j < length vs. leader_from (word_of_int s) 0 0 vs = Some j
      \<and> power_before j vs \<le> s \<and> s < power_before (Suc j) vs" if "0 \<le> s" "s < T" for s
    using leader_from_interval [OF assms(1), of 0 "word_of_int s" 0] that assms(1,4) s_int [OF that]
    by (auto simp: powers_ok_def)
  have range: "0 \<le> s \<and> s < T" if "power_before i vs \<le> s" "s < power_before (Suc i) vs" for s
  proof -
    have "power_before 0 vs \<le> power_before i vs" by (rule power_before_mono [OF assms(1)]) simp
    moreover have "power_before (Suc i) vs \<le> power_before (length vs) vs"
      using assms(2) by (intro power_before_mono [OF assms(1)]) simp
    moreover have "power_before (length vs) vs = T" by (simp add: power_before_def assms(4))
    ultimately show ?thesis using that by simp
  qed
  have same: "j = i" if "power_before j vs \<le> s" "s < power_before (Suc j) vs"
    "power_before i vs \<le> s" "s < power_before (Suc i) vs" for s j
  proof -
    have "\<not> Suc j \<le> i" using power_before_mono [OF assms(1), of "Suc j" i] that by linarith
    moreover have "\<not> Suc i \<le> j" using power_before_mono [OF assms(1), of "Suc i" j] that by linarith
    ultimately show ?thesis by linarith
  qed
  show ?thesis
  proof (intro set_eqI iffI)
    fix s
    assume "s \<in> {s \<in> {0..<T}. leader_from (word_of_int s) 0 0 vs = Some i}"
    then show "s \<in> {power_before i vs..<power_before (Suc i) vs}"
      using pick [of s] by auto
  next
    fix s
    assume s: "s \<in> {power_before i vs..<power_before (Suc i) vs}"
    then have T: "0 \<le> s" "s < T" using range [of s] by auto
    from pick [OF T] obtain j where "leader_from (word_of_int s) 0 0 vs = Some j"
      "power_before j vs \<le> s" "s < power_before (Suc j) vs" by blast
    then show "s \<in> {s \<in> {0..<T}. leader_from (word_of_int s) 0 0 vs = Some i}"
      using same [of j s] s T by simp
  qed
qed

lemma leader_from_less: "leader_from slot c k vs = Some i \<Longrightarrow> i < k + length vs"
proof (induction vs arbitrary: c k)
  case (Cons v vs)
  then show ?case by (auto split: if_splits dest!: Cons.IH)
qed simp

lemma select_leader_some:
  "ce_validators ce \<noteq> [] \<Longrightarrow> \<exists>i < length (ce_validators ce). select_leader p h ce = Some i"
proof -
  assume ne: "ce_validators ce \<noteq> []"
  show ?thesis
    using ne leader_from_less [of _ 0 0] by (auto simp: select_leader_def Let_def split: option.splits)
qed

section \<open>Accounting\<close>

lemma process_block_reward_Ok:
  assumes "process_block_reward h a st = (Ok r, st')"
  shows "total_mined st' = total_mined st + r"
  using assms by (auto simp: process_block_reward_def Let_def split_beta split: if_splits)

lemma process_block_reward_long:
  "16 \<le> length a \<Longrightarrow> fst (process_block_reward h a st) = Ok (fst (get_block_reward h st))"
  by (auto simp: process_block_reward_def Let_def split_beta slice_ok_def)

lemma credit_reward_simps [simp]:
  "v_address (credit_reward a r v) = v_address v" "v_is_active (credit_reward a r v) = v_is_active v"
  "v_is_green (credit_reward a r v) = v_is_green v"
  "v_voting_power (credit_reward a r v) = v_voting_power v"
  by (simp_all add: credit_reward_def)

lemma credit_total:
  "v_total_earned (credit_reward a r v) = v_total_earned v + (if v_address v = a then r else 0)"
  by (simp add: credit_reward_def)

lemma earned_after_credit:
  assumes "distinct (map v_address vs)" "i < length vs"
  shows "(\<Sum>v\<leftarrow>map (credit_reward (v_address (vs ! i)) r) vs. v_total_earned v)
       = (\<Sum>v\<leftarrow>vs. v_total_earned v) + r"
  using assms
proof (induction vs arbitrary: i)
  case (Cons v vs)
  have other: "map (credit_reward (v_address v) r) vs = vs"
  proof (rule map_idI)
    fix x
    assume "x \<in> set vs"
    then have "v_address x \<noteq> v_address v" using Cons.prems(1) by (metis distinct.simps(2) image_eqI list.simps(9) set_map)
    then show "credit_reward (v_address v) r x = x" by (simp add: credit_reward_def)
  qed
  show ?case
  proof (cases i)
    case 0
    then show ?thesis using other by (simp add: credit_total algebra_simps del: map_map)
  next
    case (Suc j)
    then have "v_address v \<noteq> v_address (vs ! j)" using Cons.prems by (auto simp: image_iff)
    then show ?thesis using Suc Cons by (simp add: credit_total algebra_simps del: map_map)
  qed
qed simp

text \<open>The run of a single green validator through the blocks 1 to \<open>n\<close>.\<close>

definition green_validator :: validator where
  "green_validator = \<lparr>v_address = ''nuvex1000000000000000'', v_voting_power = 1000, v_is_active = True,
     v_is_green = True, v_commission_bps = 0, v_total_earned = 0\<rparr>"

fun green_run :: "validator \<Rightarrow> nat \<Rightarrow> consensus_engine" where
  "green_run v 0 = new_consensus_engine [v]"
| "green_run v (Suc n) = snd (process_block (word_of_nat (Suc n)) 0 (green_run v n))"

lemma green_block:
  assumes "n < 2000000" "v_is_green v" "16 \<le> length (v_address v)"
    and "ce_mining ce = mine_blocks n (v_address v)" "ce_validators ce = [v\<lparr>v_total_earned := x\<rparr>]"
  shows "process_block (word_of_nat (Suc n)) 0 ce = (Ok (), ce\<lparr>ce_burn := burn_from_fee 0 (ce_burn ce),
      ce_mining := mine_blocks (Suc n) (v_address v),
      ce_validators := [v\<lparr>v_total_earned := x + 50250000\<rparr>]\<rparr>)"
proof -
  let ?a = "v_address v"
  let ?m = "mine_blocks n ?a"
  obtain i where "i < length (ce_validators ce)" and i: "select_leader (bytes_of ''prevhash'') (word_of_nat (Suc n)) ce = Some i"
    using select_leader_some [of ce] assms(5) by auto
  then have i0: "i = 0" using assms(5) by simp
  have n: "n < 2 ^ 62" using assms(1) by simp
  have "current_epoch ?m = 0" using mine_blocks_epoch [OF n] assms(1) by simp
  moreover have "sint (word_of_nat (Suc n) :: i64) = int (Suc n)"
    using assms(1) by (intro sint_of_nat_small) simp
  ultimately have "current_epoch (check_halving (word_of_nat (Suc n)) ?m) = 0"
    using assms(1) by (simp add: check_halving_epoch del: of_nat_Suc)
  then have "sint (fst (get_block_reward (word_of_nat (Suc n)) ?m)) = sint (50000000 :: i64)"
    using assms(1) mine_blocks_total [OF n, of ?a] by (simp add: sint_get_block_reward)
  then have r: "fst (get_block_reward (word_of_nat (Suc n)) ?m) = 50000000" by (rule i64_eqI)
  have pr: "process_block_reward (word_of_nat (Suc n)) ?a ?m = (Ok 50000000, mine_blocks (Suc n) ?a)"
    using process_block_reward_long [OF assms(3), of "word_of_nat (Suc n)" ?m] r by (simp add: prod_eq_iff)
  have g: "green_reward (v\<lparr>v_total_earned := y\<rparr>) 50000000 = 50250000" for y
    using assms(2) by (simp add: green_reward_def quot64_def word_sless_alt signed_divide_int_def)
  show ?thesis
    unfolding process_block_def i option.case Let_def i0
    using assms(3) by (simp add: assms(4,5) pr g slice_ok_def credit_reward_def del: of_nat_Suc mine_blocks.simps)
qed

lemma burn_no_fee: "burn_from_fee 0 bk = bk"
  by (simp add: burn_from_fee_def quot64_def)

lemma green_run_state:
  assumes "n \<le> 2000000" "v_is_green v" "16 \<le> length (v_address v)" "v_total_earned v = 0"
  shows "ce_mining (green_run v n) = mine_blocks n (v_address v)
    \<and> ce_validators (green_run v n) = [v\<lparr>v_total_earned := word_of_nat n * 50250000\<rparr>]
    \<and> ce_burn (green_run v n) = new_burn_keeper"
  using assms(1)
proof (induction n)
  case 0
  then show ?case using assms(4) by (simp add: new_consensus_engine_def)
next
  case (Suc n)
  then have "n < 2000000" by simp
  note step = green_block [OF this assms(2,3), of "green_run v n" "word_of_nat n * 50250000"]
  then show ?case using Suc
    by (simp add: burn_no_fee algebra_simps del: mine_blocks.simps)
qed

section \<open>Properties\<close>

definition demo_validator :: "string \<Rightarrow> i64 \<Rightarrow> bool \<Rightarrow> validator" where
  "demo_validator a p act = \<lparr>v_address = a, v_voting_power = p, v_is_active = act, v_is_green = False,
     v_commission_bps = 0, v_total_earned = 0\<rparr>"

definition demo_validators :: "validator list" where
  "demo_validators = [demo_validator ''nuvex1aaaaaaaaaaaaaaaa'' 60 True, demo_validator ''nuvex1bbbbbbbbbbbbbbbb'' 500 False,
     demo_validator ''nuvex1cccccccccccccccc'' 40 True]"

text \<open>
  C22: The leader is drawn by stake. With non-negative powers and a positive total \<open>T\<close> of the active
  ones below 2^63, \<open>SelectLeader\<close> maps the seed's remainder modulo \<open>T\<close> to a validator, always an
  active one, and each active validator is chosen for exactly as many of the \<open>T\<close> remainders as
  it has voting power.
\<close>
theorem leader_drawn_by_stake:
  assumes "powers_ok (ce_validators ce)" "T = (\<Sum>v\<leftarrow>ce_validators ce. power v)" "0 < T"
    and "i < length (ce_validators ce)" "v_is_active (ce_validators ce ! i)"
  shows "select_leader p h ce
       = leader_from (word_of_int (uint (leader_seed p h) mod T)) 0 0 (ce_validators ce)
    \<and> (\<exists>j. select_leader p h ce = Some j \<and> j < length (ce_validators ce) \<and> v_is_active (ce_validators ce ! j))
    \<and> int (card {s \<in> {0..<T}. leader_from (word_of_int s) 0 0 (ce_validators ce) = Some i})
       = sint (v_voting_power (ce_validators ce ! i))"
proof -
  let ?vs = "ce_validators ce"
  let ?tot = "active_power ?vs 0"
  let ?slot = "word_of_int (uint (leader_seed p h) mod T) :: i64"
  have T: "T < 2 ^ 63" using assms(1,2) by (simp add: powers_ok_def)
  have tot: "sint ?tot = T" using active_power_sum [OF assms(1), of 0] assms(1,2) by (simp add: powers_ok_def)
  then have u: "uint ?tot = T" using assms(3) uint64_nonneg [of ?tot] by simp
  have slot: "leader_seed p h mod ?tot = ?slot" by (simp add: word_mod_def u)
  have s: "sint ?slot = uint (leader_seed p h) mod T"
    using assms(3) T pos_mod_bound [of T "uint (leader_seed p h)"] pos_mod_sign [of T "uint (leader_seed p h)"]
    by (intro sint64_of_int) linarith+
  obtain j where j: "j < length ?vs" "leader_from ?slot 0 0 ?vs = Some j" "v_is_active (?vs ! j)"
    using leader_from_interval [OF assms(1), of 0 ?slot 0] assms(1-3) s by (auto simp: powers_ok_def)
  have sel: "select_leader p h ce = leader_from ?slot 0 0 ?vs"
    using tot assms(3,4) j(2) by (auto simp: select_leader_def Let_def slot)
  have "int (card {power_before i ?vs..<power_before (Suc i) ?vs}) = power (?vs ! i)"
    using power_before_Suc [OF assms(4)] power_before_mono [OF assms(1), of i "Suc i"] by simp
  then show ?thesis
    using sel j leader_slots [OF assms(1,4,5,2)] assms(5) by (auto simp: power_def)
qed

theorem leader_drawn_by_stake_witness:
  "card {s \<in> {0..<100}. leader_from (word_of_int s) 0 0 demo_validators = Some 2} = 40"
proof -
  have "powers_ok (ce_validators (new_consensus_engine demo_validators))"
    by (simp add: powers_ok_def new_consensus_engine_def demo_validators_def demo_validator_def power_def)
  from leader_drawn_by_stake [OF this refl, of 2 "[]" 1] show ?thesis
    by (simp add: new_consensus_engine_def demo_validators_def demo_validator_def power_def)
qed

text \<open>
  The accounting of a block. When the validators' addresses differ and have at least 16
  characters, \<open>ProcessBlock\<close> succeeds: the mining pool pays the block reward, the fee's burn is
  recorded, and the validators' earnings grow together by that reward plus, for a green leader
  and a positive reward, half a percent that is counted in no pool.
\<close>
theorem process_block_accounting:
  assumes "distinct (map v_address (ce_validators ce))"
    and "\<forall>v\<in>set (ce_validators ce). 16 \<le> length (v_address v)"
    and "select_leader (bytes_of ''prevhash'') h ce = Some i"
  shows "let leader = ce_validators ce ! i; reward = fst (get_block_reward h (ce_mining ce));
             ce' = snd (process_block h fees ce)
     in fst (process_block h fees ce) = Ok ()
      \<and> total_mined (ce_mining ce') = total_mined (ce_mining ce) + reward
      \<and> ce_burn ce' = burn_from_fee fees (ce_burn ce)
      \<and> (\<Sum>v\<leftarrow>ce_validators ce'. v_total_earned v)
          = (\<Sum>v\<leftarrow>ce_validators ce. v_total_earned v) + reward
            + (if v_is_green leader \<and> 0 < sint reward then quot64 (reward * 5) 1000 else 0)"
proof -
  let ?vs = "ce_validators ce"
  let ?l = "?vs ! i"
  have ne: "?vs \<noteq> []" using assms(3) by (auto simp: select_leader_def)
  then have i: "i < length ?vs" using select_leader_some [OF ne, of "bytes_of ''prevhash''" h] assms(3) by simp
  then have len: "16 \<le> length (v_address ?l)" using assms(2) by simp
  obtain r st' where pr: "process_block_reward h (v_address ?l) (ce_mining ce) = (Ok r, st')"
    using process_block_reward_long [OF len, of h "ce_mining ce"] by (metis prod.collapse)
  have r: "r = fst (get_block_reward h (ce_mining ce))"
    using process_block_reward_long [OF len, of h "ce_mining ce"] pr by simp
  have pb: "process_block h fees ce = (Ok (), ce\<lparr>ce_burn := burn_from_fee fees (ce_burn ce), ce_mining := st',
      ce_validators := map (credit_reward (v_address ?l) (green_reward ?l r)) ?vs\<rparr>)"
    using len by (simp add: process_block_def assms(3) pr Let_def slice_ok_def)
  show ?thesis
    using earned_after_credit [OF assms(1) i, of "green_reward ?l r"] process_block_reward_Ok [OF pr]
    by (simp add: pb Let_def r green_reward_def word_sless_alt add.assoc)
qed

theorem process_block_accounting_witness:
  "let ce = new_consensus_engine [green_validator]; ce' = snd (process_block 1 5000 ce)
   in fst (process_block 1 5000 ce) = Ok () \<and> ce_burn ce' = burn_from_fee 5000 new_burn_keeper"
proof -
  let ?ce = "new_consensus_engine [green_validator]"
  have d: "distinct (map v_address (ce_validators ?ce))" "\<forall>v\<in>set (ce_validators ?ce). 16 \<le> length (v_address v)"
    by (simp_all add: new_consensus_engine_def green_validator_def)
  obtain i where "select_leader (bytes_of ''prevhash'') 1 ?ce = Some i"
    using select_leader_some [of ?ce "bytes_of ''prevhash''" 1] by (auto simp: new_consensus_engine_def)
  from process_block_accounting [OF d this, of 5000] show ?thesis
    by (simp add: Let_def new_consensus_engine_def)
qed

text \<open>
  The bonus breaks the cap on what validators earn: a single green validator that produces the
  blocks 1 to 2,000,000 has earned 100.5 million NVX when the pool of 100 million NVX is empty.
\<close>
theorem green_bonus_exceeds_pool:
  "map (\<lambda>v. sint (v_total_earned v)) (ce_validators (green_run green_validator 2000000)) = [100500000000000]
   \<and> sint (total_mined (ce_mining (green_run green_validator 2000000))) = 100000000000000
   \<and> sint (max_mineable (ce_mining (green_run green_validator 2000000))) = 100000000000000"
proof -
  let ?m = "mine_blocks 2000000 (v_address green_validator)"
  have "ce_mining (green_run green_validator 2000000) = ?m"
    "ce_validators (green_run green_validator 2000000) = [green_validator\<lparr>v_total_earned := word_of_nat 2000000 * 50250000\<rparr>]"
    using green_run_state [of 2000000 green_validator] by (simp_all add: green_validator_def)
  moreover have "sint (total_mined ?m) = 100000000000000"
    using mine_blocks_total [of 2000000 "v_address green_validator"] by simp
  moreover have "max_mineable ?m = 100000000000000"
    using mine_blocks_inv [of 2000000 "v_address green_validator"] unfolding mining_inv_def by blast
  ultimately show ?thesis by simp
qed

end
