(* ===== verification/Nuvex_BFT.thy ===== *)
theory Nuvex_BFT
  imports Nuvex_Blockchain Nuvex_Mempool Nuvex_Consensus
begin

text \<open>
  The BFT engine (\<open>x/nvx/keeper/consensus_bft.go\<close>). Its methods take the engine's mutex for one or
  more critical sections, and quorum of PREPARE votes starts a goroutine. Each critical section is
  one operation on the engine's state; what a call still has to do after it released the mutex is a
  task in \<open>bft_tasks\<close>. The step relation runs the operations in any interleaving: rounds started
  by any caller, votes from anyone, pending tasks in any order.
\<close>

section \<open>Data\<close>

datatype phase = NewRound | Propose | Prepare | Commit | Finalized

fun phase_index :: "phase \<Rightarrow> nat" where
  "phase_index NewRound = 0"
| "phase_index Propose = 1"
| "phase_index Prepare = 2"
| "phase_index Commit = 3"
| "phase_index Finalized = 4"

instantiation phase :: linorder
begin

definition less_eq_phase :: "phase \<Rightarrow> phase \<Rightarrow> bool" where
  "less_eq_phase p q = (phase_index p \<le> phase_index q)"

definition less_phase :: "phase \<Rightarrow> phase \<Rightarrow> bool" where
  "less_phase p q = (phase_index p < phase_index q)"

instance
proof
  fix p q :: phase
  show "p \<le> q \<Longrightarrow> q \<le> p \<Longrightarrow> p = q"
    by (cases p; cases q) (simp_all add: less_eq_phase_def)
qed (auto simp: less_eq_phase_def less_phase_def)

end

fun phase_string :: "phase \<Rightarrow> string" where
  "phase_string NewRound = ''NEW_ROUND''"
| "phase_string Propose = ''PROPOSE''"
| "phase_string Prepare = ''PREPARE''"
| "phase_string Commit = ''COMMIT''"
| "phase_string Finalized = ''FINALIZED''"

record vote =
  vt_validator :: string
  vt_block_hash :: string
  vt_height :: i64
  vt_round :: int
  vt_phase :: string
  vt_timestamp :: int

record consensus_round =
  r_height :: i64
  r_round :: int
  r_phase :: phase
  r_leader :: string
  r_proposed :: "block option"
  r_prepare :: "string \<rightharpoonup> vote"
  r_commit :: "string \<rightharpoonup> vote"
  r_start :: int
  r_finalized_at :: "int option"

text \<open>What a call has left to do: propose, cast the proposer's own PREPARE vote for the block just
  proposed, run the goroutine \<open>submitCommitVote\<close>, hand the COMMIT vote it made to
  \<open>ReceiveCommitVote\<close>.\<close>

datatype task = ToPropose | OwnPrepare string i64 | SubmitCommit | OwnCommit vote

record bft_state =
  bft_validators :: "validator list"
  bft_quorum :: int
  bft_round :: "consensus_round option"
  bft_chain :: blockchain
  bft_pool :: mempool
  bft_p2p :: bool
  bft_node :: string
  bft_total :: i64
  bft_failed :: i64
  bft_tasks :: "task list"
  bft_sent :: "block list"

record bft_stats =
  bs_phase :: string
  bs_height :: i64
  bs_round :: int
  bs_leader :: string
  bs_prepare_votes :: int
  bs_commit_votes :: int
  bs_quorum :: int
  bs_total_blocks :: i64
  bs_failed_rounds :: i64
  bs_validator_count :: int

section \<open>Operations\<close>

definition new_bft :: "validator list \<Rightarrow> blockchain \<Rightarrow> mempool \<Rightarrow> bool \<Rightarrow> string \<Rightarrow> bft_state" where
  "new_bft vs bc mp p2p node =
     (let q = (2 * int (length vs)) div 3 + 1 in
      \<lparr>bft_validators = vs, bft_quorum = (if q < 1 then 1 else q), bft_round = None, bft_chain = bc,
       bft_pool = mp, bft_p2p = p2p, bft_node = node, bft_total = 0, bft_failed = 0,
       bft_tasks = [], bft_sent = []\<rparr>)"

text \<open>Without validators the remainder by zero panics.\<close>

definition bft_select_leader :: "i64 \<Rightarrow> int \<Rightarrow> validator list \<Rightarrow> (unit, validator) res" where
  "bft_select_leader height rnd_no vs =
     (let h = sha256 (bytes_of (show_i64 height @ '':'' @ show_int rnd_no @ '':nuvex-1''))
      in if vs = [] then Panic else Ok (vs ! (unat (h ! 0) mod length vs)))"

definition start_round :: "i64 \<Rightarrow> int \<Rightarrow> int \<Rightarrow> bft_state \<Rightarrow> (unit, unit) res \<times> bft_state" where
  "start_round height rnd_no now s =
     (case bft_select_leader height rnd_no (bft_validators s) of
        Ok leader \<Rightarrow>
          (Ok (), s\<lparr>bft_round := Some
               \<lparr>r_height = height, r_round = rnd_no, r_phase = NewRound, r_leader = v_address leader,
                r_proposed = None, r_prepare = Map.empty, r_commit = Map.empty, r_start = now,
                r_finalized_at = None\<rparr>,
             bft_tasks := (if v_address leader = bft_node s then [ToPropose] else []) @ bft_tasks s\<rparr>)
      | _ \<Rightarrow> (Panic, s))"

definition bft_hash_data :: "block \<Rightarrow> string" where
  "bft_hash_data b = show_i64 (b_height b) @ b_prev_hash b @ b_timestamp b @ b_validator b
     @ show_int (b_tx_count b) @ show_i64 (b_mining_reward b) @ b_state_root b"

definition hash_block :: "block \<Rightarrow> string" where
  "hash_block b = sha_hex (bft_hash_data b)"

fun sum_fees :: "pending_tx list \<Rightarrow> i64 \<Rightarrow> i64" where
  "sum_fees [] tot = tot"
| "sum_fees (tx # ts) tot = sum_fees ts (tot + p_fee tx)"

definition proposed_block :: "consensus_round \<Rightarrow> pending_tx list \<Rightarrow> string \<Rightarrow> bft_state \<Rightarrow> block" where
  "proposed_block r ptxs now_str s =
     (let hashes = map p_hash ptxs; fees = sum_fees ptxs 0;
          b = \<lparr>b_height = r_height r, b_hash = '''',
               b_prev_hash = (case get_latest_block (bft_chain s) of None \<Rightarrow> ''GENESIS'' | Some l \<Rightarrow> b_hash l),
               b_timestamp = now_str, b_validator = bft_node s, b_transactions = hashes,
               b_tx_count = int (length hashes), b_total_fees = fees,
               b_burned_amount = quot64 (fees * 10) 10000, b_mining_reward = 50000000,
               b_state_root = calculate_state_root hashes, b_signature = ''''\<rparr>
      in b\<lparr>b_hash := hash_block b\<rparr>)"

text \<open>The locked part of \<open>proposeBlock\<close>; \<open>SelectForBlock(1000)\<close> cannot panic.\<close>

definition propose_block :: "string list \<Rightarrow> int \<Rightarrow> string \<Rightarrow> bft_state \<Rightarrow> bft_state" where
  "propose_block order now now_str s =
     (case bft_round s of
        None \<Rightarrow> s
      | Some r \<Rightarrow>
          let (sel, mp') = select_for_block 1000 order now (bft_pool s);
              ptxs = (case sel of Ok ts \<Rightarrow> ts | _ \<Rightarrow> []);
              b = proposed_block r ptxs now_str s
          in s\<lparr>bft_pool := mp', bft_round := Some (r\<lparr>r_proposed := Some b, r_phase := Propose\<rparr>),
               bft_tasks := OwnPrepare (b_hash b) (b_height b) # bft_tasks s\<rparr>)"

definition votes_count :: "(string \<rightharpoonup> vote) \<Rightarrow> int" where
  "votes_count m = int (card (dom m))"

definition receive_prepare_vote :: "vote \<Rightarrow> bft_state \<Rightarrow> bft_state" where
  "receive_prepare_vote v s =
     (case bft_round s of
        None \<Rightarrow> s
      | Some r \<Rightarrow>
          if vt_height v \<noteq> r_height r then s
          else
            let r1 = r\<lparr>r_prepare := (r_prepare r)(vt_validator v \<mapsto> v), r_phase := Prepare\<rparr>
            in if votes_count (r_prepare r1) \<ge> bft_quorum s
               then s\<lparr>bft_round := Some (r1\<lparr>r_phase := Commit\<rparr>), bft_tasks := SubmitCommit # bft_tasks s\<rparr>
               else s\<lparr>bft_round := Some r1\<rparr>)"

text \<open>The PREPARE vote of the proposer, made after \<open>proposeBlock\<close> released the mutex.\<close>

definition own_prepare :: "string \<Rightarrow> i64 \<Rightarrow> int \<Rightarrow> bft_state \<Rightarrow> bft_state" where
  "own_prepare h height now s =
     receive_prepare_vote
       \<lparr>vt_validator = bft_node s, vt_block_hash = h, vt_height = height,
        vt_round = (case bft_round s of None \<Rightarrow> 0 | Some r \<Rightarrow> r_round r),
        vt_phase = ''PREPARE'', vt_timestamp = now\<rparr> s"

definition submit_commit_vote :: "int \<Rightarrow> bft_state \<Rightarrow> bft_state" where
  "submit_commit_vote now s =
     (case bft_round s of
        None \<Rightarrow> s
      | Some r \<Rightarrow>
          (case r_proposed r of
             None \<Rightarrow> s
           | Some b \<Rightarrow> s\<lparr>bft_tasks := OwnCommit
                 \<lparr>vt_validator = bft_node s, vt_block_hash = b_hash b, vt_height = r_height r,
                  vt_round = r_round r, vt_phase = ''COMMIT'', vt_timestamp = now\<rparr> # bft_tasks s\<rparr>))"

definition block_body_of :: "block \<Rightarrow> string \<Rightarrow> block_body" where
  "block_body_of b now_str =
     \<lparr>bb_validator = b_validator b, bb_tx_hashes = b_transactions b, bb_total_fees = b_total_fees b,
      bb_burned = b_burned_amount b, bb_reward = b_mining_reward b, bb_now = now_str\<rparr>"

definition finalize_block ::
    "(block \<Rightarrow> bytes) \<Rightarrow> int \<Rightarrow> string \<Rightarrow> consensus_round \<Rightarrow> bft_state \<Rightarrow> bft_state" where
  "finalize_block marshal now now_str r s =
     (case r_proposed r of
        None \<Rightarrow> s\<lparr>bft_round := Some r\<rparr>
      | Some b \<Rightarrow>
          s\<lparr>bft_round := Some (r\<lparr>r_finalized_at := Some now, r_phase := Finalized\<rparr>),
            bft_total := bft_total s + 1,
            bft_chain := snd (add_block marshal (block_body_of b now_str) (bft_chain s)),
            bft_sent := (if bft_p2p s then bft_sent s @ [b] else bft_sent s)\<rparr>)"

definition receive_commit_vote ::
    "(block \<Rightarrow> bytes) \<Rightarrow> int \<Rightarrow> string \<Rightarrow> vote \<Rightarrow> bft_state \<Rightarrow> bft_state" where
  "receive_commit_vote marshal now now_str v s =
     (case bft_round s of
        None \<Rightarrow> s
      | Some r \<Rightarrow>
          if vt_height v \<noteq> r_height r then s
          else
            let r1 = r\<lparr>r_commit := (r_commit r)(vt_validator v \<mapsto> v)\<rparr>
            in if votes_count (r_commit r1) \<ge> bft_quorum s \<and> r_phase r1 = Commit
               then finalize_block marshal now now_str r1 s
               else s\<lparr>bft_round := Some r1\<rparr>)"

definition round_timeout :: "bft_state \<Rightarrow> bft_state" where
  "round_timeout s = s\<lparr>bft_failed := bft_failed s + 1\<rparr>"

definition add_validator :: "validator \<Rightarrow> bft_state \<Rightarrow> bft_state" where
  "add_validator v s =
     (let vs = bft_validators s @ [v]
      in s\<lparr>bft_validators := vs, bft_quorum := (2 * int (length vs)) div 3 + 1\<rparr>)"

definition bft_stats_of :: "bft_state \<Rightarrow> bft_stats" where
  "bft_stats_of s =
     (let st = \<lparr>bs_phase = ''IDLE'', bs_height = 0, bs_round = 0, bs_leader = '''', bs_prepare_votes = 0,
                bs_commit_votes = 0, bs_quorum = bft_quorum s, bs_total_blocks = bft_total s,
                bs_failed_rounds = bft_failed s, bs_validator_count = int (length (bft_validators s))\<rparr>
      in case bft_round s of
           None \<Rightarrow> st
         | Some r \<Rightarrow> st\<lparr>bs_phase := phase_string (r_phase r), bs_height := r_height r, bs_round := r_round r,
             bs_leader := r_leader r, bs_prepare_votes := votes_count (r_prepare r),
             bs_commit_votes := votes_count (r_commit r)\<rparr>)"

text \<open>The height of the next round of the \<open>Run\<close> loop, and the test that ends its waiting.\<close>

definition run_height :: "bft_state \<Rightarrow> i64" where
  "run_height s = chain_height (bft_chain s) + 1"

definition round_done :: "bft_state \<Rightarrow> bool" where
  "round_done s = (case bft_round s of None \<Rightarrow> False | Some r \<Rightarrow> r_phase r = Finalized)"

section \<open>Interleavings\<close>

definition without :: "task \<Rightarrow> bft_state \<Rightarrow> bft_state" where
  "without t s = s\<lparr>bft_tasks := remove1 t (bft_tasks s)\<rparr>"

inductive bft_step :: "(block \<Rightarrow> bytes) \<Rightarrow> bft_state \<Rightarrow> bft_state \<Rightarrow> bool" for marshal where
  step_start: "start_round h n now s = (Ok (), s') \<Longrightarrow> bft_step marshal s s'"
| step_propose: "ToPropose \<in> set (bft_tasks s) \<Longrightarrow> enumerates order (pending (bft_pool s)) \<Longrightarrow>
    bft_step marshal s (propose_block order now now_str (without ToPropose s))"
| step_own_prepare: "OwnPrepare h height \<in> set (bft_tasks s) \<Longrightarrow>
    bft_step marshal s (own_prepare h height now (without (OwnPrepare h height) s))"
| step_submit: "SubmitCommit \<in> set (bft_tasks s) \<Longrightarrow>
    bft_step marshal s (submit_commit_vote now (without SubmitCommit s))"
| step_own_commit: "OwnCommit v \<in> set (bft_tasks s) \<Longrightarrow>
    bft_step marshal s (receive_commit_vote marshal now now_str v (without (OwnCommit v) s))"
| step_prepare: "bft_step marshal s (receive_prepare_vote v s)"
| step_commit: "bft_step marshal s (receive_commit_vote marshal now now_str v s)"
| step_timeout: "bft_step marshal s (round_timeout s)"
| step_validator: "bft_step marshal s (add_validator v s)"
| step_submit_tx: "bft_step marshal s (s\<lparr>bft_pool := snd (submit a b amount fee n nano now (bft_pool s))\<rparr>)"
| step_cleanup: "enumerates order (pending (bft_pool s)) \<Longrightarrow>
    bft_step marshal s (s\<lparr>bft_pool := cleanup order now (bft_pool s)\<rparr>)"

inductive_cases bft_stepE: "bft_step marshal s s'"

inductive bft_reachable :: "(block \<Rightarrow> bytes) \<Rightarrow> bft_state \<Rightarrow> bft_state \<Rightarrow> bool" for marshal s0 where
  bft_init: "bft_reachable marshal s0 s0"
| bft_more: "bft_reachable marshal s0 s \<Longrightarrow> bft_step marshal s s' \<Longrightarrow> bft_reachable marshal s0 s'"

section \<open>What each operation leaves alone\<close>

named_theorems bft_frame \<open>fields that an operation of the engine does not change\<close>

lemma without_frame [bft_frame, simp]:
  "bft_chain (without t s) = bft_chain s" "bft_total (without t s) = bft_total s"
  "bft_pool (without t s) = bft_pool s" "bft_round (without t s) = bft_round s"
  "bft_quorum (without t s) = bft_quorum s" "bft_validators (without t s) = bft_validators s"
  "bft_node (without t s) = bft_node s" "bft_p2p (without t s) = bft_p2p s" "bft_sent (without t s) = bft_sent s"
  by (simp_all add: without_def)

lemma start_round_frame [bft_frame]:
  assumes "start_round h n now s = (r, s')"
  shows "bft_chain s' = bft_chain s" "bft_total s' = bft_total s" "bft_pool s' = bft_pool s"
    "bft_quorum s' = bft_quorum s" "bft_validators s' = bft_validators s"
  using assms by (auto simp: start_round_def split: res.splits)

lemma propose_block_frame [bft_frame, simp]:
  "bft_chain (propose_block order now ns s) = bft_chain s" "bft_total (propose_block order now ns s) = bft_total s"
  "bft_quorum (propose_block order now ns s) = bft_quorum s"
  "bft_validators (propose_block order now ns s) = bft_validators s"
  by (auto simp: propose_block_def Let_def split: option.splits prod.splits)

lemma receive_prepare_frame [bft_frame, simp]:
  "bft_chain (receive_prepare_vote v s) = bft_chain s" "bft_total (receive_prepare_vote v s) = bft_total s"
  "bft_pool (receive_prepare_vote v s) = bft_pool s" "bft_quorum (receive_prepare_vote v s) = bft_quorum s"
  "bft_validators (receive_prepare_vote v s) = bft_validators s"
  "bft_node (receive_prepare_vote v s) = bft_node s" "bft_p2p (receive_prepare_vote v s) = bft_p2p s"
  "bft_sent (receive_prepare_vote v s) = bft_sent s"
  by (auto simp: receive_prepare_vote_def Let_def split: option.splits)

lemma own_prepare_frame [bft_frame, simp]:
  "bft_chain (own_prepare h ht now s) = bft_chain s" "bft_total (own_prepare h ht now s) = bft_total s"
  "bft_pool (own_prepare h ht now s) = bft_pool s" "bft_quorum (own_prepare h ht now s) = bft_quorum s"
  "bft_validators (own_prepare h ht now s) = bft_validators s"
  by (simp_all add: own_prepare_def)

lemma submit_commit_frame [bft_frame, simp]:
  "bft_chain (submit_commit_vote now s) = bft_chain s" "bft_total (submit_commit_vote now s) = bft_total s"
  "bft_pool (submit_commit_vote now s) = bft_pool s" "bft_quorum (submit_commit_vote now s) = bft_quorum s"
  "bft_validators (submit_commit_vote now s) = bft_validators s"
  by (auto simp: submit_commit_vote_def split: option.splits)

lemma receive_commit_frame [bft_frame, simp]:
  "bft_pool (receive_commit_vote marshal now ns v s) = bft_pool s"
  "bft_quorum (receive_commit_vote marshal now ns v s) = bft_quorum s"
  "bft_validators (receive_commit_vote marshal now ns v s) = bft_validators s"
  by (auto simp: receive_commit_vote_def finalize_block_def Let_def split: option.splits)

text \<open>The only way to the chain: a COMMIT vote that completes a quorum in the phase COMMIT.\<close>

definition finalizes :: "vote \<Rightarrow> block \<Rightarrow> bft_state \<Rightarrow> bool" where
  "finalizes v b s \<longleftrightarrow> (\<exists>r. bft_round s = Some r \<and> r_proposed r = Some b \<and> r_phase r = Commit
     \<and> vt_height v = r_height r \<and> votes_count ((r_commit r)(vt_validator v \<mapsto> v)) \<ge> bft_quorum s)"

lemma receive_commit_cases:
  obtains (stays) "bft_chain (receive_commit_vote marshal now ns v s) = bft_chain s"
      "bft_total (receive_commit_vote marshal now ns v s) = bft_total s"
  | (appends) b where "finalizes v b s"
      "bft_chain (receive_commit_vote marshal now ns v s) = chain_append marshal (block_body_of b ns) (bft_chain s)"
      "bft_total (receive_commit_vote marshal now ns v s) = bft_total s + 1"
proof (cases "\<exists>b. finalizes v b s")
  case True
  then obtain b where b: "finalizes v b s" ..
  then show ?thesis
    by (intro appends [of b]) (auto simp: finalizes_def receive_commit_vote_def finalize_block_def chain_append_def Let_def)
next
  case False
  then show ?thesis
    by (intro stays) (auto simp: finalizes_def receive_commit_vote_def finalize_block_def Let_def split: option.splits)
qed

lemma finalizes_without [simp]: "finalizes v b (without t s) = finalizes v b s"
  by (simp add: finalizes_def)

lemma bft_step_chain:
  assumes "bft_step marshal s s'"
  shows "(bft_chain s' = bft_chain s \<and> bft_total s' = bft_total s)
    \<or> (\<exists>v b ns. finalizes v b s \<and> bft_chain s' = chain_append marshal (block_body_of b ns) (bft_chain s)
         \<and> bft_total s' = bft_total s + 1)"
  using assms
proof (cases rule: bft_step.cases)
  case (step_own_commit v now ns)
  then show ?thesis
    by (cases rule: receive_commit_cases [of marshal now ns v "without (OwnCommit v) s"]) auto
next
  case (step_commit now ns v)
  then show ?thesis by (cases rule: receive_commit_cases [of marshal now ns v s]) auto
qed (auto simp: bft_frame round_timeout_def add_validator_def Let_def)

lemma bft_step_pool:
  assumes "bft_step marshal s s'" "mempool_wf (bft_pool s)"
  shows "mempool_wf (bft_pool s')"
  using assms(1)
proof (cases rule: bft_step.cases)
  case (step_propose order now ns)
  then show ?thesis
    using assms(2) mempool_wf_select [of "bft_pool s" order 1000 now]
    by (auto simp: propose_block_def Let_def split: option.splits prod.splits)
qed (use assms(2) in \<open>auto simp: bft_frame round_timeout_def add_validator_def Let_def
      intro: mempool_wf_submit mempool_wf_cleanup\<close>)

section \<open>The chain under every interleaving\<close>

text \<open>A run extends the chain by one block per finalization.\<close>

definition grows_from :: "bft_state \<Rightarrow> bft_state \<Rightarrow> bool" where
  "grows_from s0 s \<longleftrightarrow> chain_good (bft_chain s) \<and> mempool_wf (bft_pool s)
     \<and> (\<exists>new. blocks (bft_chain s) = blocks (bft_chain s0) @ new
          \<and> bft_total s = bft_total s0 + of_nat (length new))"

lemma grows_from_step:
  assumes "bft_step marshal s s'" "grows_from s0 s"
  shows "grows_from s0 s'"
proof -
  obtain new where s: "chain_good (bft_chain s)" "mempool_wf (bft_pool s)"
    "blocks (bft_chain s) = blocks (bft_chain s0) @ new" "bft_total s = bft_total s0 + of_nat (length new)"
    using assms(2) by (auto simp: grows_from_def)
  have pool: "mempool_wf (bft_pool s')" by (rule bft_step_pool [OF assms(1) s(2)])
  from bft_step_chain [OF assms(1)] show ?thesis
  proof (elim disjE exE conjE)
    assume "bft_chain s' = bft_chain s" "bft_total s' = bft_total s"
    with s pool show ?thesis by (auto simp: grows_from_def)
  next
    fix v b ns
    assume c: "bft_chain s' = chain_append marshal (block_body_of b ns) (bft_chain s)" "bft_total s' = bft_total s + 1"
    have "blocks (bft_chain s') = blocks (bft_chain s0) @ new @ [next_block (block_body_of b ns) (last (blocks (bft_chain s)))]"
      using chain_log.entries_append [OF s(1)] s(3) by (simp add: c)
    moreover have "chain_good (bft_chain s')" using chain_log.good_append [OF s(1)] by (simp add: c)
    moreover have "bft_total s' = bft_total s0 + of_nat (length (new @ [next_block (block_body_of b ns) (last (blocks (bft_chain s)))]))"
      by (simp add: c s(4))
    ultimately show ?thesis using pool unfolding grows_from_def by blast
  qed
qed

lemma grows_from_reachable:
  assumes "bft_reachable marshal s0 s" "chain_good (bft_chain s0)" "mempool_wf (bft_pool s0)"
  shows "grows_from s0 s"
  using assms(1)
proof (induction rule: bft_reachable.induct)
  case bft_init
  then show ?case using assms(2,3) by (auto simp: grows_from_def)
next
  case (bft_more s s')
  then show ?case by (auto intro: grows_from_step)
qed

section \<open>Quorums\<close>

definition quorum_inv :: "bft_state \<Rightarrow> bool" where
  "quorum_inv s \<longleftrightarrow> bft_quorum s = (2 * int (length (bft_validators s))) div 3 + 1"

lemma quorum_inv_new: "quorum_inv (new_bft vs bc mp p2p node)"
  by (simp add: quorum_inv_def new_bft_def Let_def)

lemma quorum_inv_step: "bft_step marshal s s' \<Longrightarrow> quorum_inv s \<Longrightarrow> quorum_inv s'"
  by (elim bft_stepE) (auto simp: quorum_inv_def bft_frame round_timeout_def add_validator_def Let_def)

lemma quorum_inv_reachable: "bft_reachable marshal s0 s \<Longrightarrow> quorum_inv s0 \<Longrightarrow> quorum_inv s"
  by (induction rule: bft_reachable.induct) (auto intro: quorum_inv_step)

lemma quorum_overlap:
  assumes "q = (2 * int n) div 3 + 1" "A \<subseteq> {..<n}" "B \<subseteq> {..<n}" "q \<le> int (card A)" "q \<le> int (card B)"
  shows "int n < 3 * int (card (A \<inter> B))"
proof -
  have fin: "finite A" "finite B" using assms(2,3) finite_subset by blast+
  have "card (A \<union> B) \<le> card {..<n}" using assms(2,3) by (intro card_mono) auto
  then have "card A + card B \<le> n + card (A \<inter> B)" using card_Un_Int [OF fin] by simp
  then have "2 * q \<le> int n + int (card (A \<inter> B))" using assms(4,5) by linarith
  moreover have "2 * int n \<le> 3 * ((2 * int n) div 3) + 2"
    using mult_div_mod_eq [of 3 "2 * int n"] pos_mod_bound [of 3 "2 * int n"] by linarith
  ultimately show ?thesis using assms(1) by linarith
qed

section \<open>A round\<close>

lemma votes_count_insert:
  "finite (dom m) \<Longrightarrow> votes_count m \<le> votes_count (m(a \<mapsto> v))"
  by (simp add: votes_count_def card_insert_le)

lemma receive_prepare_Some:
  assumes "bft_round s = Some r" "vt_height v = r_height r"
  shows "bft_round (receive_prepare_vote v s) = Some (r\<lparr>r_prepare := (r_prepare r)(vt_validator v \<mapsto> v),
      r_phase := (if votes_count ((r_prepare r)(vt_validator v \<mapsto> v)) \<ge> bft_quorum s then Commit else Prepare)\<rparr>)"
  using assms by (simp add: receive_prepare_vote_def Let_def)

lemma fold_prepare:
  assumes "bft_round s = Some r" "\<forall>v\<in>set vs. vt_height v = r_height r" "vs \<noteq> []"
  shows "\<exists>r'. bft_round (fold receive_prepare_vote vs s) = Some r'
     \<and> dom (r_prepare r') = dom (r_prepare r) \<union> vt_validator ` set vs
     \<and> r_phase r' = (if votes_count (r_prepare r') \<ge> bft_quorum s then Commit else Prepare)"
  using assms
proof (induction vs arbitrary: s r)
  case (Cons v vs)
  note r = receive_prepare_Some [OF Cons.prems(1), of v]
  show ?case
  proof (cases "vs = []")
    case True
    then show ?thesis using r Cons.prems by simp
  next
    case False
    define r1 where "r1 = r\<lparr>r_prepare := (r_prepare r)(vt_validator v \<mapsto> v),
      r_phase := (if votes_count ((r_prepare r)(vt_validator v \<mapsto> v)) \<ge> bft_quorum s then Commit else Prepare)\<rparr>"
    have d: "dom (r_prepare r1) = insert (vt_validator v) (dom (r_prepare r))" "r_height r1 = r_height r"
      by (auto simp: r1_def)
    have "bft_round (receive_prepare_vote v s) = Some r1" using r Cons.prems(2) by (simp add: r1_def)
    from Cons.IH [OF this] Cons.prems(2) False
    obtain r' where "bft_round (fold receive_prepare_vote vs (receive_prepare_vote v s)) = Some r'"
      "dom (r_prepare r') = dom (r_prepare r1) \<union> vt_validator ` set vs"
      "r_phase r' = (if votes_count (r_prepare r') \<ge> bft_quorum s then Commit else Prepare)"
      using d by auto
    then show ?thesis using d by auto
  qed
qed simp

lemma select_1000: "select_for_block 1000 order now mp
    = (Ok (map confirm (take 1000 (candidates order now mp))), remove_all (take 1000 (candidates order now mp)) mp)"
  using select_for_block_eq [of 1000 order now mp] by (simp add: Let_def)

lemma proposal_simps [simp]:
  "b_transactions (proposed_block r ptxs ns s) = map p_hash ptxs" "b_validator (proposed_block r ptxs ns s) = bft_node s"
  "b_height (proposed_block r ptxs ns s) = r_height r" "b_mining_reward (proposed_block r ptxs ns s) = 50000000"
  "b_hash (proposed_block r ptxs ns s) = hash_block (proposed_block r ptxs ns s)"
  by (simp_all add: proposed_block_def Let_def hash_block_def bft_hash_data_def)

lemma p_hash_confirm [simp]: "map (p_hash \<circ> confirm) ts = map p_hash ts"
  by (simp add: confirm_def)

text \<open>The five steps of a round whose only validator is this node.\<close>

lemma single_round:
  assumes "bft_validators s = [v]" "v_address v = bft_node s" "bft_quorum s = 1" "bft_tasks s = []"
    and "enumerates order (pending (bft_pool s))" "blocks (bft_chain s) \<noteq> []"
  shows "\<exists>s'. bft_reachable marshal s s' \<and> round_done s' \<and> bft_tasks s' = []
    \<and> bft_pool s' = remove_all (take 1000 (candidates order now (bft_pool s))) (bft_pool s)
    \<and> bft_total s' = bft_total s + 1
    \<and> (\<exists>body. bb_tx_hashes body = map p_hash (take 1000 (candidates order now (bft_pool s)))
        \<and> bb_validator body = bft_node s
        \<and> blocks (bft_chain s') = blocks (bft_chain s) @ [next_block body (last (blocks (bft_chain s)))])"
proof -
  let ?ts = "take 1000 (candidates order now (bft_pool s))"
  let ?h = "run_height s"
  define r0 where "r0 = \<lparr>r_height = ?h, r_round = 0, r_phase = NewRound, r_leader = bft_node s,
       r_proposed = None, r_prepare = Map.empty, r_commit = Map.empty, r_start = 0, r_finalized_at = None\<rparr>"
  define s1 where "s1 = s\<lparr>bft_round := Some r0, bft_tasks := [ToPropose]\<rparr>"
  have e1: "start_round ?h 0 0 s = (Ok (), s1)"
    using assms(1,2,4) by (simp add: start_round_def bft_select_leader_def Let_def s1_def r0_def)
  define b where "b = proposed_block r0 (map confirm ?ts) [] (without ToPropose s1)"
  define s2 where "s2 = propose_block order now [] (without ToPropose s1)"
  have s2: "s2 = s\<lparr>bft_pool := remove_all ?ts (bft_pool s), bft_round := Some (r0\<lparr>r_proposed := Some b, r_phase := Propose\<rparr>),
      bft_tasks := [OwnPrepare (b_hash b) ?h]\<rparr>"
    unfolding s2_def propose_block_def
    by (simp add: without_def s1_def select_1000 b_def Let_def r0_def)
  define s3 where "s3 = own_prepare (b_hash b) ?h 0 (without (OwnPrepare (b_hash b) ?h) s2)"
  have s3: "\<exists>w. bft_round s3 = Some (r0\<lparr>r_proposed := Some b, r_phase := Commit, r_prepare := w\<rparr>)"
    "bft_tasks s3 = [SubmitCommit]" "bft_node s3 = bft_node s" "bft_pool s3 = remove_all ?ts (bft_pool s)"
    "bft_quorum s3 = 1" "bft_chain s3 = bft_chain s" "bft_total s3 = bft_total s"
    using assms(3)
    by (auto simp: s3_def own_prepare_def receive_prepare_vote_def without_def s2 r0_def votes_count_def Let_def)
  then obtain w where r3: "bft_round s3 = Some (r0\<lparr>r_proposed := Some b, r_phase := Commit, r_prepare := w\<rparr>)" by blast
  define cv where "cv = \<lparr>vt_validator = bft_node s, vt_block_hash = b_hash b, vt_height = ?h,
                  vt_round = 0, vt_phase = ''COMMIT'', vt_timestamp = 0\<rparr>"
  define s4 where "s4 = submit_commit_vote 0 (without SubmitCommit s3)"
  have s4: "s4 = s3\<lparr>bft_tasks := [OwnCommit cv]\<rparr>"
    using s3(2,3) by (simp add: s4_def submit_commit_vote_def without_def r3 cv_def r0_def)
  define s5 where "s5 = receive_commit_vote marshal 0 [] cv (without (OwnCommit cv) s4)"
  have s5: "round_done s5" "bft_tasks s5 = []" "bft_pool s5 = bft_pool s3" "bft_total s5 = bft_total s + 1"
    "bft_chain s5 = chain_append marshal (block_body_of b []) (bft_chain s)"
    using s3(5-7)
    by (simp_all add: s5_def s4 receive_commit_vote_def without_def r3 cv_def r0_def votes_count_def
        finalize_block_def round_done_def chain_append_def Let_def)
  have st: "bft_step marshal s s1" "bft_step marshal s1 s2" "bft_step marshal s2 s3"
    "bft_step marshal s3 s4" "bft_step marshal s4 s5"
    subgoal by (rule step_start [OF e1])
    subgoal unfolding s2_def by (rule step_propose) (use assms(5) in \<open>simp_all add: s1_def\<close>)
    subgoal unfolding s3_def by (rule step_own_prepare) (simp add: s2)
    subgoal unfolding s4_def by (rule step_submit) (simp add: s3)
    subgoal unfolding s5_def by (rule step_own_commit) (simp add: s4)
    done
  have "bft_reachable marshal s s5"
    by (rule bft_more [OF bft_more [OF bft_more [OF bft_more [OF bft_more [OF bft_init st(1)] st(2)] st(3)] st(4)] st(5)])
  moreover have "blocks (bft_chain s5) = blocks (bft_chain s) @ [next_block (block_body_of b []) (last (blocks (bft_chain s)))]"
    using s5(5) blocks_chain_append [OF assms(6)] by simp
  moreover have "bb_tx_hashes (block_body_of b []) = map p_hash ?ts" "bb_validator (block_body_of b []) = bft_node s"
    by (simp_all add: block_body_of_def b_def s1_def comp_def confirm_def)
  ultimately show ?thesis using s5 s3(4) by metis
qed

lemma bft_hash_text_differs: "hash_data b \<noteq> bft_hash_data b"
proof
  assume "hash_data b = bft_hash_data b"
  then have "length (hash_data b) = length (bft_hash_data b)" by simp
  then have "show_i64 (b_total_fees b) = []" by (simp add: hash_data_def bft_hash_data_def)
  then show False by (simp add: show_i64_def show_int_def split: if_splits)
qed

section \<open>Properties\<close>

definition demo_node :: validator where
  "demo_node = demo_validator ''nuvex1aaaaaaaaaaaaaaaa'' 60 True"

definition demo_bft :: "bft_state" where
  "demo_bft = new_bft [demo_node] (grown_chain (\<lambda>_. [1]) (\<lambda>_. None) []) demo_pool True (v_address demo_node)"

lemma demo_bft_fields:
  "bft_validators demo_bft = [demo_node]" "v_address demo_node = bft_node demo_bft" "bft_quorum demo_bft = 1"
  "bft_tasks demo_bft = []" "bft_pool demo_bft = demo_pool" "chain_good (bft_chain demo_bft)"
  "blocks (bft_chain demo_bft) \<noteq> []" "quorum_inv demo_bft" "bft_total demo_bft = 0"
  using grown_chain_good [of "\<lambda>_. [1]" "\<lambda>_. None" "[]"]
  by (simp_all add: demo_bft_def quorum_inv_new) (simp_all add: new_bft_def chain_good_def)

text \<open>A vote, and an engine with one validator and a finalized round.\<close>

definition demo_vote :: "string \<Rightarrow> i64 \<Rightarrow> vote" where
  "demo_vote a h = \<lparr>vt_validator = a, vt_block_hash = ''no such block'', vt_height = h, vt_round = 7,
     vt_phase = ''PREPARE'', vt_timestamp = 0\<rparr>"

definition demo_round :: "phase \<Rightarrow> consensus_round" where
  "demo_round ph = \<lparr>r_height = 1, r_round = 0, r_phase = ph, r_leader = v_address demo_node,
     r_proposed = Some (next_block demo_body genesis_header), r_prepare = [''x'' \<mapsto> demo_vote ''x'' 1],
     r_commit = [''x'' \<mapsto> demo_vote ''x'' 1], r_start = 0, r_finalized_at = Some 0\<rparr>"

text \<open>
  C19: Whatever rounds are started, whatever votes arrive from whomever and however the pending tasks
  interleave, the chain of the BFT engine stays valid and keeps every block it had, its counter
  of finalized blocks is the number of blocks appended (modulo 2^64), and the mempool keeps its
  invariant.
\<close>
theorem bft_extends_valid_chain:
  assumes "bft_reachable marshal s0 s" "chain_good (bft_chain s0)" "mempool_wf (bft_pool s0)"
  shows "validate_chain (bft_chain s) = Ok () \<and> mempool_wf (bft_pool s)
    \<and> (\<exists>new. blocks (bft_chain s) = blocks (bft_chain s0) @ new
         \<and> bft_total s = bft_total s0 + of_nat (length new))"
  using grows_from_reachable [OF assms] by (auto simp: grows_from_def chain_good_def)

theorem bft_extends_valid_chain_witness:
  "\<exists>s. bft_reachable (\<lambda>_. [1]) demo_bft s \<and> round_done s \<and> validate_chain (bft_chain s) = Ok ()"
proof -
  obtain s where s: "bft_reachable (\<lambda>_. [1]) demo_bft s" "round_done s"
    using single_round [OF demo_bft_fields(1-4) _ demo_bft_fields(7), of "[''a'', ''b'', ''c'']" "\<lambda>_. [1]" 0]
      demo_pool_wf(2) demo_bft_fields(5) by auto
  then show ?thesis
    using bft_extends_valid_chain [OF s(1) demo_bft_fields(6)] demo_pool_wf(1) demo_bft_fields(5) by auto
qed





text \<open>
  A finalized round can be finalized again: one more PREPARE vote for its height takes it back to
  the phase COMMIT, and one more COMMIT vote appends its transactions to the chain a second time.
  Neither vote has to come from a new voter.
\<close>
theorem late_votes_finalize_twice:
  assumes "bft_round s = Some r" "r_phase r = Finalized" "r_proposed r = Some b" "blocks (bft_chain s) \<noteq> []"
    and "finite (dom (r_prepare r))" "bft_quorum s \<le> votes_count (r_prepare r)"
    and "finite (dom (r_commit r))" "bft_quorum s \<le> votes_count (r_commit r)"
    and "vt_height v = r_height r" "vt_height w = r_height r"
  shows "let s1 = receive_prepare_vote v s; s2 = receive_commit_vote marshal now ns w s1
    in map_option r_phase (bft_round s1) = Some Commit \<and> round_done s2 \<and> bft_total s2 = bft_total s + 1
     \<and> (\<exists>c. blocks (bft_chain s2) = blocks (bft_chain s) @ [c] \<and> b_transactions c = b_transactions b)"
proof -
  have p: "bft_quorum s \<le> votes_count ((r_prepare r)(vt_validator v \<mapsto> v))"
    using votes_count_insert [OF assms(5)] assms(6) by (rule order_trans [rotated])
  have q: "bft_quorum s \<le> votes_count ((r_commit r)(vt_validator w \<mapsto> w))"
    using votes_count_insert [OF assms(7)] assms(8) by (rule order_trans [rotated])
  define r1 where "r1 = r\<lparr>r_prepare := (r_prepare r)(vt_validator v \<mapsto> v), r_phase := Commit\<rparr>"
  have s1: "bft_round (receive_prepare_vote v s) = Some r1"
    using receive_prepare_Some [OF assms(1,9)] p by (simp add: r1_def)
  have r1: "r_phase r1 = Commit" "r_proposed r1 = Some b" "r_commit r1 = r_commit r" "r_height r1 = r_height r"
    using assms(3) by (simp_all add: r1_def)
  show ?thesis
    using assms(4,10) q
    by (simp add: s1 r1 receive_commit_vote_def finalize_block_def round_done_def add_block_def Let_def
        next_block_def block_body_of_def)
qed

theorem late_votes_finalize_twice_witness:
  "let s = demo_bft\<lparr>bft_round := Some (demo_round Finalized)\<rparr>;
       s2 = receive_commit_vote (\<lambda>_. [1]) 0 [] (demo_vote ''x'' 1) (receive_prepare_vote (demo_vote ''x'' 1) s)
   in \<exists>c. blocks (bft_chain s2) = blocks (bft_chain s) @ [c] \<and> b_transactions c = [''0xab'']"
proof -
  let ?s = "demo_bft\<lparr>bft_round := Some (demo_round Finalized)\<rparr>"
  have r: "bft_round ?s = Some (demo_round Finalized)" by simp
  show ?thesis
    using late_votes_finalize_twice [OF r, of "next_block demo_body genesis_header" "demo_vote ''x'' 1" "demo_vote ''x'' 1" "\<lambda>_. [1]" 0 "[]"]
      demo_bft_fields(3,7)
    by (simp add: demo_round_def votes_count_def demo_vote_def next_block_def demo_body_def Let_def)
qed

text \<open>
  The engine does not check who votes or for what: PREPARE votes for the current height under any
  distinct names, validators or not, with any block hash and any round number, bring a round to
  the phase COMMIT as soon as there are as many names as the quorum asks for.
\<close>
theorem strangers_reach_quorum:
  assumes "bft_round s = Some r" "finite (dom (r_prepare r))" "distinct (map vt_validator votes)"
    and "\<forall>v\<in>set votes. vt_height v = r_height r" "votes \<noteq> []" "bft_quorum s \<le> int (length votes)"
  shows "map_option r_phase (bft_round (fold receive_prepare_vote votes s)) = Some Commit"
proof -
  obtain r' where r': "bft_round (fold receive_prepare_vote votes s) = Some r'"
    "dom (r_prepare r') = dom (r_prepare r) \<union> vt_validator ` set votes"
    "r_phase r' = (if votes_count (r_prepare r') \<ge> bft_quorum s then Commit else Prepare)"
    using fold_prepare [OF assms(1,4,5)] by blast
  have "card (vt_validator ` set votes) = length votes" using assms(3) by (metis distinct_card length_map set_map)
  moreover have "card (vt_validator ` set votes) \<le> card (dom (r_prepare r'))"
    unfolding r'(2) using assms(2) by (intro card_mono) auto
  ultimately show ?thesis using r' assms(6) by (simp add: votes_count_def)
qed

theorem strangers_reach_quorum_witness:
  "map_option r_phase (bft_round (fold receive_prepare_vote [demo_vote ''mallory'' 1]
      (demo_bft\<lparr>bft_round := Some (demo_round NewRound)\<rparr>))) = Some Commit"
  by (rule strangers_reach_quorum [where r = "demo_round NewRound"])
    (simp_all add: demo_round_def demo_vote_def demo_bft_fields)

text \<open>
  The block that is broadcast carries the hash of a text without the total fees, never the text
  that \<open>ValidateChain\<close> hashes: after any block it is rejected for its hash, unless these two
  different texts have the same SHA-256 digest.
\<close>
theorem broadcast_block_hash_differs:
  "let b = proposed_block r ptxs now_str s
    in b_hash b = sha_hex (bft_hash_data b) \<and> bft_hash_data b \<noteq> hash_data b
     \<and> (check_link prev b = Some (BadHash (r_height r)) \<or> sha_hex (bft_hash_data b) = sha_hex (hash_data b))"
  using bft_hash_text_differs [of "proposed_block r ptxs now_str s"]
  by (auto simp: Let_def check_link_def hash_block_def calculate_hash_def)

text \<open>
  In every reachable state, any two quorums of the validators share more than a third of them, also
  after validators have been added.
\<close>
theorem quorums_overlap:
  assumes "bft_reachable marshal (new_bft vs bc mp p2p node) s"
    and "A \<subseteq> {..<length (bft_validators s)}" "B \<subseteq> {..<length (bft_validators s)}"
    and "bft_quorum s \<le> int (card A)" "bft_quorum s \<le> int (card B)"
  shows "length (bft_validators s) < 3 * card (A \<inter> B)"
  using quorum_overlap [OF _ assms(2-5)] quorum_inv_reachable [OF assms(1) quorum_inv_new]
  by (simp add: quorum_inv_def)

theorem quorums_overlap_witness:
  "let s = add_validator demo_node (add_validator demo_node demo_bft)
   in length (bft_validators s) < 3 * card ({0, 1, 2} \<inter> {0, 1, 2 :: nat})"
proof -
  let ?s = "add_validator demo_node (add_validator demo_node demo_bft)"
  have "bft_reachable (\<lambda>_. [1]) demo_bft ?s"
    by (rule bft_more [OF bft_more [OF bft_init step_validator] step_validator])
  then show ?thesis
    using quorums_overlap [of "\<lambda>_. [1]" "[demo_node]" _ _ _ _ ?s "{0, 1, 2}" "{0, 1, 2}"] demo_bft_fields(1)
    unfolding demo_bft_def by (simp add: add_validator_def Let_def new_bft_def lessThan_Suc)
qed

end
