(* ===== verification/Nuvex_Staking.thy ===== *)
theory Nuvex_Staking
  imports Nuvex_State Nuvex_Float64
begin

text \<open>
  The staking keeper (\<open>x/nvx/keeper/staking.go\<close>): positions, staking and unstaking against the
  balances of the state keeper, and rewards in floating point. Times are nanoseconds. The balance
  check and the debit of \<open>Stake\<close> are two critical sections of the state's mutex: the argument
  \<open>mid\<close> is what other goroutines do to the state between them.
\<close>

section \<open>Data\<close>

definition base_apy :: f64 where
  "base_apy = mk (1 / 10)"

definition green_bonus :: f64 where
  "green_bonus = mk (5 / 1000)"

definition min_stake :: u64 where
  "min_stake = 100000000"

record stake_position =
  sp_id :: string
  sp_owner :: string
  sp_amount :: u64
  sp_start :: int
  sp_last :: int
  sp_rewards :: u64
  sp_green :: bool
  sp_active :: bool

type_synonym positions = "string \<rightharpoonup> stake_position"

record staking_stats =
  ss_total_staked :: u64
  ss_total_stakers :: int
  ss_total_rewards_paid :: u64
  ss_base_apy :: f64
  ss_green_apy :: f64
  ss_min_stake :: u64

datatype staking_error =
    BelowMinStake u64
  | StakeInsufficient u64 u64
  | PositionNotFound
  | NotYourPosition
  | PositionInactive

definition new_staking :: positions where
  "new_staking = Map.empty"

section \<open>Rewards\<close>

text \<open>\<open>Duration.Hours\<close>: whole hours plus the rest, as \<open>float64\<close>.\<close>

definition duration_hours :: "int \<Rightarrow> f64" where
  "duration_hours d =
     fadd (f64_of_int (d sdiv 3600000000000))
       (fdiv (f64_of_int (d smod 3600000000000)) (Fin 3600000000000))"

definition position_apy :: "stake_position \<Rightarrow> f64" where
  "position_apy p = (if sp_green p then fadd base_apy green_bonus else base_apy)"

text \<open>The product both \<open>calculateRewards\<close> and \<open>PendingRewards\<close> compute; the product is taken
  from the left.\<close>

definition accrued :: "int \<Rightarrow> stake_position \<Rightarrow> u64" where
  "accrued now p =
     (let daily_rate = fdiv (position_apy p) (Fin 365);
          days = fdiv (duration_hours (time_sub now (sp_last p))) (Fin 24);
          rewards = fmul (fmul (f64_of_int (uint (sp_amount p))) daily_rate) days
      in u64_of_f64 (ffloor rewards))"

text \<open>\<open>calculateRewards\<close>. Its log line abbreviates the owner to 10 bytes, as making the position's
  ID did.\<close>

definition calculate_rewards :: "int \<Rightarrow> stake_position \<Rightarrow> u64 \<times> stake_position" where
  "calculate_rewards now p =
     (let r = accrued now p
      in (r, if 0 < r then p\<lparr>sp_rewards := sp_rewards p + r, sp_last := now\<rparr> else p))"

section \<open>Staking and unstaking\<close>

definition stake ::
    "string \<Rightarrow> u64 \<Rightarrow> bool \<Rightarrow> int \<Rightarrow> int \<Rightarrow> int \<Rightarrow> (state_keeper \<Rightarrow> state_keeper)
       \<Rightarrow> positions \<times> state_keeper \<Rightarrow> (staking_error, stake_position) res \<times> positions \<times> state_keeper" where
  "stake owner amount is_green nano start_time last_reward mid ps_st =
     (let (ps, st) = ps_st in
      if amount < min_stake then (Err (BelowMinStake amount), ps, st)
      else let balance = get_balance owner st in
      if balance < amount then (Err (StakeInsufficient balance amount), ps, st)
      else let st1 = mid st in
      if owner \<notin> dom (accounts st1) then (Panic, ps, st1)
      else let st2 = adjust_balance owner (- amount) st1 in
      if \<not> slice_ok 10 owner then (Panic, ps, st2)
      else
        let i = take 10 owner @ ''_'' @ show_int nano;
            p = \<lparr>sp_id = i, sp_owner = owner, sp_amount = amount, sp_start = start_time,
                 sp_last = last_reward, sp_rewards = 0, sp_green = is_green, sp_active = True\<rparr>
        in (Ok p, ps(i \<mapsto> p), st2))"

definition unstake ::
    "string \<Rightarrow> string \<Rightarrow> int \<Rightarrow> positions \<times> state_keeper
       \<Rightarrow> (staking_error, stake_position) res \<times> positions \<times> state_keeper" where
  "unstake owner i now ps_st =
     (let (ps, st) = ps_st in
      case ps i of
        None \<Rightarrow> (Err PositionNotFound, ps, st)
      | Some p \<Rightarrow>
          if sp_owner p \<noteq> owner then (Err NotYourPosition, ps, st)
          else if \<not> sp_active p then (Err PositionInactive, ps, st)
          else
            let p1 = snd (calculate_rewards now p);
                total_return = sp_amount p1 + sp_rewards p1
            in if owner \<notin> dom (accounts st) then (Panic, ps(i \<mapsto> p1), st)
               else let p2 = p1\<lparr>sp_active := False\<rparr>
                    in (if slice_ok 10 owner then Ok p2 else Panic,
                        ps(i \<mapsto> p2), adjust_balance owner total_return st))"

text \<open>One tick of \<open>rewardLoop\<close>: the positions in the order of the range, each with its clock
  reading.\<close>

definition reward_one :: "string \<times> int \<Rightarrow> positions \<Rightarrow> positions" where
  "reward_one = (\<lambda>(i, now) ps. case ps i of
       None \<Rightarrow> ps
     | Some p \<Rightarrow> if sp_active p then ps(i \<mapsto> snd (calculate_rewards now p)) else ps)"

definition reward_tick :: "(string \<times> int) list \<Rightarrow> positions \<Rightarrow> positions" where
  "reward_tick order ps = fold reward_one order ps"

section \<open>Queries\<close>

definition get_position :: "string \<Rightarrow> positions \<Rightarrow> (staking_error, stake_position) res" where
  "get_position i ps = (case ps i of None \<Rightarrow> Err PositionNotFound | Some p \<Rightarrow> Ok p)"

definition positions_by_owner :: "string \<Rightarrow> string list \<Rightarrow> positions \<Rightarrow> stake_position list" where
  "positions_by_owner owner order ps = filter (\<lambda>p. sp_owner p = owner) (range_values order ps)"

fun staking_sums :: "stake_position list \<Rightarrow> staking_stats \<Rightarrow> staking_stats" where
  "staking_sums [] st = st"
| "staking_sums (p # ps) st =
     (let st1 = (if sp_active p
                 then st\<lparr>ss_total_staked := ss_total_staked st + sp_amount p,
                         ss_total_stakers := ss_total_stakers st + 1\<rparr>
                 else st)
      in staking_sums ps (st1\<lparr>ss_total_rewards_paid := ss_total_rewards_paid st1 + sp_rewards p\<rparr>))"

text \<open>The green APY is a constant expression, so it is the exact sum rounded once.\<close>

definition staking_stats_of :: "string list \<Rightarrow> positions \<Rightarrow> staking_stats" where
  "staking_stats_of order ps =
     staking_sums (range_values order ps)
       \<lparr>ss_total_staked = 0, ss_total_stakers = 0, ss_total_rewards_paid = 0, ss_base_apy = base_apy,
        ss_green_apy = mk (105 / 1000), ss_min_stake = min_stake\<rparr>"

definition pending_rewards :: "string \<Rightarrow> int \<Rightarrow> positions \<Rightarrow> u64" where
  "pending_rewards i now ps =
     (case ps i of None \<Rightarrow> 0 | Some p \<Rightarrow> if sp_active p then accrued now p else 0)"

section \<open>Accuracy\<close>

lemma duration_hours_rel:
  assumes "0 \<le> d" "d < 2 ^ 63"
  shows "\<exists>h. duration_hours d = Fin h \<and> rel 2 h (of_int d / 3600000000000)"
proof -
  let ?q = "d div 3600000000000" and ?n = "d mod 3600000000000"
  have q: "0 \<le> ?q" "?q \<le> 2562047"
  proof -
    show "0 \<le> ?q" using assms(1) by (simp add: pos_imp_zdiv_nonneg_iff)
    have "?q \<le> (2 ^ 63 - 1) div 3600000000000" using assms(2) by (intro zdiv_mono1) simp_all
    then show "?q \<le> 2562047" by simp
  qed
  have n: "0 \<le> ?n" "?n < 3600000000000" by simp_all
  have f: "f64_of_int ?q = Fin (of_int ?q)" "f64_of_int ?n = Fin (of_int ?n)"
    using q n by (simp_all add: f64_of_int_exact)
  have n': "(of_int ?n :: rat) = 0 \<or> (1 :: rat) \<le> of_int ?n" "(of_int ?n :: rat) < of_int 3600000000000"
    using n by (auto simp only: of_int_less_iff) (metis int_one_le_iff_zero_less of_int_0 of_int_1_le_iff order_le_less)
  have y1: "of_int ?n / 3600000000000 = (0 :: rat) \<or> 1 / 10 ^ 29 \<le> (of_int ?n / 3600000000000 :: rat)"
    using n'(1) by auto
  have r1: "rel 0 (of_int ?n / 3600000000000) (of_int ?n / 3600000000000)" using n by (intro rel_refl) simp
  have le1: "(of_int ?n / 3600000000000 :: rat) \<le> 2 ^ 60" using n'(2) by simp
  note m1 = mk_rel_small [OF r1 _ y1 le1, simplified]
  have "rel 1 (of_int ?q + rnd (of_int ?n / 3600000000000)) (of_int ?q + of_int ?n / 3600000000000)"
    using m1(2) q rel_mono [OF rel_refl [of "of_int ?q"], of 1] by (intro rel_add) simp_all
  also have "(of_int ?q + of_int ?n / 3600000000000 :: rat) = of_int d / 3600000000000"
  proof -
    have "(of_int d :: rat) = of_int (3600000000000 * ?q + ?n)" by (simp only: mult_div_mod_eq)
    also have "\<dots> = 3600000000000 * of_int ?q + of_int ?n" by (simp only: of_int_add of_int_mult of_int_numeral)
    finally have d: "(of_int d :: rat) = 3600000000000 * of_int ?q + of_int ?n" .
    show ?thesis unfolding d add_divide_distrib by simp
  qed
  finally have r2: "rel 1 (of_int ?q + rnd (of_int ?n / 3600000000000)) (of_int d / 3600000000000)" .
  have "(of_int d :: rat) = 0 \<or> (1 :: rat) \<le> of_int d"
    using assms(1) by (metis int_one_le_iff_zero_less of_int_0 of_int_1_le_iff order_le_less)
  then have y2: "of_int d / 3600000000000 = (0 :: rat) \<or> 1 / 10 ^ 29 \<le> (of_int d / 3600000000000 :: rat)"
    by auto
  have "(of_int d :: rat) < of_int (2 ^ 63)" using assms(2) by (simp only: of_int_less_iff)
  then have le2: "(of_int d / 3600000000000 :: rat) \<le> 2 ^ 60" by simp
  show ?thesis
    using mk_rel_small [OF r2 _ y2 le2] assms(1) f m1(1)
    by (simp add: duration_hours_def sdiv_smod_pos numeral_2_eq_2)
qed

lemma u64_of_floor:
  assumes "0 \<le> r" "r \<le> 2 ^ 62"
  shows "u64_of_f64 (ffloor (Fin r)) = word_of_int \<lfloor>r\<rfloor>"
proof -
  have "0 \<le> \<lfloor>r\<rfloor>" using assms(1) by simp
  then have z: "(0 :: rat) \<le> of_int \<lfloor>r\<rfloor>" by (simp only: of_int_0_le_iff)
  have "(2 :: rat) ^ 62 < 2 ^ 64" by simp
  then have hi: "of_int \<lfloor>r\<rfloor> < (2 ^ 64 :: rat)" using of_int_floor_le [of r] assms(2) by linarith
  have "- (2 ^ 63) \<le> (0 :: rat)" by simp
  then have lo: "- (2 ^ 63) \<le> (of_int \<lfloor>r\<rfloor> :: rat)" using z by (rule order_trans)
  show ?thesis
    using z lo hi by (simp only: ffloor.simps u64_of_f64.simps trunc_def floor_of_int simp_thms if_True)
qed

text \<open>The exact reward: amount times yearly rate times the part of a year of 365 days.\<close>

definition exact_reward :: "stake_position \<Rightarrow> int \<Rightarrow> rat" where
  "exact_reward p d =
     of_int (uint (sp_amount p)) * (if sp_green p then 105 / 1000 else 1 / 10) * (of_int d / 31536000000000000)"

lemma apy_rel:
  "\<exists>r. position_apy p = Fin r \<and> rel 2 r (if sp_green p then 105 / 1000 else 1 / 10)"
proof -
  have b: "base_apy = Fin (rnd (1 / 10))" "rel 1 (rnd (1 / 10)) (1 / 10)"
    using mk_rel_small [OF rel_refl [of "1 / 10"]] by (simp_all add: base_apy_def)
  have g: "green_bonus = Fin (rnd (5 / 1000))" "rel 1 (rnd (5 / 1000)) (5 / 1000)"
    using mk_rel_small [OF rel_refl [of "5 / 1000"]] by (simp_all add: green_bonus_def)
  have s: "rel 1 (rnd (1 / 10) + rnd (5 / 1000)) (105 / 1000)"
    using rel_add [OF b(2) g(2)] by simp
  have f: "fadd base_apy green_bonus = Fin (rnd (rnd (1 / 10) + rnd (5 / 1000)))"
    "rel 2 (rnd (rnd (1 / 10) + rnd (5 / 1000))) (105 / 1000)"
    using mk_rel_small [OF s] by (simp_all add: b(1) g(1) numeral_2_eq_2)
  show ?thesis
  proof (cases "sp_green p")
    case True
    with f show ?thesis by (intro exI) (simp add: position_apy_def)
  next
    case False
    have "rel 2 (rnd (1 / 10)) (1 / 10)" using b(2) by (rule rel_mono) simp
    with False b(1) show ?thesis by (intro exI) (simp add: position_apy_def)
  qed
qed

lemma int_rat_cases: "0 \<le> n \<Longrightarrow> (of_int n :: rat) = 0 \<or> 1 \<le> (of_int n :: rat)"
  by (metis int_one_le_iff_zero_less of_int_0 of_int_1_le_iff order_le_less)

lemma accrued_rel:
  assumes "sp_last p \<le> now" "now - sp_last p < 2 ^ 63" "uint (sp_amount p) \<le> 2 ^ 53"
  shows "\<exists>r. rel 8 r (exact_reward p (now - sp_last p)) \<and> r \<le> 2 ^ 62 \<and> accrued now p = word_of_int \<lfloor>r\<rfloor>"
proof -
  define A where "A = uint (sp_amount p)"
  have A: "0 \<le> A" "A \<le> 2 ^ 53" using assms(3) by (simp_all add: A_def)
  let ?d = "now - sp_last p" and ?a = "of_int A :: rat"
  let ?q = "if sp_green p then 105 / 1000 else 1 / 10 :: rat"
  have d: "time_sub now (sp_last p) = ?d" using assms(1,2) by (simp add: time_sub_def)
  obtain apy where apy: "position_apy p = Fin apy" "rel 2 apy ?q" using apy_rel by blast
  have rate: "fdiv (position_apy p) (Fin 365) = Fin (rnd (apy / 365))" "rel 3 (rnd (apy / 365)) (?q / 365)"
    using mk_rel_small [OF rel_divide [OF apy(2), of 365]] apy(1) by (simp_all add: numeral_3_eq_3 numeral_2_eq_2)
  obtain h where h: "duration_hours ?d = Fin h" "rel 2 h (of_int ?d / 3600000000000)"
    using duration_hours_rel [of ?d] assms(1,2) by auto
  have dd: "(of_int ?d :: rat) = 0 \<or> 1 \<le> (of_int ?d :: rat)" "(of_int ?d :: rat) \<le> of_int (2 ^ 63)"
    using int_rat_cases [of ?d] assms(1,2) by (simp_all only: of_int_le_iff diff_ge_0_iff_ge)
  have y24: "of_int ?d / 3600000000000 / 24 = (0 :: rat) \<or> 1 / 10 ^ 29 \<le> (of_int ?d / 3600000000000 / 24 :: rat)"
    "of_int ?d / 3600000000000 / 24 \<le> (2 ^ 60 :: rat)"
    using dd by auto
  have days: "fdiv (duration_hours ?d) (Fin 24) = Fin (rnd (h / 24))" "rel 3 (rnd (h / 24)) (of_int ?d / 3600000000000 / 24)"
    using mk_rel_small [OF rel_divide [OF h(2), of 24] _ y24] h(1) by (simp_all add: numeral_3_eq_3 numeral_2_eq_2)
  have a: "f64_of_int A = Fin ?a" "rel 0 ?a ?a" "?a = 0 \<or> 1 \<le> ?a" "?a \<le> of_int (2 ^ 53)"
  proof -
    show "?a = 0 \<or> 1 \<le> ?a" by (rule int_rat_cases [OF A(1)])
    show "?a \<le> of_int (2 ^ 53)" using A(2) by (simp only: of_int_le_iff)
    show "rel 0 ?a ?a" using A(1) by (intro rel_refl) simp
    show "f64_of_int A = Fin ?a" using A by (intro f64_of_int_exact) simp
  qed
  have ya: "?a * (?q / 365) = 0 \<or> 1 / 10 ^ 29 \<le> ?a * (?q / 365)" "?a * (?q / 365) \<le> 2 ^ 60"
    using a(3,4) by auto
  have x1: "mk (?a * rnd (apy / 365)) = Fin (rnd (?a * rnd (apy / 365)))" "rel 4 (rnd (?a * rnd (apy / 365))) (?a * (?q / 365))"
    using mk_rel_small [OF rel_mult [OF a(2) rate(2)] _ ya] by simp_all
  define y where "y = exact_reward p ?d"
  have y: "?a * (?q / 365) * (of_int ?d / 3600000000000 / 24) = y"
    by (simp add: exact_reward_def y_def A_def [symmetric])
  have "y \<le> of_int (2 ^ 53) * (105 / 1000) * (of_int (2 ^ 63) / 31536000000000000)"
    unfolding y_def exact_reward_def A_def [symmetric] using a(3,4) dd by (intro mult_mono divide_right_mono) auto
  then have y60: "y \<le> 2 ^ 60" by simp
  have "y = 0 \<or> 1 * (1 / 10) * (1 / 31536000000000000) \<le> y"
  proof (cases "?a = 0 \<or> (of_int ?d :: rat) = 0")
    case True
    then show ?thesis unfolding y_def exact_reward_def A_def [symmetric] by (elim disjE) (simp_all only: mult_zero_left mult_zero_right div_0 simp_thms)
  next
    case False
    then have "1 * (1 / 10) * (1 / 31536000000000000) \<le> ?a * ?q * (of_int ?d / 31536000000000000)"
      using a(3) dd(1) by (intro mult_mono divide_right_mono) auto
    then show ?thesis by (simp add: y_def exact_reward_def A_def [symmetric])
  qed
  then have ylo: "y = 0 \<or> 1 / 10 ^ 29 \<le> y" by auto
  let ?x = "rnd (?a * rnd (apy / 365)) * rnd (h / 24)"
  have "rel 7 ?x y" using rel_mult [OF x1(2) days(2)] unfolding y by simp
  then have x2: "mk ?x = Fin (rnd ?x)" "rel 8 (rnd ?x) y" using mk_rel_small [of 7 ?x y] ylo y60 by simp_all
  have r: "0 \<le> rnd ?x" "rnd ?x \<le> 2 ^ 62"
    using rel_nonneg [OF x2(2)] rel_bounds(2) [OF x2(2)] y60 by simp_all
  have "accrued now p = u64_of_f64 (ffloor (Fin (rnd ?x)))"
    unfolding accrued_def Let_def A_def [symmetric] d rate(1) days(1) a(1) by (simp add: x1(1) x2(1))
  also have "\<dots> = word_of_int \<lfloor>rnd ?x\<rfloor>" by (rule u64_of_floor [OF r])
  finally show ?thesis using x2(2) r(2) y_def by blast
qed

section \<open>Accounting\<close>

text \<open>What a position holds: its stake while active, and after unstaking minus the rewards that were
  paid out for it.\<close>

definition position_weight :: "stake_position \<Rightarrow> i64" where
  "position_weight p = (if sp_active p then sp_amount p else - sp_rewards p)"

definition locked :: "positions \<Rightarrow> i64" where
  "locked ps = sum_over (\<lambda>p. if sp_active p then sp_amount p else 0) ps"

definition rewards_minted :: "positions \<Rightarrow> i64" where
  "rewards_minted ps = sum_over (\<lambda>p. if sp_active p then 0 else sp_rewards p) ps"

lemma weight_split: "finite (dom ps) \<Longrightarrow> sum_over position_weight ps = locked ps - rewards_minted ps"
  unfolding sum_over_def locked_def rewards_minted_def position_weight_def
  by (subst sum_subtractf [symmetric]) (auto intro: sum.cong)

lemma sum_over_same:
  fixes f :: "'v \<Rightarrow> 'b::ab_group_add"
  assumes "finite (dom m)" "m k = Some u" "f v = f u"
  shows "sum_over f (m(k \<mapsto> v)) = sum_over f m"
  using assms by (simp add: sum_over_update)

lemma calculate_rewards_fields [simp]:
  "sp_active (snd (calculate_rewards now p)) = sp_active p"
  "sp_amount (snd (calculate_rewards now p)) = sp_amount p"
  "sp_owner (snd (calculate_rewards now p)) = sp_owner p"
  "sp_id (snd (calculate_rewards now p)) = sp_id p"
  "sp_green (snd (calculate_rewards now p)) = sp_green p"
  by (simp_all add: calculate_rewards_def Let_def)

lemma calculate_rewards_total:
  "sp_rewards (snd (calculate_rewards now p)) = sp_rewards p + accrued now p"
  by (auto simp: calculate_rewards_def Let_def word_gt_0)

definition position_ok :: "string set \<Rightarrow> string \<Rightarrow> stake_position \<Rightarrow> bool" where
  "position_ok owners i p \<longleftrightarrow> sp_id p = i \<and> sp_owner p \<in> owners \<and> 10 \<le> length (sp_owner p)
     \<and> min_stake \<le> sp_amount p"

definition staking_wf :: "positions \<times> state_keeper \<Rightarrow> bool" where
  "staking_wf s \<longleftrightarrow> finite (dom (fst s)) \<and> state_wf (snd s)
     \<and> (\<forall>i p. fst s i = Some p \<longrightarrow> position_ok (dom (accounts (snd s))) i p)"

definition staked_value :: "positions \<times> state_keeper \<Rightarrow> i64" where
  "staked_value s = total_supply (accounts (snd s)) + sum_over position_weight (fst s)"

lemma min_stake_pos: "min_stake \<le> x \<Longrightarrow> x \<noteq> 0"
  by (auto simp: min_stake_def)

lemma stake_cases:
  obtains (below) "amount < min_stake"
      "stake owner amount g nano t0 t1 mid (ps, st) = (Err (BelowMinStake amount), ps, st)"
  | (poor) "min_stake \<le> amount" "get_balance owner st < amount"
      "stake owner amount g nano t0 t1 mid (ps, st) = (Err (StakeInsufficient (get_balance owner st) amount), ps, st)"
  | (vanished) "owner \<notin> dom (accounts (mid st))"
      "stake owner amount g nano t0 t1 mid (ps, st) = (Panic, ps, mid st)"
  | (short) "min_stake \<le> amount" "amount \<le> get_balance owner st" "length owner < 10"
      "owner \<in> dom (accounts (mid st))"
      "stake owner amount g nano t0 t1 mid (ps, st) = (Panic, ps, adjust_balance owner (- amount) (mid st))"
  | (staked) p where "min_stake \<le> amount" "amount \<le> get_balance owner st" "10 \<le> length owner"
      "owner \<in> dom (accounts (mid st))"
      "p = \<lparr>sp_id = take 10 owner @ ''_'' @ show_int nano, sp_owner = owner, sp_amount = amount,
            sp_start = t0, sp_last = t1, sp_rewards = 0, sp_green = g, sp_active = True\<rparr>"
      "stake owner amount g nano t0 t1 mid (ps, st) = (Ok p, ps(sp_id p \<mapsto> p), adjust_balance owner (- amount) (mid st))"
  by (cases "amount < min_stake"; cases "get_balance owner st < amount";
      cases "owner \<in> dom (accounts (mid st))"; cases "length owner < 10")
    (simp_all add: stake_def Let_def slice_ok_def not_less not_le)

lemma balance_known: "get_balance owner st \<noteq> 0 \<Longrightarrow> owner \<in> dom (accounts st)"
  by (rule state_ledger.read_pos_known)

lemma dom_adjust [simp]: "dom (accounts (adjust_balance a x st)) = dom (accounts st)"
  by (rule state_ledger.known_credit)

lemma wf_adjust [simp]: "state_wf (adjust_balance a x st) = state_wf st"
  by (rule state_ledger.ok_credit)

text \<open>Storing a position and moving its weight on the ledger.\<close>

lemma staking_wf_store:
  assumes "staking_wf (ps, st)" "position_ok (dom (accounts st)) i p"
  shows "staking_wf (ps(i \<mapsto> p), adjust_balance a x st)"
  using assms by (auto simp: staking_wf_def)

lemma staked_value_new:
  assumes "staking_wf (ps, st)" "ps i = None" "a \<in> dom (accounts st)" "x = - position_weight p"
  shows "staked_value (ps(i \<mapsto> p), adjust_balance a x st) = staked_value (ps, st)"
  using assms by (simp add: staked_value_def staking_wf_def sum_over_insert state_ledger.money_credit)

lemma staked_value_change:
  assumes "staking_wf (ps, st)" "ps i = Some q" "a \<in> dom (accounts st)"
    and "x = position_weight q - position_weight p"
  shows "staked_value (ps(i \<mapsto> p), adjust_balance a x st) = staked_value (ps, st)"
  using assms by (simp add: staked_value_def staking_wf_def sum_over_update state_ledger.money_credit)

section \<open>Sequences of calls\<close>

datatype stake_call =
    CallStake string u64 bool int int int
  | CallUnstake string string int
  | CallTick "(string \<times> int) list"

fun stake_exec :: "stake_call \<Rightarrow> positions \<times> state_keeper \<Rightarrow> positions \<times> state_keeper" where
  "stake_exec (CallStake owner amount g nano t0 t1) s = snd (stake owner amount g nano t0 t1 id s)"
| "stake_exec (CallUnstake owner i now) s = snd (unstake owner i now s)"
| "stake_exec (CallTick order) s = (reward_tick order (fst s), snd s)"

text \<open>A stake whose owner is long enough for the ID and whose ID is new.\<close>

fun call_clean :: "stake_call \<Rightarrow> positions \<times> state_keeper \<Rightarrow> bool" where
  "call_clean (CallStake owner amount g nano t0 t1) s
     = (10 \<le> length owner \<and> fst s (take 10 owner @ ''_'' @ show_int nano) = None)"
| "call_clean _ s = True"

inductive staking_run :: "positions \<times> state_keeper \<Rightarrow> positions \<times> state_keeper \<Rightarrow> bool" for s0 where
  run_init: "staking_run s0 s0"
| run_call: "staking_run s0 s \<Longrightarrow> call_clean c s \<Longrightarrow> staking_run s0 (stake_exec c s)"

lemma stake_keeps:
  assumes "staking_wf (ps, st)" "call_clean (CallStake owner amount g nano t0 t1) (ps, st)"
  shows "staking_wf (snd (stake owner amount g nano t0 t1 id (ps, st)))
    \<and> staked_value (snd (stake owner amount g nano t0 t1 id (ps, st))) = staked_value (ps, st)"
proof (cases rule: stake_cases [of amount owner g nano t0 t1 id ps st])
  case (short)
  then show ?thesis using assms(2) by simp
next
  case (staked p)
  have ok: "position_ok (dom (accounts st)) (sp_id p) p" using staked by (simp add: position_ok_def)
  have new: "ps (sp_id p) = None" using assms(2) staked(5) by simp
  have w: "- amount = - position_weight p" using staked(5) by (simp add: position_weight_def)
  have k: "owner \<in> dom (accounts st)" using staked(4) by simp
  show ?thesis
    unfolding staked(6) snd_conv id_apply
    by (intro conjI staking_wf_store [OF assms(1) ok] staked_value_new [OF assms(1) new k w])
qed (use assms in simp_all)

lemma unstake_keeps:
  assumes "staking_wf (ps, st)"
  shows "staking_wf (snd (unstake owner i now (ps, st)))
    \<and> staked_value (snd (unstake owner i now (ps, st))) = staked_value (ps, st)"
proof (cases "\<exists>p. ps i = Some p \<and> sp_owner p = owner \<and> sp_active p")
  case True
  then obtain p where p: "ps i = Some p" "sp_owner p = owner" "sp_active p" by blast
  have ok: "position_ok (dom (accounts st)) i p" using assms p(1) by (simp add: staking_wf_def)
  let ?p2 = "(snd (calculate_rewards now p))\<lparr>sp_active := False\<rparr>"
  have k: "owner \<in> dom (accounts st)" using ok p(2) by (simp add: position_ok_def)
  have u: "snd (unstake owner i now (ps, st))
      = (ps(i \<mapsto> ?p2), adjust_balance owner (sp_amount p + sp_rewards (snd (calculate_rewards now p))) st)"
    using p k by (auto simp: unstake_def Let_def)
  have "position_ok (dom (accounts st)) i ?p2" using ok by (simp add: position_ok_def)
  then show ?thesis
    unfolding u using p(3)
    by (intro conjI staking_wf_store [OF assms] staked_value_change [OF assms p(1) k])
      (simp_all add: position_weight_def)
next
  case False
  then have "snd (unstake owner i now (ps, st)) = (ps, st)"
    by (auto simp: unstake_def Let_def split: option.splits)
  then show ?thesis using assms by simp
qed

lemma reward_one_keeps:
  assumes "staking_wf (ps, st)"
  shows "staking_wf (reward_one e ps, st) \<and> staked_value (reward_one e ps, st) = staked_value (ps, st)"
proof (cases e)
  case (Pair i now)
  show ?thesis
  proof (cases "\<exists>p. ps i = Some p \<and> sp_active p")
    case True
    then obtain p where p: "ps i = Some p" "sp_active p" by blast
    let ?q = "snd (calculate_rewards now p)"
    have e: "reward_one e ps = ps(i \<mapsto> ?q)" using p Pair by (simp add: reward_one_def)
    have "position_ok (dom (accounts st)) i ?q" using assms p(1) by (simp add: staking_wf_def position_ok_def)
    moreover have "sum_over position_weight (ps(i \<mapsto> ?q)) = sum_over position_weight ps"
      using assms p by (intro sum_over_same [where m = ps and k = i and u = p]) (simp_all add: staking_wf_def position_weight_def)
    ultimately show ?thesis unfolding e using assms by (simp add: staking_wf_def staked_value_def)
  next
    case False
    then have "reward_one e ps = ps" using Pair by (auto simp: reward_one_def split: option.splits)
    then show ?thesis using assms by simp
  qed
qed

lemma reward_tick_keeps:
  "staking_wf (ps, st) \<Longrightarrow>
     staking_wf (reward_tick order ps, st) \<and> staked_value (reward_tick order ps, st) = staked_value (ps, st)"
proof (induction order arbitrary: ps)
  case (Cons e order)
  then show ?case using reward_one_keeps [OF Cons.prems, of e] by (simp add: reward_tick_def)
qed (simp add: reward_tick_def)

lemma stake_exec_keeps:
  assumes "staking_wf s" "call_clean c s"
  shows "staking_wf (stake_exec c s) \<and> staked_value (stake_exec c s) = staked_value s"
proof (cases c)
  case (CallStake owner amount g nano t0 t1)
  then show ?thesis using stake_keeps [of "fst s" "snd s"] assms by simp
next
  case (CallUnstake owner i now)
  then show ?thesis using unstake_keeps [of "fst s" "snd s"] assms by simp
next
  case (CallTick order)
  then show ?thesis using reward_tick_keeps [of "fst s" "snd s"] assms by simp
qed

lemma staking_run_keeps:
  "staking_run s0 s \<Longrightarrow> staking_wf s0 \<Longrightarrow> staking_wf s \<and> staked_value s = staked_value s0"
  by (induction rule: staking_run.induct) (auto simp: stake_exec_keeps)

section \<open>Properties\<close>

lemma demo_state_wf: "state_wf (demo_state x)"
  using demo_accounts [of x] by (auto simp: demo_state_def init_genesis_def state_wf_def new_state_keeper_def load_def
      split: if_splits)

lemma demo_balance: "get_balance demo_addr (demo_state x) = x" "demo_addr \<in> dom (accounts (demo_state x))"
  by (auto simp: get_balance_def demo_accounts)

lemma demo_addr_length: "length demo_addr = 44"
  by (simp add: demo_addr_def)



text \<open>
  C25: The floating-point reward is right to within one micro-NVX and a relative error of 2^-49: for
  stakes up to 2^53 micro-NVX (more than the maximum supply) and any elapsed time that fits a
  duration, \<open>calculateRewards\<close> yields the stake times 10% (10.5% for a green position) times the
  fraction of a year of 365 days, rounded down.
\<close>
theorem rewards_accurate:
  assumes "sp_last p \<le> now" "now - sp_last p < 2 ^ 63" "uint (sp_amount p) \<le> 2 ^ 53"
  shows "let exact = of_int (uint (sp_amount p)) * (if sp_green p then 105 / 1000 else 1 / 10)
                 * (of_int (now - sp_last p) / (365 * 24 * 3600 * 10 ^ 9));
             reward = of_int (uint (fst (calculate_rewards now p))) :: rat
         in exact * (1 - 1 / 2 ^ 49) - 1 < reward \<and> reward \<le> exact * (1 + 1 / 2 ^ 49)"
proof -
  let ?e = "exact_reward p (now - sp_last p)"
  obtain r where r: "rel 8 r ?e" "r \<le> 2 ^ 62" "accrued now p = word_of_int \<lfloor>r\<rfloor>"
    using accrued_rel [OF assms] by blast
  have f: "0 \<le> \<lfloor>r\<rfloor>" "of_int \<lfloor>r\<rfloor> \<le> r" "r < of_int \<lfloor>r\<rfloor> + 1"
    using rel_nonneg [OF r(1)] floor_correct [of r] by (simp_all only: of_int_add of_int_1 zero_le_floor)
  have "of_int \<lfloor>r\<rfloor> \<le> (of_int (2 ^ 62) :: rat)" using f(2) r(2) by simp
  then have "\<lfloor>r\<rfloor> \<le> 2 ^ 62" by (simp only: of_int_le_iff)
  then have "uint (accrued now p) = \<lfloor>r\<rfloor>" using f(1) by (simp add: r(3) unsigned_of_int take_bit_int_eq_self)
  then have u: "of_int (uint (fst (calculate_rewards now p))) = (of_int \<lfloor>r\<rfloor> :: rat)"
    by (simp only: calculate_rewards_def Let_def fst_conv)
  have y: "of_int (uint (sp_amount p)) * (if sp_green p then 105 / 1000 else 1 / 10)
                 * (of_int (now - sp_last p) / (365 * 24 * 3600 * 10 ^ 9)) = ?e"
    by (simp add: exact_reward_def)
  have "?e * (1 - 1 / 2 ^ 49) \<le> r" "r \<le> ?e * (1 + 1 / 2 ^ 49)" using rel_bounds [OF r(1)] by simp_all
  then show ?thesis
    using f(2,3) unfolding Let_def u y by (intro conjI) linarith+
qed

theorem rewards_accurate_witness:
  "let p = \<lparr>sp_id = ''x'', sp_owner = demo_addr, sp_amount = 365000000000, sp_start = 0, sp_last = 0,
            sp_rewards = 0, sp_green = False, sp_active = True\<rparr>
   in uint (fst (calculate_rewards 86400000000000 p)) \<in> {99999999, 100000000}"
proof -
  let ?p = "\<lparr>sp_id = ''x'', sp_owner = demo_addr, sp_amount = 365000000000, sp_start = 0, sp_last = 0,
            sp_rewards = 0, sp_green = False, sp_active = True\<rparr>"
  let ?u = "uint (fst (calculate_rewards 86400000000000 ?p))"
  have "(of_int 99999998 :: rat) < of_int ?u \<and> of_int ?u < (of_int 100000001 :: rat)"
    using rewards_accurate [of ?p 86400000000000] by (simp add: Let_def)
  then have "99999998 < ?u \<and> ?u < 100000001" by (simp only: of_int_less_iff)
  then show ?thesis by (auto simp: Let_def)
qed

text \<open>
  C26: Unstaking an active position pays its owner the stake, the rewards credited so far and exactly
  the pending rewards reported for that moment, changes no other balance, and cannot be repeated.
\<close>
theorem unstake_pays_pending:
  assumes "ps i = Some p" "sp_owner p = owner" "sp_active p" "owner \<in> dom (accounts st)" "10 \<le> length owner"
  shows "\<exists>p' ps' st'. unstake owner i now (ps, st) = (Ok p', ps', st')
    \<and> get_balance owner st' = get_balance owner st + sp_amount p + sp_rewards p + pending_rewards i now ps
    \<and> (\<forall>a. a \<noteq> owner \<longrightarrow> get_balance a st' = get_balance a st)
    \<and> (\<forall>j. j \<noteq> i \<longrightarrow> ps' j = ps j)
    \<and> unstake owner i later (ps', st') = (Err PositionInactive, ps', st')"
proof -
  let ?q = "(snd (calculate_rewards now p))\<lparr>sp_active := False\<rparr>"
  let ?x = "sp_amount p + (sp_rewards p + accrued now p)"
  have u: "unstake owner i now (ps, st) = (Ok ?q, ps(i \<mapsto> ?q), adjust_balance owner ?x st)"
    using assms by (auto simp: unstake_def Let_def slice_ok_def calculate_rewards_total)
  have b: "get_balance a (adjust_balance owner ?x st) = (if a = owner then get_balance a st + ?x else get_balance a st)" for a
    by (rule state_ledger.read_credit [OF assms(4)])
  have "unstake owner i later (ps(i \<mapsto> ?q), adjust_balance owner ?x st)
      = (Err PositionInactive, ps(i \<mapsto> ?q), adjust_balance owner ?x st)"
    using assms(2) by (simp add: unstake_def)
  moreover have "get_balance owner (adjust_balance owner ?x st)
      = get_balance owner st + sp_amount p + sp_rewards p + pending_rewards i now ps"
    unfolding b using assms(1,3) by (simp add: pending_rewards_def)
  moreover have "\<forall>a. a \<noteq> owner \<longrightarrow> get_balance a (adjust_balance owner ?x st) = get_balance a st"
    unfolding b by simp
  ultimately show ?thesis using u by (intro exI conjI) auto
qed

theorem unstake_pays_pending_witness:
  "\<exists>p' ps' st'. unstake demo_addr ''x'' 0 ([''x'' \<mapsto> \<lparr>sp_id = ''x'', sp_owner = demo_addr,
       sp_amount = 150000000, sp_start = 0, sp_last = 0, sp_rewards = 5, sp_green = False, sp_active = True\<rparr>], demo_state 1)
      = (Ok p', ps', st')"
  using unstake_pays_pending [of "[''x'' \<mapsto> \<lparr>sp_id = ''x'', sp_owner = demo_addr,
       sp_amount = 150000000, sp_start = 0, sp_last = 0, sp_rewards = 5, sp_green = False, sp_active = True\<rparr>]" "''x''" _ demo_addr "demo_state 1" 0 0]
    demo_balance(2) demo_addr_length by auto

text \<open>
  The balance check and the debit of \<open>Stake\<close> do not exclude a transfer between them: an owner who
  sends the whole balance away in that moment stakes it as well, and the balance becomes negative.
\<close>
theorem stake_races_with_transfer:
  assumes "accounts st owner = Some acc" "acc_balance acc = x" "min_stake \<le> x" "0 \<le> sint x"
    and "10 \<le> length owner" "receiver \<noteq> owner"
  shows "\<exists>p ps' st'. stake owner x g nano t0 t1 (\<lambda>s. snd (transfer owner receiver x 0 h now s)) (ps, st) = (Ok p, ps', st')
    \<and> sp_amount p = x \<and> get_balance owner st' = - x \<and> get_balance receiver st' = get_balance receiver st + x"
proof -
  let ?m = "\<lambda>s. snd (transfer owner receiver x 0 h now s)"
  have bal: "get_balance owner st = x" using assms(1,2) by (simp add: get_balance_def)
  have acc: "accounts (?m st) = move_funds owner receiver x x (accounts st)"
    using assms(1,2) by (simp add: transfer_def Let_def)
  have own: "owner \<in> dom (accounts st)" using assms(1) by auto
  have known: "owner \<in> dom (accounts (?m st))" using own by (simp add: acc)
  have b: "get_balance a (?m st) = get_balance a st - (if a = owner then x else 0) + (if a = receiver then x else 0)" for a
    unfolding get_balance_bal acc by (rule bal_move_funds [OF own])
  show ?thesis
    by (cases rule: stake_cases [of x owner g nano t0 t1 ?m ps st])
      (use assms(3,5,6) bal known in \<open>auto simp: b state_ledger.read_credit\<close>)
qed

theorem stake_races_with_transfer_witness:
  "\<exists>p ps' st'. stake demo_addr 150000000 False 0 0 0 (\<lambda>s. snd (transfer demo_addr ''nuvex1victimvictim'' 150000000 0 1 ''t'' s))
       (new_staking, demo_state 150000000) = (Ok p, ps', st') \<and> get_balance demo_addr st' = - 150000000"
  using stake_races_with_transfer [OF demo_accounts(1), of 150000000 150000000 "''nuvex1victimvictim''" False 0 0 0 1 "''t''" new_staking]
    demo_addr_neq demo_addr_length by (fastforce simp: min_stake_def)

text \<open>
  An owner name of fewer than ten bytes loses its stake: the balance is debited, then the
  abbreviation of the name panics and no position is stored.
\<close>
theorem short_owner_loses_stake:
  assumes "length owner < 10" "min_stake \<le> amount" "amount \<le> get_balance owner st"
  shows "\<exists>st'. stake owner amount g nano t0 t1 id (ps, st) = (Panic, ps, st')
    \<and> get_balance owner st' = get_balance owner st - amount"
proof -
  have "get_balance owner st \<noteq> 0" using assms(2,3) by (auto simp: min_stake_def word_le_nat_alt)
  then have k: "owner \<in> dom (accounts st)" by (rule balance_known)
  show ?thesis
    by (cases rule: stake_cases [of amount owner g nano t0 t1 id ps st])
      (use assms k in \<open>auto simp: state_ledger.read_credit\<close>)
qed

theorem short_owner_loses_stake_witness:
  "\<exists>st'. stake ''bob'' 100000000 False 0 0 0 id
      (new_staking, init_genesis [\<lparr>ge_address = ''bob'', ge_amount = 100000000, ge_public_key = ''''\<rparr>] (new_state_keeper None))
     = (Panic, new_staking, st') \<and> get_balance ''bob'' st' = 0"
  using short_owner_loses_stake [of "''bob''" 100000000 "init_genesis [\<lparr>ge_address = ''bob'', ge_amount = 100000000, ge_public_key = ''''\<rparr>] (new_state_keeper None)" False 0 0 0 new_staking]
  by (simp add: min_stake_def get_balance_def init_genesis_def new_state_keeper_def load_def)

end
