(* ===== verification/Nuvex_Governance.thy ===== *)
theory Nuvex_Governance
  imports Nuvex_State Nuvex_Float64
begin

text \<open>
  The governance keeper (\<open>x/nvx/keeper/governance.go\<close>): proposals with a deposit, votes weighted by
  the voter's balance at the time of the vote, and the hourly loop that closes them. Types and
  options are strings that the code does not check. As in staking, the balance check and the
  debit of \<open>CreateProposal\<close> are two critical sections, with \<open>mid\<close> between them.
\<close>

section \<open>Data\<close>

definition voting_period :: int where
  "voting_period = 7 * 24 * 3600000000000"

definition quorum_fraction :: f64 where
  "quorum_fraction = mk (33 / 100)"

definition pass_threshold :: f64 where
  "pass_threshold = mk (1 / 2)"

definition min_deposit :: u64 where
  "min_deposit = 1000000000"

datatype proposal_status = Voting | Passed | Rejected | Expired

record gov_vote =
  gv_voter :: string
  gv_option :: string
  gv_power :: u64
  gv_time :: int

record proposal =
  pr_id :: u64
  pr_title :: string
  pr_description :: string
  pr_type :: string
  pr_proposer :: string
  pr_deposit :: u64
  pr_status :: proposal_status
  pr_start :: int
  pr_end :: int
  pr_votes :: "gov_vote list"
  pr_yes :: u64
  pr_no :: u64
  pr_abstain :: u64
  pr_total :: u64
  pr_passed :: bool

record governance =
  proposals :: "u64 \<rightharpoonup> proposal"
  next_id :: u64

record gov_stats =
  gs_total :: int
  gs_active :: int
  gs_passed :: int
  gs_votes :: int
  gs_min_deposit :: u64
  gs_period_days :: int
  gs_quorum :: f64
  gs_threshold :: f64

datatype gov_error =
    DepositTooLow
  | DepositInsufficient u64 u64
  | ProposalNotFound u64
  | ProposalClosed proposal_status
  | VotingOver
  | NoVotingPower

definition new_governance :: governance where
  "new_governance = \<lparr>proposals = Map.empty, next_id = 1\<rparr>"

section \<open>Proposals\<close>

definition create_proposal ::
    "string \<Rightarrow> string \<Rightarrow> string \<Rightarrow> string \<Rightarrow> u64 \<Rightarrow> int \<Rightarrow> int \<Rightarrow> (state_keeper \<Rightarrow> state_keeper)
       \<Rightarrow> governance \<times> state_keeper \<Rightarrow> (gov_error, proposal) res \<times> governance \<times> state_keeper" where
  "create_proposal proposer title description ptype deposit t0 t1 mid s =
     (let (gk, st) = s in
      if deposit < min_deposit then (Err DepositTooLow, gk, st)
      else let balance = get_balance proposer st in
      if balance < deposit then (Err (DepositInsufficient balance deposit), gk, st)
      else
        let st1 = mid st;
            st2 = (if proposer \<in> dom (accounts st1) then adjust_balance proposer (- deposit) st1 else st1);
            p = \<lparr>pr_id = next_id gk, pr_title = title, pr_description = description, pr_type = ptype,
                 pr_proposer = proposer, pr_deposit = deposit, pr_status = Voting, pr_start = t0,
                 pr_end = t1 + voting_period, pr_votes = [], pr_yes = 0, pr_no = 0, pr_abstain = 0,
                 pr_total = 0, pr_passed = False\<rparr>
        in (if slice_ok 10 proposer then Ok p else Panic,
            \<lparr>proposals = (proposals gk)(next_id gk \<mapsto> p), next_id = next_id gk + 1\<rparr>, st2))"

section \<open>Votes\<close>

definition add_power :: "string \<Rightarrow> u64 \<Rightarrow> proposal \<Rightarrow> proposal" where
  "add_power option x p =
     (if option = ''yes'' then p\<lparr>pr_yes := pr_yes p + x\<rparr>
      else if option = ''no'' then p\<lparr>pr_no := pr_no p + x\<rparr>
      else if option = ''abstain'' then p\<lparr>pr_abstain := pr_abstain p + x\<rparr>
      else p)"

text \<open>The loop that takes back an earlier vote: the first one of this voter.\<close>

fun split_vote :: "string \<Rightarrow> gov_vote list \<Rightarrow> (gov_vote \<times> gov_vote list) option" where
  "split_vote voter [] = None"
| "split_vote voter (v # vs) =
     (if gv_voter v = voter then Some (v, vs)
      else case split_vote voter vs of None \<Rightarrow> None | Some (w, rest) \<Rightarrow> Some (w, v # rest))"

definition retract_vote :: "string \<Rightarrow> proposal \<Rightarrow> proposal" where
  "retract_vote voter p =
     (case split_vote voter (pr_votes p) of
        None \<Rightarrow> p
      | Some (v, rest) \<Rightarrow>
          (add_power (gv_option v) (- gv_power v) p)\<lparr>pr_total := pr_total p - gv_power v, pr_votes := rest\<rparr>)"

definition record_vote :: "gov_vote \<Rightarrow> proposal \<Rightarrow> proposal" where
  "record_vote v p =
     add_power (gv_option v) (gv_power v)
       (p\<lparr>pr_votes := pr_votes p @ [v], pr_total := pr_total p + gv_power v\<rparr>)"

definition cast_vote ::
    "u64 \<Rightarrow> string \<Rightarrow> string \<Rightarrow> int \<Rightarrow> int \<Rightarrow> governance \<times> state_keeper
       \<Rightarrow> (gov_error, gov_vote) res \<times> governance \<times> state_keeper" where
  "cast_vote i voter option now t s =
     (let (gk, st) = s in
      case proposals gk i of
        None \<Rightarrow> (Err (ProposalNotFound i), gk, st)
      | Some p \<Rightarrow>
          if pr_status p \<noteq> Voting then (Err (ProposalClosed (pr_status p)), gk, st)
          else if now > pr_end p then (Err VotingOver, gk, st)
          else let power = get_balance voter st in
          if power = 0 then (Err NoVotingPower, gk, st)
          else
            let v = \<lparr>gv_voter = voter, gv_option = option, gv_power = power, gv_time = t\<rparr>;
                p' = record_vote v (retract_vote voter p)
            in (if slice_ok 10 voter then Ok v else Panic,
                gk\<lparr>proposals := (proposals gk)(i \<mapsto> p')\<rparr>, st))"

section \<open>Closing\<close>

definition quorum_reached :: "u64 \<Rightarrow> bool" where
  "quorum_reached total_power =
     fle quorum_fraction (fdiv (f64_of_int (uint total_power)) (f64_of_int 500000000000000))"

definition yes_wins :: "u64 \<Rightarrow> u64 \<Rightarrow> bool" where
  "yes_wins yes tot = flt pass_threshold (fdiv (f64_of_int (uint yes)) (f64_of_int (uint tot)))"

definition finalize_proposal :: "proposal \<Rightarrow> state_keeper \<Rightarrow> proposal \<times> state_keeper" where
  "finalize_proposal p st =
     (if \<not> quorum_reached (pr_total p) then (p\<lparr>pr_status := Expired, pr_passed := False\<rparr>, st)
      else if yes_wins (pr_yes p) (pr_total p)
      then (p\<lparr>pr_status := Passed, pr_passed := True\<rparr>,
            if pr_proposer p \<in> dom (accounts st) then adjust_balance (pr_proposer p) (pr_deposit p) st else st)
      else (p\<lparr>pr_status := Rejected, pr_passed := False\<rparr>, st))"

definition process_one :: "u64 \<times> int \<Rightarrow> governance \<times> state_keeper \<Rightarrow> governance \<times> state_keeper" where
  "process_one e s =
     (case proposals (fst s) (fst e) of
        None \<Rightarrow> s
      | Some p \<Rightarrow>
          if pr_status p = Voting \<and> snd e > pr_end p
          then let (p', st') = finalize_proposal p (snd s)
               in ((fst s)\<lparr>proposals := (proposals (fst s))(fst e \<mapsto> p')\<rparr>, st')
          else s)"

text \<open>One tick of \<open>processLoop\<close>: the proposals in the order of the range, each with its clock
  reading.\<close>

definition process_tick :: "(u64 \<times> int) list \<Rightarrow> governance \<times> state_keeper \<Rightarrow> governance \<times> state_keeper" where
  "process_tick order s = fold process_one order s"

section \<open>Queries\<close>

definition get_proposal :: "u64 \<Rightarrow> governance \<Rightarrow> (gov_error, proposal) res" where
  "get_proposal i gk = (case proposals gk i of None \<Rightarrow> Err (ProposalNotFound i) | Some p \<Rightarrow> Ok p)"

definition get_all_proposals :: "u64 list \<Rightarrow> governance \<Rightarrow> proposal list" where
  "get_all_proposals order gk = range_values order (proposals gk)"

fun gov_sums :: "proposal list \<Rightarrow> gov_stats \<Rightarrow> gov_stats" where
  "gov_sums [] st = st"
| "gov_sums (p # ps) st =
     gov_sums ps (st\<lparr>gs_total := gs_total st + 1, gs_votes := gs_votes st + int (length (pr_votes p)),
       gs_active := gs_active st + (if pr_status p = Voting then 1 else 0),
       gs_passed := gs_passed st + (if pr_status p = Passed then 1 else 0)\<rparr>)"

definition gov_stats_of :: "u64 list \<Rightarrow> governance \<Rightarrow> gov_stats" where
  "gov_stats_of order gk =
     gov_sums (range_values order (proposals gk))
       \<lparr>gs_total = 0, gs_active = 0, gs_passed = 0, gs_votes = 0, gs_min_deposit = min_deposit,
        gs_period_days = 7, gs_quorum = quorum_fraction, gs_threshold = pass_threshold\<rparr>"

section \<open>The float comparisons are exact\<close>

lemma f64_of_u64:
  shows "\<exists>r. f64_of_int (uint (w :: u64)) = Fin r \<and> (uint w \<le> 2 ^ 53 \<longrightarrow> r = of_int (uint w))
     \<and> (2 ^ 53 \<le> uint w \<longrightarrow> 2 ^ 53 \<le> r) \<and> 0 \<le> r \<and> r \<le> 2 ^ 64"
proof -
  define u where "u = uint w"
  have u: "0 \<le> u" "u < 2 ^ 64" using uint64_bounds [of w] by (simp_all add: u_def)
  have ur: "(0 :: rat) \<le> of_int u" "(of_int u :: rat) \<le> of_int (2 ^ 64)"
    using u by (simp_all only: of_int_0_le_iff of_int_le_iff less_imp_le)
  then have s: "\<bar>of_int u :: rat\<bar> \<le> 2 ^ 64" by simp
  have "2 ^ 53 \<le> rnd (of_int u)" if "2 ^ 53 \<le> u"
  proof -
    have "(of_int (2 ^ 53) :: rat) \<le> of_int u" using that by (simp only: of_int_le_iff)
    then have "rnd (of_int (2 ^ 53)) \<le> rnd (of_int u)" by (rule rnd_mono)
    then show ?thesis using rnd_int [of "2 ^ 53"] by simp
  qed
  then show ?thesis
    using mk_small [OF s] rnd_small [OF s] rnd_nonneg [OF ur(1)] rnd_int [of u] u(1)
    unfolding u_def [symmetric] f64_of_int_def by auto
qed

lemma supply_f64: "f64_of_int 500000000000000 = Fin 500000000000000"
  using f64_of_int_exact [of 500000000000000] by simp

lemma rnd_below_033: "x \<le> 33 / 100 - 1 / 500000000000000 \<Longrightarrow> rnd x < rnd (33 / 100)"
proof -
  assume x: "x \<le> 33 / 100 - 1 / 500000000000000"
  have p: "pow2 (-53) = 1 / 9007199254740992" by (simp add: pow2_def power_int_def power_one_over)
  have small: "pow2 (-1022) \<le> pow2 (-10)" by simp
  have ten: "pow2 (-10) = 1 / 1024" by (simp add: pow2_def power_int_def power_one_over)
  let ?y = "33 / 100 - 1 / 500000000000000 :: rat"
  have "\<bar>rnd ?y - ?y\<bar> \<le> \<bar>?y\<bar> * pow2 (-53)" by (rule rnd_rel_error) (use small ten in simp)
  moreover have "\<bar>rnd (33 / 100) - 33 / 100\<bar> \<le> \<bar>33 / 100\<bar> * pow2 (-53)"
    by (rule rnd_rel_error) (use small ten in simp)
  moreover have "\<bar>?y\<bar> * pow2 (-53) + \<bar>33 / 100\<bar> * pow2 (-53) < 1 / 500000000000000" by (simp add: p)
  ultimately have "rnd ?y < rnd (33 / 100)" unfolding abs_le_iff by linarith
  then show ?thesis using rnd_mono [OF x] by linarith
qed

lemma quorum_reached_iff: "quorum_reached w \<longleftrightarrow> 165000000000000 \<le> uint w"
proof -
  obtain r where r: "f64_of_int (uint w) = Fin r" "uint w \<le> 2 ^ 53 \<longrightarrow> r = of_int (uint w)"
    "2 ^ 53 \<le> uint w \<longrightarrow> 2 ^ 53 \<le> r" "0 \<le> r" "r \<le> 2 ^ 64"
    using f64_of_u64 [of w] by blast
  have q: "quorum_fraction = Fin (rnd (33 / 100))" by (simp add: quorum_fraction_def mk_small)
  have d: "fdiv (Fin r) (Fin 500000000000000) = Fin (rnd (r / 500000000000000))"
    using r(4,5) by (simp add: mk_small)
  have iff: "quorum_reached w \<longleftrightarrow> rnd (33 / 100) \<le> rnd (r / 500000000000000)"
    by (simp only: quorum_reached_def r(1) supply_f64 d q fle.simps)
  show ?thesis
  proof (cases "165000000000000 \<le> uint w")
    case True
    have "165000000000000 \<le> r"
    proof (cases "uint w \<le> 2 ^ 53")
      case le: True
      have "(of_int 165000000000000 :: rat) \<le> of_int (uint w)" using True by (simp only: of_int_le_iff)
      then show ?thesis using r(2) le by simp
    next
      case False
      then have "2 ^ 53 \<le> r" using r(3) by simp
      then show ?thesis by simp
    qed
    then have "rnd (33 / 100) \<le> rnd (r / 500000000000000)" by (intro rnd_mono) simp
    with True iff show ?thesis by simp
  next
    case False
    then have "r = of_int (uint w)" "uint w \<le> 164999999999999" using r(2) by simp_all
    moreover have "(of_int (uint w) :: rat) \<le> of_int 164999999999999"
      using False by (simp only: of_int_le_iff)
    ultimately have "r / 500000000000000 \<le> 33 / 100 - 1 / 500000000000000" by simp
    from rnd_below_033 [OF this] show ?thesis using False iff by simp
  qed
qed

lemma rnd_above_half:
  assumes "1 / 2 + 1 / 2 ^ 53 \<le> x"
  shows "1 / 2 < rnd x"
proof (cases "x \<le> 1")
  case True
  have p: "pow2 (-53) = 1 / 2 ^ 53" by (simp add: pow2_def power_int_def power_one_over)
  have "pow2 (-1022) \<le> pow2 (-1)" by simp
  moreover have "pow2 (-1) = 1 / 2" by (simp add: pow2_def power_int_def)
  ultimately have "\<bar>rnd x - x\<bar> \<le> \<bar>x\<bar> * pow2 (-53)" using assms by (intro rnd_rel_error) simp
  then have "x - x * pow2 (-53) \<le> rnd x" using assms by (simp add: abs_le_iff)
  moreover have "(1 / 2 + 1 / 2 ^ 53) * (1 - pow2 (-53)) \<le> x * (1 - pow2 (-53))"
    using assms p by (intro mult_right_mono) simp_all
  moreover have "1 / 2 < (1 / 2 + 1 / 2 ^ 53) * (1 - pow2 (-53))" by (simp add: p)
  ultimately show ?thesis unfolding right_diff_distrib mult_1_right by linarith
next
  case False
  then have "rnd 1 \<le> rnd x" by (intro rnd_mono) simp
  then show ?thesis by simp
qed

lemma yes_wins_iff:
  assumes "0 < uint tot" "uint tot \<le> 2 ^ 52"
  shows "yes_wins yes tot \<longleftrightarrow> uint tot < 2 * uint yes"
proof -
  define y t where "y = uint yes" and "t = uint tot"
  have t: "0 < t" "t \<le> 2 ^ 52" using assms by (simp_all add: t_def)
  have tf: "f64_of_int t = Fin (of_int t)" "(0 :: rat) < of_int t" "(of_int t :: rat) \<le> of_int (2 ^ 52)"
    using t by (simp_all only: of_int_0_less_iff of_int_le_iff) (simp add: f64_of_int_exact)
  obtain r where r: "f64_of_int y = Fin r" "y \<le> 2 ^ 53 \<longrightarrow> r = of_int y" "2 ^ 53 \<le> y \<longrightarrow> 2 ^ 53 \<le> r" "0 \<le> r" "r \<le> 2 ^ 64"
    using f64_of_u64 [of yes] unfolding y_def by blast
  have h: "pass_threshold = Fin (1 / 2)"
    using rnd_representable [OF representable_of_int [of 1 "-1"]]
    by (simp add: pass_threshold_def mk_small pow2_def power_int_def)
  have one: "(1 :: rat) \<le> of_int t" using t by simp
  have "r / of_int t \<le> r" using one r(4) by (simp add: divide_le_eq mult_le_cancel_left1)
  then have d: "fdiv (Fin r) (Fin (of_int t)) = Fin (rnd (r / of_int t))"
    using tf(2) r(4,5) by (simp add: mk_small)
  have iff: "yes_wins yes tot \<longleftrightarrow> 1 / 2 < rnd (r / of_int t)"
    unfolding yes_wins_def y_def [symmetric] t_def [symmetric] tf(1) r(1) d h flt_def by auto
  show ?thesis
  proof (cases "t < 2 * y")
    case True
    have "of_int t + 1 \<le> 2 * r"
    proof (cases "y \<le> 2 ^ 53")
      case le: True
      have "(of_int (t + 1) :: rat) \<le> of_int (2 * y)" using True by (simp only: of_int_le_iff)
      then show ?thesis using r(2) le by simp
    next
      case False
      then have "2 ^ 53 \<le> r" using r(3) by simp
      then show ?thesis using tf(3) by simp
    qed
    then have "(of_int t + 1) / (2 * of_int t) \<le> (2 * r) / (2 * of_int t)"
      using tf(2) by (intro divide_right_mono) simp_all
    moreover have "(of_int t + 1) / (2 * of_int t) = 1 / 2 + 1 / (2 * of_int t :: rat)"
      using tf(2) by (simp add: add_divide_distrib)
    moreover have "(1 / 2 ^ 53 :: rat) \<le> 1 / (2 * of_int t)"
      using tf(2,3) by (intro divide_left_mono) simp_all
    moreover have "(2 * r) / (2 * of_int t) = r / of_int t" by simp
    ultimately have "1 / 2 + 1 / 2 ^ 53 \<le> r / of_int t" by linarith
    from rnd_above_half [OF this] show ?thesis using True iff by (simp add: y_def t_def)
  next
    case False
    then have "y \<le> 2 ^ 53" using t by simp
    then have "r = of_int y" using r(2) by blast
    moreover have "(of_int (2 * y) :: rat) \<le> of_int t" using False by (simp only: of_int_le_iff)
    ultimately have "r / of_int t \<le> 1 / 2" using tf(2) by (simp add: divide_le_eq)
    then have "rnd (r / of_int t) \<le> rnd (1 / 2)" by (rule rnd_mono)
    moreover have "rnd (1 / 2) = 1 / 2"
      using rnd_representable [OF representable_of_int [of 1 "-1"]] by (simp add: pow2_def power_int_def)
    ultimately show ?thesis using False iff by (simp add: y_def t_def)
  qed
qed

section \<open>Tallies\<close>

definition option_power :: "string \<Rightarrow> gov_vote list \<Rightarrow> u64" where
  "option_power opt vs = (\<Sum>v\<leftarrow>vs. if gv_option v = opt then gv_power v else 0)"

definition all_power :: "gov_vote list \<Rightarrow> u64" where
  "all_power vs = (\<Sum>v\<leftarrow>vs. gv_power v)"

definition tally_ok :: "proposal \<Rightarrow> bool" where
  "tally_ok p \<longleftrightarrow> distinct (map gv_voter (pr_votes p)) \<and> pr_total p = all_power (pr_votes p)
     \<and> pr_yes p = option_power ''yes'' (pr_votes p) \<and> pr_no p = option_power ''no'' (pr_votes p)
     \<and> pr_abstain p = option_power ''abstain'' (pr_votes p)"

lemma add_power_fields [simp]:
  "pr_votes (add_power opt x p) = pr_votes p" "pr_total (add_power opt x p) = pr_total p"
  "pr_status (add_power opt x p) = pr_status p" "pr_deposit (add_power opt x p) = pr_deposit p"
  "pr_proposer (add_power opt x p) = pr_proposer p" "pr_id (add_power opt x p) = pr_id p"
  "pr_end (add_power opt x p) = pr_end p" "pr_passed (add_power opt x p) = pr_passed p"
  by (simp_all add: add_power_def)

lemma add_power_tally:
  "pr_yes (add_power opt x p) = pr_yes p + (if opt = ''yes'' then x else 0)"
  "pr_no (add_power opt x p) = pr_no p + (if opt = ''no'' then x else 0)"
  "pr_abstain (add_power opt x p) = pr_abstain p + (if opt = ''abstain'' then x else 0)"
  by (simp_all add: add_power_def)

lemma split_vote_None: "split_vote a vs = None \<longleftrightarrow> a \<notin> gv_voter ` set vs"
  by (induction vs) (auto split: option.splits)

lemma split_vote_Some:
  "split_vote a vs = Some (v, rest) \<Longrightarrow> gv_voter v = a \<and> (\<exists>xs ys. vs = xs @ v # ys \<and> rest = xs @ ys)"
proof (induction vs arbitrary: rest)
  case (Cons w vs)
  show ?case
  proof (cases "gv_voter w = a")
    case True
    then have "v = w" "rest = vs" using Cons.prems by simp_all
    then show ?thesis using True by (intro conjI exI [of _ "[]"] exI [of _ vs]) simp_all
  next
    case False
    then obtain r where r: "split_vote a vs = Some (v, r)" "rest = w # r"
      using Cons.prems by (auto split: option.splits)
    from Cons.IH [OF r(1)] obtain xs ys where "gv_voter v = a" "vs = xs @ v # ys" "r = xs @ ys" by blast
    then show ?thesis using r(2) by (intro conjI exI [of _ "w # xs"] exI [of _ ys]) simp_all
  qed
qed simp

lemma power_append [simp]:
  "option_power opt (xs @ ys) = option_power opt xs + option_power opt ys"
  "all_power (xs @ ys) = all_power xs + all_power ys"
  "option_power opt (v # ys) = (if gv_option v = opt then gv_power v else 0) + option_power opt ys"
  "all_power (v # ys) = gv_power v + all_power ys" "option_power opt [] = 0" "all_power [] = 0"
  by (simp_all add: option_power_def all_power_def)

lemma retract_vote_tally:
  assumes "tally_ok p"
  shows "tally_ok (retract_vote a p)" "a \<notin> gv_voter ` set (pr_votes (retract_vote a p))"
    "set (pr_votes (retract_vote a p)) = {v \<in> set (pr_votes p). gv_voter v \<noteq> a}"
proof -
  have "tally_ok (retract_vote a p) \<and> a \<notin> gv_voter ` set (pr_votes (retract_vote a p))
     \<and> set (pr_votes (retract_vote a p)) = {v \<in> set (pr_votes p). gv_voter v \<noteq> a}"
  proof (cases "split_vote a (pr_votes p)")
    case None
    then have "retract_vote a p = p" "a \<notin> gv_voter ` set (pr_votes p)"
      by (simp_all add: retract_vote_def split_vote_None [symmetric])
    then show ?thesis using assms by auto
  next
    case (Some vr)
    obtain v rest where vr: "vr = (v, rest)" by (cases vr)
    obtain xs ys where s: "gv_voter v = a" "pr_votes p = xs @ v # ys" "rest = xs @ ys"
      using split_vote_Some [of a "pr_votes p" v rest] Some vr by blast
    have d: "distinct (map gv_voter (xs @ v # ys))" using assms s(2) by (simp only: tally_ok_def)
    have r: "pr_votes (retract_vote a p) = xs @ ys"
      using Some vr s(3) by (simp add: retract_vote_def)
    have "a \<notin> gv_voter ` set (xs @ ys)" using d s(1) by auto
    moreover have "tally_ok (retract_vote a p)"
      using assms d Some vr s
      by (simp add: tally_ok_def retract_vote_def add_power_tally algebra_simps)
    moreover have "set (xs @ ys) = {v \<in> set (pr_votes p). gv_voter v \<noteq> a}"
      using d s by (auto simp: image_iff)
    ultimately show ?thesis unfolding r by blast
  qed
  then show "tally_ok (retract_vote a p)" "a \<notin> gv_voter ` set (pr_votes (retract_vote a p))"
    "set (pr_votes (retract_vote a p)) = {v \<in> set (pr_votes p). gv_voter v \<noteq> a}" by blast+
qed

lemma record_vote_tally:
  assumes "tally_ok p" "gv_voter v \<notin> gv_voter ` set (pr_votes p)"
  shows "tally_ok (record_vote v p)"
  using assms by (simp add: tally_ok_def record_vote_def add_power_tally)

lemma vote_fields [simp]:
  "pr_status (retract_vote a p) = pr_status p" "pr_deposit (retract_vote a p) = pr_deposit p"
  "pr_proposer (retract_vote a p) = pr_proposer p" "pr_passed (retract_vote a p) = pr_passed p"
  "pr_status (record_vote v p) = pr_status p" "pr_deposit (record_vote v p) = pr_deposit p"
  "pr_proposer (record_vote v p) = pr_proposer p" "pr_passed (record_vote v p) = pr_passed p"
  "pr_end (retract_vote a p) = pr_end p" "pr_end (record_vote v p) = pr_end p"
  by (simp_all add: retract_vote_def record_vote_def split: option.splits prod.splits)

section \<open>Sequences of calls\<close>

definition held :: "proposal \<Rightarrow> u64" where
  "held p = (if pr_status p = Passed then 0 else pr_deposit p)"

definition gov_value :: "governance \<times> state_keeper \<Rightarrow> i64" where
  "gov_value s = total_supply (accounts (snd s)) + sum_over held (proposals (fst s))"

definition proposal_ok :: "string set \<Rightarrow> proposal \<Rightarrow> bool" where
  "proposal_ok owners p \<longleftrightarrow> tally_ok p \<and> pr_proposer p \<in> owners \<and> min_deposit \<le> pr_deposit p
     \<and> (pr_passed p \<longleftrightarrow> pr_status p = Passed)"

definition gov_wf :: "governance \<times> state_keeper \<Rightarrow> bool" where
  "gov_wf s \<longleftrightarrow> finite (dom (proposals (fst s))) \<and> state_wf (snd s)
     \<and> (\<forall>i p. proposals (fst s) i = Some p \<longrightarrow> proposal_ok (dom (accounts (snd s))) p)"

datatype gov_call =
    CallCreate string string string string u64 int int
  | CallVote u64 string string int int
  | CallProcess "(u64 \<times> int) list"

fun gov_exec :: "gov_call \<Rightarrow> governance \<times> state_keeper \<Rightarrow> governance \<times> state_keeper" where
  "gov_exec (CallCreate a title d ty dep t0 t1) s = snd (create_proposal a title d ty dep t0 t1 id s)"
| "gov_exec (CallVote i a opt now t) s = snd (cast_vote i a opt now t s)"
| "gov_exec (CallProcess order) s = process_tick order s"

text \<open>The next ID is unused: so it is for the first 2^64 proposals.\<close>

fun gov_clean :: "gov_call \<Rightarrow> governance \<times> state_keeper \<Rightarrow> bool" where
  "gov_clean (CallCreate a title d ty dep t0 t1) s = (proposals (fst s) (next_id (fst s)) = None)"
| "gov_clean _ s = True"

inductive gov_run :: "governance \<times> state_keeper \<Rightarrow> governance \<times> state_keeper \<Rightarrow> bool" for s0 where
  gov_init: "gov_run s0 s0"
| gov_call: "gov_run s0 s \<Longrightarrow> gov_clean c s \<Longrightarrow> gov_run s0 (gov_exec c s)"

lemma wf_adjust_gov [simp]:
  "dom (accounts (adjust_balance a x st)) = dom (accounts st)" "state_wf (adjust_balance a x st) = state_wf st"
  by (rule state_ledger.known_credit, rule state_ledger.ok_credit)

text \<open>Replacing one proposal and paying the difference of what it holds.\<close>

lemma gov_change:
  assumes "gov_wf (gk, st)" "proposals gk i = Some q" "proposal_ok (dom (accounts st)) p"
    and "a \<in> dom (accounts st)" "x = held q - held p"
  shows "gov_wf (gk\<lparr>proposals := (proposals gk)(i \<mapsto> p)\<rparr>, adjust_balance a x st)
    \<and> gov_value (gk\<lparr>proposals := (proposals gk)(i \<mapsto> p)\<rparr>, adjust_balance a x st) = gov_value (gk, st)"
  using assms by (auto simp: gov_wf_def gov_value_def sum_over_update state_ledger.money_credit)

lemma gov_change_same:
  assumes "gov_wf (gk, st)" "proposals gk i = Some q" "proposal_ok (dom (accounts st)) p" "held p = held q"
  shows "gov_wf (gk\<lparr>proposals := (proposals gk)(i \<mapsto> p)\<rparr>, st)
    \<and> gov_value (gk\<lparr>proposals := (proposals gk)(i \<mapsto> p)\<rparr>, st) = gov_value (gk, st)"
  using assms by (auto simp: gov_wf_def gov_value_def sum_over_update)

lemma create_keeps:
  assumes "gov_wf (gk, st)" "proposals gk (next_id gk) = None"
  shows "gov_wf (snd (create_proposal a title d ty dep t0 t1 id (gk, st)))
    \<and> gov_value (snd (create_proposal a title d ty dep t0 t1 id (gk, st))) = gov_value (gk, st)"
proof (cases "min_deposit \<le> dep \<and> dep \<le> get_balance a st")
  case True
  have "get_balance a st \<noteq> 0" using True by (auto simp: min_deposit_def word_le_nat_alt)
  then have k: "a \<in> dom (accounts st)" by (rule state_ledger.read_pos_known)
  define p where "p = \<lparr>pr_id = next_id gk, pr_title = title, pr_description = d, pr_type = ty,
                 pr_proposer = a, pr_deposit = dep, pr_status = Voting, pr_start = t0,
                 pr_end = t1 + voting_period, pr_votes = [], pr_yes = 0, pr_no = 0, pr_abstain = 0,
                 pr_total = 0, pr_passed = False\<rparr>"
  have n: "\<not> dep < min_deposit" "\<not> get_balance a st < dep" using True by (auto simp: not_less)
  have c: "snd (create_proposal a title d ty dep t0 t1 id (gk, st))
      = (\<lparr>proposals = (proposals gk)(next_id gk \<mapsto> p), next_id = next_id gk + 1\<rparr>, adjust_balance a (- dep) st)"
    using n k by (auto simp: create_proposal_def Let_def p_def)
  have "proposal_ok (dom (accounts st)) p" using True k by (simp add: proposal_ok_def p_def tally_ok_def)
  moreover have "held p = dep" by (simp add: held_def p_def)
  ultimately show ?thesis
    unfolding c using assms k
    by (auto simp: gov_wf_def gov_value_def sum_over_insert state_ledger.money_credit)
next
  case False
  then have "snd (create_proposal a title d ty dep t0 t1 id (gk, st)) = (gk, st)"
    by (auto simp: create_proposal_def Let_def not_le)
  with assms(1) show ?thesis by simp
qed

lemma cast_vote_cases:
  obtains (rejected) e where "cast_vote i a opt now t (gk, st) = (Err e, gk, st)"
  | (counted) p v r where "proposals gk i = Some p" "pr_status p = Voting" "now \<le> pr_end p"
      "v = \<lparr>gv_voter = a, gv_option = opt, gv_power = get_balance a st, gv_time = t\<rparr>"
      "get_balance a st \<noteq> 0"
      "cast_vote i a opt now t (gk, st)
         = (r, gk\<lparr>proposals := (proposals gk)(i \<mapsto> record_vote v (retract_vote a p))\<rparr>, st)"
      "r = (if 10 \<le> length a then Ok v else Panic)"
proof (cases "\<exists>p. proposals gk i = Some p \<and> pr_status p = Voting \<and> now \<le> pr_end p \<and> get_balance a st \<noteq> 0")
  case True
  then show ?thesis by (elim exE conjE, intro counted) (auto simp: cast_vote_def Let_def slice_ok_def)
next
  case False
  then show ?thesis
  proof (cases "proposals gk i")
    case None
    then show ?thesis by (intro rejected) (simp add: cast_vote_def)
  next
    case (Some p)
    then consider "pr_status p \<noteq> Voting" | "pr_status p = Voting" "now > pr_end p"
      | "pr_status p = Voting" "\<not> now > pr_end p" "get_balance a st = 0"
      using False by force
    then show ?thesis using Some by cases (rule rejected; simp add: cast_vote_def)+
  qed
qed

lemma cast_vote_keeps:
  assumes "gov_wf (gk, st)"
  shows "gov_wf (snd (cast_vote i a opt now t (gk, st)))
    \<and> gov_value (snd (cast_vote i a opt now t (gk, st))) = gov_value (gk, st)"
proof (cases rule: cast_vote_cases [of i a opt now t gk st])
  case (rejected e)
  with assms show ?thesis by simp
next
  case (counted p v r)
  have ok: "proposal_ok (dom (accounts st)) p" using assms counted(1) by (simp add: gov_wf_def)
  then have "tally_ok (record_vote v (retract_vote a p))"
    using retract_vote_tally [of p a] counted(4) by (intro record_vote_tally) (simp_all add: proposal_ok_def)
  then show ?thesis
    using ok gov_change_same [OF assms counted(1)] unfolding counted(6)
    by (simp add: proposal_ok_def held_def)
qed

lemma finalize_cases:
  obtains (expired) "\<not> quorum_reached (pr_total p)" "finalize_proposal p st = (p\<lparr>pr_status := Expired, pr_passed := False\<rparr>, st)"
  | (passed) "quorum_reached (pr_total p)" "yes_wins (pr_yes p) (pr_total p)"
      "finalize_proposal p st = (p\<lparr>pr_status := Passed, pr_passed := True\<rparr>, adjust_balance (pr_proposer p) (pr_deposit p) st)"
  | (rejected) "quorum_reached (pr_total p)" "\<not> yes_wins (pr_yes p) (pr_total p)"
      "finalize_proposal p st = (p\<lparr>pr_status := Rejected, pr_passed := False\<rparr>, st)"
proof -
  have "pr_proposer p \<notin> dom (accounts st) \<Longrightarrow> adjust_balance (pr_proposer p) (pr_deposit p) st = st"
    by (rule state_ledger.credit_unknown)
  then show ?thesis
    using that by (cases "quorum_reached (pr_total p)"; cases "yes_wins (pr_yes p) (pr_total p)")
      (auto simp: finalize_proposal_def)
qed

lemma process_one_keeps:
  assumes "gov_wf s"
  shows "gov_wf (process_one e s) \<and> gov_value (process_one e s) = gov_value s"
proof (cases "\<exists>p. proposals (fst s) (fst e) = Some p \<and> pr_status p = Voting \<and> snd e > pr_end p")
  case True
  then obtain p where p: "proposals (fst s) (fst e) = Some p" "pr_status p = Voting" "snd e > pr_end p" by blast
  obtain gk st where s: "s = (gk, st)" by (cases s)
  have wf: "gov_wf (gk, st)" and pi: "proposals gk (fst e) = Some p" using assms p(1) s by simp_all
  have ok: "proposal_ok (dom (accounts st)) p" using wf pi by (simp add: gov_wf_def)
  then have own: "pr_proposer p \<in> dom (accounts st)" by (simp add: proposal_ok_def)
  have tally: "tally_ok (p\<lparr>pr_status := x, pr_passed := y\<rparr>)" for x y
    using ok by (simp add: proposal_ok_def tally_ok_def)
  have e: "process_one e (gk, st) = (gk\<lparr>proposals := (proposals gk)(fst e \<mapsto> fst (finalize_proposal p st))\<rparr>, snd (finalize_proposal p st))"
    using p s by (simp add: process_one_def split_beta)
  show ?thesis
  proof (cases rule: finalize_cases [of p st])
    case expired
    show ?thesis unfolding s e expired(2) fst_conv snd_conv
      by (rule gov_change_same [OF wf pi]) (use ok p(2) tally in \<open>simp_all add: proposal_ok_def held_def\<close>)
  next
    case passed
    show ?thesis unfolding s e passed(3) fst_conv snd_conv
      by (rule gov_change [OF wf pi _ own]) (use ok p(2) tally in \<open>simp_all add: proposal_ok_def held_def\<close>)
  next
    case rejected
    show ?thesis unfolding s e rejected(3) fst_conv snd_conv
      by (rule gov_change_same [OF wf pi]) (use ok p(2) tally in \<open>simp_all add: proposal_ok_def held_def\<close>)
  qed
next
  case False
  then have "process_one e s = s" by (auto simp: process_one_def split: option.splits)
  with assms show ?thesis by simp
qed

lemma process_tick_keeps: "gov_wf s \<Longrightarrow> gov_wf (process_tick order s) \<and> gov_value (process_tick order s) = gov_value s"
proof (induction order arbitrary: s)
  case (Cons e order)
  then show ?case using process_one_keeps [OF Cons.prems, of e] by (simp add: process_tick_def)
qed (simp add: process_tick_def)

lemma gov_exec_keeps:
  assumes "gov_wf s" "gov_clean c s"
  shows "gov_wf (gov_exec c s) \<and> gov_value (gov_exec c s) = gov_value s"
  using assms create_keeps [of "fst s" "snd s"] cast_vote_keeps [of "fst s" "snd s"] process_tick_keeps [of s]
  by (cases c) simp_all

lemma gov_run_keeps: "gov_run s0 s \<Longrightarrow> gov_wf s0 \<Longrightarrow> gov_wf s \<and> gov_value s = gov_value s0"
  by (induction rule: gov_run.induct) (auto simp: gov_exec_keeps)

lemma gov_wf_new: "state_wf st \<Longrightarrow> gov_wf (new_governance, st)"
  by (simp add: gov_wf_def new_governance_def)

section \<open>Properties\<close>

definition demo_proposal :: "u64 \<Rightarrow> u64 \<Rightarrow> proposal" where
  "demo_proposal yes tot = \<lparr>pr_id = 1, pr_title = ''t'', pr_description = ''d'', pr_type = ''text'',
     pr_proposer = demo_addr, pr_deposit = 2000000000, pr_status = Voting, pr_start = 0, pr_end = 100, pr_votes = [],
     pr_yes = yes, pr_no = 0, pr_abstain = 0, pr_total = tot, pr_passed = False\<rparr>"

lemma demo_gov_state: "state_wf (demo_state x)" "get_balance demo_addr (demo_state x) = x" "10 \<le> length demo_addr"
  using demo_accounts [of x]
  by (auto simp: demo_state_def init_genesis_def state_wf_def new_state_keeper_def load_def get_balance_def demo_addr_def
      split: if_splits)

text \<open>
  C27: In every state that calls of the governance keeper can reach, each proposal's votes come from
  distinct voters, its total power is the sum of their powers and its yes, no and abstain powers
  are the sums over the votes for that option (modulo 2^64), however often voters changed their
  mind; it is marked as passed exactly when its status says so.
\<close>
theorem tallies_match_votes:
  assumes "gov_run (new_governance, st0) (gk, st)" "state_wf st0" "proposals gk i = Some p"
  shows "distinct (map gv_voter (pr_votes p)) \<and> pr_total p = (\<Sum>v\<leftarrow>pr_votes p. gv_power v)
    \<and> pr_yes p = (\<Sum>v\<leftarrow>pr_votes p. if gv_option v = ''yes'' then gv_power v else 0)
    \<and> pr_no p = (\<Sum>v\<leftarrow>pr_votes p. if gv_option v = ''no'' then gv_power v else 0)
    \<and> pr_abstain p = (\<Sum>v\<leftarrow>pr_votes p. if gv_option v = ''abstain'' then gv_power v else 0)
    \<and> (pr_passed p \<longleftrightarrow> pr_status p = Passed)"
proof -
  have "gov_wf (gk, st)" using gov_run_keeps [OF assms(1) gov_wf_new [OF assms(2)]] by simp
  then have "proposal_ok (dom (accounts st)) p" using assms(3) by (simp add: gov_wf_def)
  then show ?thesis by (simp add: proposal_ok_def tally_ok_def option_power_def all_power_def)
qed

text \<open>A run: one proposal is made and its proposer votes for it.\<close>

definition demo_gov_calls :: "gov_call list" where
  "demo_gov_calls = [CallCreate demo_addr ''t'' ''d'' ''text'' 2000000000 0 0, CallVote 1 demo_addr ''yes'' 5 5]"

lemma demo_gov_run: "gov_run (new_governance, st) (fold gov_exec demo_gov_calls (new_governance, st))"
proof -
  let ?c = "CallCreate demo_addr ''t'' ''d'' ''text'' 2000000000 0 0" and ?v = "CallVote 1 demo_addr ''yes'' 5 5"
  have "gov_run (new_governance, st) (gov_exec ?c (new_governance, st))"
    by (rule gov_call [OF gov_init]) (simp add: new_governance_def)
  then have "gov_run (new_governance, st) (gov_exec ?v (gov_exec ?c (new_governance, st)))"
    by (rule gov_call) simp
  then show ?thesis by (simp add: demo_gov_calls_def)
qed

lemma demo_gov_proposal:
  "\<exists>p. proposals (fst (fold gov_exec demo_gov_calls (new_governance, demo_state 9000000000))) 1 = Some p
     \<and> length (pr_votes p) = 1"
proof -
  have k: "demo_addr \<in> dom (accounts (demo_state 9000000000))" by (auto simp: demo_accounts)
  have "get_balance demo_addr (adjust_balance demo_addr (- 2000000000) (demo_state 9000000000)) = 7000000000"
    using state_ledger.read_credit [OF k, of demo_addr "- 2000000000"] demo_gov_state(2) by simp
  then show ?thesis
    using k demo_gov_state(2,3)
    by (auto simp: demo_gov_calls_def create_proposal_def cast_vote_def new_governance_def min_deposit_def Let_def
        slice_ok_def voting_period_def retract_vote_def record_vote_def)
qed

theorem tallies_match_votes_witness:
  "\<exists>p. proposals (fst (fold gov_exec demo_gov_calls (new_governance, demo_state 9000000000))) 1 = Some p
     \<and> length (pr_votes p) = 1 \<and> pr_total p = (\<Sum>v\<leftarrow>pr_votes p. gv_power v)"
proof -
  obtain p where p: "proposals (fst (fold gov_exec demo_gov_calls (new_governance, demo_state 9000000000))) 1 = Some p"
    "length (pr_votes p) = 1" using demo_gov_proposal by blast
  have "gov_run (new_governance, demo_state 9000000000)
     (fst (fold gov_exec demo_gov_calls (new_governance, demo_state 9000000000)),
      snd (fold gov_exec demo_gov_calls (new_governance, demo_state 9000000000)))"
    using demo_gov_run by simp
  from tallies_match_votes [OF this demo_gov_state(1) p(1)] p show ?thesis by blast
qed



text \<open>
  C29: Where deposits go: after any sequence of governance calls the account balances plus the deposits
  of all proposals that have not passed equal the balances at the start. So a deposit comes back
  exactly when its proposal passes, and those of expired and rejected proposals stay out of every
  account for good.
\<close>
theorem deposits_accounted:
  assumes "gov_run (new_governance, st0) (gk, st)" "state_wf st0"
  shows "total_supply (accounts st)
      + sum_over (\<lambda>p. if pr_status p = Passed then 0 else pr_deposit p) (proposals gk)
    = total_supply (accounts st0)"
  using gov_run_keeps [OF assms(1) gov_wf_new [OF assms(2)]]
  by (simp add: gov_value_def new_governance_def held_def [abs_def])

theorem deposits_accounted_witness:
  "let s = fold gov_exec demo_gov_calls (new_governance, demo_state 9000000000)
   in total_supply (accounts (snd s))
      + sum_over (\<lambda>p. if pr_status p = Passed then 0 else pr_deposit p) (proposals (fst s))
    = total_supply (accounts (demo_state 9000000000))"
proof -
  have "gov_run (new_governance, demo_state 9000000000)
     (fst (fold gov_exec demo_gov_calls (new_governance, demo_state 9000000000)),
      snd (fold gov_exec demo_gov_calls (new_governance, demo_state 9000000000)))"
    using demo_gov_run by simp
  from deposits_accounted [OF this demo_gov_state(1)] show ?thesis by (simp only: Let_def)
qed

text \<open>
  The same coins can vote twice: a voter who votes and then sends the whole balance to a second
  address that votes too adds that balance to the yes power twice.
\<close>
theorem coins_vote_twice:
  assumes "proposals gk i = Some p" "pr_status p = Voting" "t \<le> pr_end p"
    and "accounts st a = Some acc" "acc_balance acc = x" "0 < sint x" "b \<noteq> a" "get_balance b st = 0"
    and "a \<notin> gv_voter ` set (pr_votes p)" "b \<notin> gv_voter ` set (pr_votes p)"
  shows "\<exists>p'. let s1 = snd (cast_vote i a ''yes'' t t (gk, st));
                 s2 = (fst s1, snd (transfer a b x 0 h now (snd s1)));
                 s3 = snd (cast_vote i b ''yes'' t t s2)
             in proposals (fst s3) i = Some p' \<and> pr_yes p' = pr_yes p + x + x \<and> pr_total p' = pr_total p + x + x"
proof -
  have x: "x \<noteq> 0" using assms(6) by auto
  have bal: "get_balance a st = x" using assms(4,5) by (simp add: get_balance_def)
  define v where "v = \<lparr>gv_voter = a, gv_option = ''yes'', gv_power = x, gv_time = t\<rparr>"
  define p1 where "p1 = record_vote v p"
  have r: "retract_vote c q = q" if "c \<notin> gv_voter ` set (pr_votes q)" for c q
    using that split_vote_None [of c "pr_votes q"] by (simp add: retract_vote_def)
  have s1: "snd (cast_vote i a ''yes'' t t (gk, st)) = (gk\<lparr>proposals := (proposals gk)(i \<mapsto> p1)\<rparr>, st)"
    using assms(1-3,9) x bal by (simp add: cast_vote_def Let_def r p1_def v_def)
  define st2 where "st2 = snd (transfer a b x 0 h now st)"
  have "accounts st2 = move_funds a b x x (accounts st)"
    using assms(4,5) by (simp add: st2_def transfer_def Let_def)
  moreover have "a \<in> dom (accounts st)" using assms(4) by auto
  ultimately have balb: "get_balance b st2 = x"
    using bal_move_funds [of a "accounts st" b x x b] assms(7,8) by (simp add: get_balance_bal)
  have p1: "pr_status p1 = Voting" "t \<le> pr_end p1" "b \<notin> gv_voter ` set (pr_votes p1)"
    "pr_yes p1 = pr_yes p + x" "pr_total p1 = pr_total p + x"
    using assms(2,3,7,10) by (auto simp: p1_def record_vote_def v_def add_power_tally)
  define w where "w = \<lparr>gv_voter = b, gv_option = ''yes'', gv_power = x, gv_time = t\<rparr>"
  have "proposals (fst (snd (cast_vote i b ''yes'' t t (gk\<lparr>proposals := (proposals gk)(i \<mapsto> p1)\<rparr>, st2)))) i
      = Some (record_vote w p1)"
    using p1 x balb by (simp add: cast_vote_def Let_def r w_def)
  moreover have "pr_yes (record_vote w p1) = pr_yes p + x + x" "pr_total (record_vote w p1) = pr_total p + x + x"
    using p1 by (simp_all add: record_vote_def w_def add_power_tally)
  ultimately show ?thesis by (simp add: s1 st2_def Let_def)
qed

theorem coins_vote_twice_witness:
  "\<exists>p'. let gk = \<lparr>proposals = [1 \<mapsto> demo_proposal 0 0], next_id = 2\<rparr>;
            s1 = snd (cast_vote 1 demo_addr ''yes'' 5 5 (gk, demo_state 900));
            s2 = (fst s1, snd (transfer demo_addr ''nuvex1other'' 900 0 1 ''t'' (snd s1)));
            s3 = snd (cast_vote 1 ''nuvex1other'' ''yes'' 5 5 s2)
        in proposals (fst s3) 1 = Some p' \<and> pr_yes p' = 1800"
proof -
  have ne: "''nuvex1other'' \<noteq> demo_addr"
  proof
    assume "''nuvex1other'' = demo_addr"
    then have "length ''nuvex1other'' = length demo_addr" by (rule arg_cong)
    then show False by (simp add: demo_addr_def)
  qed
  have "get_balance ''nuvex1other'' (demo_state 900) = 0"
    using ne by (simp add: get_balance_def demo_state_def init_genesis_def new_state_keeper_def load_def)
  from coins_vote_twice [where gk = "\<lparr>proposals = [1 \<mapsto> demo_proposal 0 0], next_id = 2\<rparr>" and i = 1
      and p = "demo_proposal 0 0" and t = 5 and h = 1 and now = "''t''", OF _ _ _ demo_accounts(1) _ _ ne this]
  show ?thesis by (auto simp: demo_proposal_def Let_def)
qed

end
