(* ===== verification/Nuvex_Dex.thy ===== *)
theory Nuvex_Dex
  imports Nuvex_Float64
begin

text \<open>
  The exchange (\<open>x/nvx/keeper/dex.go\<close>): constant-product pools in \<open>float64\<close>, liquidity, swaps,
  quotes and statistics. The exchange keeps its own numbers and never touches an account. The
  numbers of a slippage message stand for its text.
\<close>

section \<open>Data\<close>

definition swap_fee_bps :: int where
  "swap_fee_bps = 30"

definition minimum_liquidity :: f64 where
  "minimum_liquidity = Fin 1000"

record pool =
  pl_id :: string
  pl_token_a :: string
  pl_token_b :: string
  pl_reserve_a :: f64
  pl_reserve_b :: f64
  pl_total_lp :: f64
  pl_holders :: "string \<rightharpoonup> f64"
  pl_volume :: f64
  pl_fees :: f64
  pl_created :: string
  pl_trades :: "64 word"

record swap_result =
  sr_amount_in :: f64
  sr_amount_out :: f64
  sr_fee :: f64
  sr_impact :: f64
  sr_new_price :: f64
  sr_token_in :: string
  sr_token_out :: string
  sr_pool :: string
  sr_timestamp :: string
  sr_success :: bool
  sr_slippage :: "(f64 \<times> f64) option"

record add_result =
  ar_pool :: string
  ar_token_a :: string
  ar_token_b :: string
  ar_amount_a :: f64
  ar_amount_b :: f64
  ar_lp :: f64
  ar_provider :: string
  ar_success :: bool

record pool_stats =
  ps_id :: string
  ps_token_a :: string
  ps_token_b :: string
  ps_reserve_a :: f64
  ps_reserve_b :: f64
  ps_price :: f64
  ps_volume :: f64
  ps_fees :: f64
  ps_trades :: "64 word"
  ps_providers :: int
  ps_tvl :: f64

record dex =
  pools :: "string \<rightharpoonup> pool"
  swap_history :: "swap_result list"

record dex_stats =
  ds_pools :: int
  ds_trades :: "64 word"
  ds_volume :: f64
  ds_fees :: f64
  ds_fee_bps :: int

datatype dex_error =
    PoolExists string
  | PoolNotFound string
  | NotPositive
  | TooLittleLiquidity
  | NotEnoughLP f64 f64
  | TokenNotInPool string

definition new_dex :: dex where
  "new_dex = \<lparr>pools = Map.empty, swap_history = []\<rparr>"

definition set_pool :: "pool \<Rightarrow> string \<Rightarrow> dex \<Rightarrow> dex" where
  "set_pool p i dk = dk\<lparr>pools := (pools dk)(i \<mapsto> p)\<rparr>"

section \<open>Liquidity\<close>

definition create_pool ::
    "string \<Rightarrow> string \<Rightarrow> f64 \<Rightarrow> f64 \<Rightarrow> string \<Rightarrow> string \<Rightarrow> dex \<Rightarrow> (dex_error, pool) res \<times> dex" where
  "create_pool token_a token_b amount_a amount_b creator now dk =
     (let i = token_a @ ''-'' @ token_b in
      if i \<in> dom (pools dk) then (Err (PoolExists i), dk)
      else if fle amount_a (Fin 0) \<or> fle amount_b (Fin 0) then (Err NotPositive, dk)
      else let lp = fsub (fsqrt (fmul amount_a amount_b)) minimum_liquidity in
      if fle lp (Fin 0) then (Err TooLittleLiquidity, dk)
      else
        let p = \<lparr>pl_id = i, pl_token_a = token_a, pl_token_b = token_b, pl_reserve_a = amount_a,
                 pl_reserve_b = amount_b, pl_total_lp = fadd lp minimum_liquidity,
                 pl_holders = [creator \<mapsto> lp], pl_volume = Fin 0, pl_fees = Fin 0, pl_created = now,
                 pl_trades = 0\<rparr>
        in (Ok p, set_pool p i dk))"

definition lp_of :: "string \<Rightarrow> pool \<Rightarrow> f64" where
  "lp_of provider p = (case pl_holders p provider of None \<Rightarrow> Fin 0 | Some x \<Rightarrow> x)"

definition add_liquidity ::
    "string \<Rightarrow> f64 \<Rightarrow> f64 \<Rightarrow> string \<Rightarrow> dex \<Rightarrow> (dex_error, add_result) res \<times> dex" where
  "add_liquidity i amount_a amount_b provider dk =
     (case pools dk i of
        None \<Rightarrow> (Err (PoolNotFound i), dk)
      | Some p \<Rightarrow>
          if fle amount_a (Fin 0) \<or> fle amount_b (Fin 0) then (Err NotPositive, dk)
          else
            let lp = fmin (fmul (fdiv amount_a (pl_reserve_a p)) (pl_total_lp p))
                          (fmul (fdiv amount_b (pl_reserve_b p)) (pl_total_lp p));
                p' = p\<lparr>pl_reserve_a := fadd (pl_reserve_a p) amount_a,
                       pl_reserve_b := fadd (pl_reserve_b p) amount_b,
                       pl_total_lp := fadd (pl_total_lp p) lp,
                       pl_holders := (pl_holders p)(provider \<mapsto> fadd (lp_of provider p) lp)\<rparr>
            in (Ok \<lparr>ar_pool = i, ar_token_a = pl_token_a p, ar_token_b = pl_token_b p,
                    ar_amount_a = amount_a, ar_amount_b = amount_b, ar_lp = lp,
                    ar_provider = provider, ar_success = True\<rparr>, set_pool p' i dk))"

definition remove_liquidity ::
    "string \<Rightarrow> f64 \<Rightarrow> string \<Rightarrow> dex \<Rightarrow> (dex_error, f64 \<times> f64) res \<times> dex" where
  "remove_liquidity i lp provider dk =
     (case pools dk i of
        None \<Rightarrow> (Err (PoolNotFound i), dk)
      | Some p \<Rightarrow>
          let provider_lp = lp_of provider p in
          if flt provider_lp lp then (Err (NotEnoughLP provider_lp lp), dk)
          else
            let share = fdiv lp (pl_total_lp p);
                amount_a = fmul share (pl_reserve_a p);
                amount_b = fmul share (pl_reserve_b p);
                p' = p\<lparr>pl_reserve_a := fsub (pl_reserve_a p) amount_a,
                       pl_reserve_b := fsub (pl_reserve_b p) amount_b,
                       pl_total_lp := fsub (pl_total_lp p) lp,
                       pl_holders := (pl_holders p)(provider \<mapsto> fsub provider_lp lp)\<rparr>
            in (Ok (amount_a, amount_b), set_pool p' i dk))"

section \<open>Swaps\<close>

text \<open>The arithmetic that \<open>Swap\<close> and \<open>GetQuote\<close> share: fee, amount after the fee, new reserves,
  amount out, price impact and new price.\<close>

definition swap_fee :: "f64 \<Rightarrow> f64" where
  "swap_fee amount_in = fdiv (fmul amount_in (f64_of_int swap_fee_bps)) (Fin 10000)"

definition new_reserve_in :: "f64 \<Rightarrow> f64 \<Rightarrow> f64" where
  "new_reserve_in reserve_in amount_in = fadd reserve_in (fsub amount_in (swap_fee amount_in))"

definition new_reserve_out :: "f64 \<Rightarrow> f64 \<Rightarrow> f64 \<Rightarrow> f64" where
  "new_reserve_out reserve_in reserve_out amount_in =
     fdiv (fmul reserve_in reserve_out) (new_reserve_in reserve_in amount_in)"

definition swap_out :: "f64 \<Rightarrow> f64 \<Rightarrow> f64 \<Rightarrow> f64" where
  "swap_out reserve_in reserve_out amount_in =
     fsub reserve_out (new_reserve_out reserve_in reserve_out amount_in)"

definition price_after :: "f64 \<Rightarrow> f64 \<Rightarrow> f64 \<Rightarrow> f64" where
  "price_after reserve_in reserve_out amount_in =
     fdiv (new_reserve_out reserve_in reserve_out amount_in) (new_reserve_in reserve_in amount_in)"

definition price_impact :: "f64 \<Rightarrow> f64 \<Rightarrow> f64 \<Rightarrow> f64" where
  "price_impact reserve_in reserve_out amount_in =
     (let old_price = fdiv reserve_out reserve_in
      in fmul (fdiv (fabs (fsub old_price (price_after reserve_in reserve_out amount_in))) old_price) (Fin 100))"

definition swap_record :: "pool \<Rightarrow> string \<Rightarrow> f64 \<Rightarrow> f64 \<Rightarrow> string \<Rightarrow> f64 \<Rightarrow> string \<Rightarrow> string \<Rightarrow> swap_result" where
  "swap_record p i reserve_in reserve_out token_in amount_in token_out now =
     \<lparr>sr_amount_in = amount_in, sr_amount_out = swap_out reserve_in reserve_out amount_in,
      sr_fee = swap_fee amount_in, sr_impact = price_impact reserve_in reserve_out amount_in,
      sr_new_price = price_after reserve_in reserve_out amount_in, sr_token_in = token_in,
      sr_token_out = token_out, sr_pool = i, sr_timestamp = now, sr_success = True, sr_slippage = None\<rparr>"

definition failed_swap :: "f64 \<Rightarrow> f64 \<Rightarrow> swap_result" where
  "failed_swap out min_out =
     \<lparr>sr_amount_in = Fin 0, sr_amount_out = Fin 0, sr_fee = Fin 0, sr_impact = Fin 0, sr_new_price = Fin 0,
      sr_token_in = '''', sr_token_out = '''', sr_pool = '''', sr_timestamp = '''', sr_success = False,
      sr_slippage = Some (out, min_out)\<rparr>"

definition swap ::
    "string \<Rightarrow> string \<Rightarrow> f64 \<Rightarrow> f64 \<Rightarrow> string \<Rightarrow> string \<Rightarrow> dex \<Rightarrow> (dex_error, swap_result) res \<times> dex" where
  "swap i token_in amount_in min_out trader now dk =
     (case pools dk i of
        None \<Rightarrow> (Err (PoolNotFound i), dk)
      | Some p \<Rightarrow>
          if fle amount_in (Fin 0) then (Err NotPositive, dk)
          else if token_in \<noteq> pl_token_a p \<and> token_in \<noteq> pl_token_b p then (Err (TokenNotInPool token_in), dk)
          else
            let a_in = (token_in = pl_token_a p);
                reserve_in = (if a_in then pl_reserve_a p else pl_reserve_b p);
                reserve_out = (if a_in then pl_reserve_b p else pl_reserve_a p);
                token_out = (if a_in then pl_token_b p else pl_token_a p);
                out = swap_out reserve_in reserve_out amount_in
            in if flt out min_out then (Ok (failed_swap out min_out), dk)
               else
                 let rin = new_reserve_in reserve_in amount_in;
                     rout = new_reserve_out reserve_in reserve_out amount_in;
                     p1 = (if a_in then p\<lparr>pl_reserve_a := rin, pl_reserve_b := rout\<rparr>
                           else p\<lparr>pl_reserve_b := rin, pl_reserve_a := rout\<rparr>);
                     p2 = p1\<lparr>pl_volume := fadd (pl_volume p1) amount_in,
                             pl_fees := fadd (pl_fees p1) (swap_fee amount_in),
                             pl_trades := pl_trades p1 + 1\<rparr>;
                     r = swap_record p i reserve_in reserve_out token_in amount_in token_out now;
                     dk' = set_pool p2 i (dk\<lparr>swap_history := swap_history dk @ [r]\<rparr>)
                 in (if slice_ok 10 trader then Ok r else Panic, dk'))"

text \<open>\<open>GetQuote\<close> checks neither the amount nor that the token is in the pool.\<close>

definition get_quote :: "string \<Rightarrow> string \<Rightarrow> f64 \<Rightarrow> dex \<Rightarrow> (dex_error, swap_result) res" where
  "get_quote i token_in amount_in dk =
     (case pools dk i of
        None \<Rightarrow> Err (PoolNotFound i)
      | Some p \<Rightarrow>
          let a_in = (token_in = pl_token_a p)
          in Ok (swap_record p i (if a_in then pl_reserve_a p else pl_reserve_b p)
                   (if a_in then pl_reserve_b p else pl_reserve_a p) token_in amount_in
                   (if a_in then pl_token_b p else pl_token_a p) ''''))"

section \<open>Queries\<close>

definition get_pool_stats :: "string \<Rightarrow> dex \<Rightarrow> (dex_error, pool_stats) res" where
  "get_pool_stats i dk =
     (case pools dk i of
        None \<Rightarrow> Err (PoolNotFound i)
      | Some p \<Rightarrow>
          Ok \<lparr>ps_id = pl_id p, ps_token_a = pl_token_a p, ps_token_b = pl_token_b p,
              ps_reserve_a = pl_reserve_a p, ps_reserve_b = pl_reserve_b p,
              ps_price = (if flt (Fin 0) (pl_reserve_a p) then fdiv (pl_reserve_b p) (pl_reserve_a p) else Fin 0),
              ps_volume = pl_volume p, ps_fees = pl_fees p, ps_trades = pl_trades p,
              ps_providers = int (card (dom (pl_holders p))), ps_tvl = fmul (pl_reserve_b p) (Fin 2)\<rparr>)"

definition get_all_pools :: "string list \<Rightarrow> dex \<Rightarrow> pool list" where
  "get_all_pools order dk = range_values order (pools dk)"

definition get_swap_history :: "int \<Rightarrow> dex \<Rightarrow> (unit, swap_result list) res" where
  "get_swap_history limit dk = newest_first limit (swap_history dk)"

fun dex_sums :: "pool list \<Rightarrow> dex_stats \<Rightarrow> dex_stats" where
  "dex_sums [] st = st"
| "dex_sums (p # ps) st =
     dex_sums ps (st\<lparr>ds_trades := ds_trades st + pl_trades p, ds_volume := fadd (ds_volume st) (pl_volume p),
       ds_fees := fadd (ds_fees st) (pl_fees p)\<rparr>)"

definition dex_stats_of :: "string list \<Rightarrow> dex \<Rightarrow> dex_stats" where
  "dex_stats_of order dk =
     dex_sums (range_values order (pools dk))
       \<lparr>ds_pools = int (card (dom (pools dk))), ds_trades = 0, ds_volume = Fin 0, ds_fees = Fin 0,
        ds_fee_bps = swap_fee_bps\<rparr>"

section \<open>The swap in exact arithmetic\<close>

text \<open>Amounts and reserves the accuracy results are stated for: far wider than any real market.\<close>

definition market :: "rat \<Rightarrow> bool" where
  "market x \<longleftrightarrow> representable x \<and> pow2 (-200) \<le> x \<and> x \<le> pow2 200"

lemma market_pos: "market x \<Longrightarrow> 0 < x"
  unfolding market_def using pow2_pos [of "-200"] by linarith

lemma market_rel: "market x \<Longrightarrow> rel 0 x x"
  using market_pos by (intro rel_refl) (simp add: less_imp_le)

lemma pow2_mult: "pow2 a * pow2 b = pow2 (a + b)"
  by (simp add: pow2_add)

lemma market_mult:
  assumes "market a" "market b"
  shows "pow2 (-400) \<le> a * b" "a * b \<le> pow2 400"
proof -
  have "pow2 (-200) * pow2 (-200) \<le> a * b" "a * b \<le> pow2 200 * pow2 200"
    using assms market_pos [OF assms(1)] market_pos [OF assms(2)] unfolding market_def
    by (intro mult_mono; simp add: less_imp_le)+
  then show "pow2 (-400) \<le> a * b" "a * b \<le> pow2 400" by (simp_all add: pow2_mult)
qed

lemma pow2_le_one: "1 \<le> pow2 200" "pow2 (-200) \<le> 1"
  using pow2_le_iff [of 0 200] pow2_le_iff [of "-200" 0] by (simp_all add: pow2_def)

lemma rnd_pow2: "-1074 \<le> k \<Longrightarrow> rnd (pow2 k) = pow2 k"
  using rnd_representable [OF representable_of_int [of 1 k]] by simp

lemma mk_bounded:
  assumes "\<bar>x\<bar> \<le> pow2 1000"
  shows "mk x = Fin (rnd x)"
proof (rule mk_Fin)
  have "rnd x \<le> pow2 1000" "- pow2 1000 \<le> rnd x"
    using rnd_mono [of x "pow2 1000"] rnd_mono [of "- pow2 1000" x] assms rnd_pow2 [of 1000]
    by (auto simp: abs_le_iff rnd_minus)
  then have "\<bar>rnd x\<bar> \<le> pow2 1000" by (simp add: abs_le_iff)
  also have "\<dots> < pow2 1024" by simp
  finally show "\<bar>rnd x\<bar> < pow2 1024" .
qed

lemma pow2_small_multiple: "pow2 (-199) \<le> y \<Longrightarrow> pow2 (-1000) \<le> y"
  using pow2_le_iff [of "-1000" "-199"] by linarith

text \<open>Fee and net amount of a swap.\<close>

lemma swap_fee_bounds:
  assumes "market x"
  obtains f d where "swap_fee (Fin x) = Fin f" "0 \<le> f" "f \<le> x / 2" "fsub (Fin x) (swap_fee (Fin x)) = Fin d"
    "0 < d" "d \<le> x"
proof -
  have x: "0 < x" "pow2 (-200) \<le> x" "x \<le> pow2 200" using assms market_pos by (simp_all add: market_def)
  have p: "pow2 (-1000) \<le> pow2 (-200) * (30 / 10000)" "pow2 200 * 30 \<le> pow2 1000"
    "pow2 (-1022) \<le> pow2 (-200) * (1 / 2)" "pow2 200 \<le> pow2 1000"
  proof -
    have "pow2 (-1000) \<le> pow2 (-209)" by simp
    also have "\<dots> = pow2 (-200) * pow2 (-9)" by (simp add: pow2_mult)
    also have "pow2 (-9) = 1 / 512" by (simp add: pow2_def power_int_def power_one_over)
    finally have "pow2 (-1000) \<le> pow2 (-200) * (1 / 512)" .
    then show "pow2 (-1000) \<le> pow2 (-200) * (30 / 10000)" using pow2_pos [of "-200"] by linarith
    have "pow2 200 * 30 \<le> pow2 200 * pow2 5" by (simp add: pow2_def power_int_def)
    also have "\<dots> \<le> pow2 1000" by (simp add: pow2_mult)
    finally show "pow2 200 * 30 \<le> pow2 1000" .
    have "pow2 (-1022) \<le> pow2 (-201)" by simp
    also have "\<dots> = pow2 (-200) * pow2 (-1)" by (simp add: pow2_mult)
    also have "pow2 (-1) = 1 / 2" by (simp add: pow2_def power_int_def)
    finally show "pow2 (-1022) \<le> pow2 (-200) * (1 / 2)" .
    show "pow2 200 \<le> pow2 1000" by simp
  qed
  have "rel 0 (x * 30) (x * 30)" using x(1) by (intro rel_refl) simp
  moreover have "pow2 (-1000) \<le> x * 30" "x * 30 \<le> pow2 1000"
    using p(1,2) x by linarith+
  ultimately have m1: "mk (x * 30) = Fin (rnd (x * 30))" "rel 1 (rnd (x * 30)) (x * 30)"
    using mk_rel [of 0 "x * 30" "x * 30"] by simp_all
  have "rel 1 (rnd (x * 30) / 10000) (x * 30 / 10000)" by (rule rel_divide [OF m1(2)]) simp
  moreover have "pow2 (-1000) \<le> x * 30 / 10000" "x * 30 / 10000 \<le> pow2 1000" using p(1,2) x by linarith+
  ultimately have m2: "mk (rnd (x * 30) / 10000) = Fin (rnd (rnd (x * 30) / 10000))"
    "rel 2 (rnd (rnd (x * 30) / 10000)) (x * 30 / 10000)"
    using mk_rel [of 1 "rnd (x * 30) / 10000" "x * 30 / 10000"] by (simp_all add: numeral_2_eq_2)
  define f where "f = rnd (rnd (x * 30) / 10000)"
  have fee: "swap_fee (Fin x) = Fin f"
    using m1(1) m2(1) f64_of_int_exact [of 30] by (simp add: swap_fee_def swap_fee_bps_def f_def)
  have f: "0 \<le> f" "f \<le> x / 2" using rel_nonneg [OF m2(2)] rel_bounds(2) [OF m2(2)] x(1) by (simp_all add: f_def)
  have "\<bar>x - f\<bar> \<le> pow2 1000" unfolding abs_le_iff using f x p(4) by (intro conjI; linarith)
  then have net: "fsub (Fin x) (swap_fee (Fin x)) = Fin (rnd (x - f))" by (simp add: fsub_def fee mk_bounded)
  have "rnd (x - f) \<le> rnd x" using f(1) by (intro rnd_mono) simp
  then have "rnd (x - f) \<le> x" using assms by (simp add: market_def rnd_representable)
  moreover have "pow2 (-201) \<le> rnd (x - f)"
  proof -
    have "pow2 (-201) = pow2 (-200) * pow2 (-1)" by (simp add: pow2_mult)
    then have "pow2 (-201) \<le> x - f" using x f by (simp add: pow2_def power_int_def)
    then have "rnd (pow2 (-201)) \<le> rnd (x - f)" by (rule rnd_mono)
    then show ?thesis by (simp add: rnd_pow2)
  qed
  then have "0 < rnd (x - f)" using pow2_pos [of "-201"] by linarith
  ultimately show ?thesis using that fee f net by blast
qed

lemma swap_reserves:
  assumes "market a" "market b" "market x"
  obtains n r where "new_reserve_in (Fin a) (Fin x) = Fin n" "a \<le> n" "n \<le> pow2 202"
    "new_reserve_out (Fin a) (Fin b) (Fin x) = Fin r" "rel 2 (r * n) (a * b)" "0 \<le> r"
    "swap_out (Fin a) (Fin b) (Fin x) = Fin (rnd (b - r))" "rnd (b - r) \<le> b"
proof -
  obtain f d where d: "fsub (Fin x) (swap_fee (Fin x)) = Fin d" "0 < d" "d \<le> x"
    by (rule swap_fee_bounds [OF assms(3)])
  have a: "0 < a" "a \<le> pow2 200" "rnd a = a" and b: "0 < b" "b \<le> pow2 200" "rnd b = b" and x: "x \<le> pow2 200"
    using assms market_pos by (auto simp: market_def rnd_representable)
  have p: "pow2 200 + pow2 200 = pow2 201" "pow2 201 \<le> pow2 202" "pow2 202 \<le> pow2 1000"
  proof -
    show "pow2 200 + pow2 200 = pow2 201"
      using pow2_add [of 200 1] by (simp add: pow2_def [of 1] power_int_def)
  qed simp_all
  have ad: "a + d \<le> pow2 201" using a(2) d(3) x p(1) by linarith
  have "\<bar>a + d\<bar> \<le> pow2 1000" unfolding abs_le_iff using ad a(1) d(2) p(2,3) by (intro conjI; linarith)
  then have n: "new_reserve_in (Fin a) (Fin x) = Fin (rnd (a + d))" by (simp add: new_reserve_in_def d(1) mk_bounded)
  define N where "N = rnd (a + d)"
  have "rnd a \<le> N" unfolding N_def using d(2) by (intro rnd_mono) simp
  then have N1: "a \<le> N" by (simp add: a(3))
  have "N \<le> rnd (pow2 201)" unfolding N_def using ad by (rule rnd_mono)
  then have N2: "N \<le> pow2 202" using p(2) rnd_pow2 [of 201] by linarith
  have N0: "0 < N" using N1 a(1) by simp
  note ab = market_mult [OF assms(1,2)]
  have "pow2 (-1000) \<le> pow2 (-400)" "pow2 400 \<le> pow2 1000" by simp_all
  then have "pow2 (-1000) \<le> a * b" "a * b \<le> pow2 1000" using ab by linarith+
  then have m1: "mk (a * b) = Fin (rnd (a * b))" "rel 1 (rnd (a * b)) (a * b)"
    using mk_rel [OF rel_mult [OF market_rel [OF assms(1)] market_rel [OF assms(2)]]] by simp_all
  have r1: "rel 1 (rnd (a * b) / N) (a * b / N)" by (rule rel_divide [OF m1(2) N0])
  have lo: "pow2 (-1000) \<le> a * b / N"
  proof -
    have "pow2 (-602) = pow2 (-400) / pow2 202" using pow2_diff [of "-400" 202] by simp
    also have "\<dots> \<le> a * b / N" using ab N0 N2 a(1) b(1) by (intro frac_le) simp_all
    finally show ?thesis using pow2_le_iff [of "-1000" "-602"] by linarith
  qed
  have hi: "a * b / N \<le> pow2 200"
  proof -
    have "a * b / N \<le> a * b / a" using N1 a(1) b(1) by (intro divide_left_mono) simp_all
    then show ?thesis using a(1) b(2) by simp
  qed
  have "pow2 200 \<le> pow2 1000" by simp
  then have "a * b / N \<le> pow2 1000" using hi by linarith
  then have m2: "mk (rnd (a * b) / N) = Fin (rnd (rnd (a * b) / N))" "rel 2 (rnd (rnd (a * b) / N)) (a * b / N)"
    using mk_rel [OF r1] lo by (simp_all add: numeral_2_eq_2)
  define R where "R = rnd (rnd (a * b) / N)"
  have out: "new_reserve_out (Fin a) (Fin b) (Fin x) = Fin R"
    using N0 by (simp add: new_reserve_out_def n m1(1) N_def [symmetric] m2(1) R_def)
  have R0: "0 \<le> R" using rel_nonneg [OF m2(2)] by (simp add: R_def)
  have prod: "rel 2 (R * N) (a * b)"
    using rel_mult [OF m2(2) rel_refl [of N]] N0 by (simp add: R_def)
  have "R \<le> a * b / N * (1 + 1 / 2 ^ 49)" using rel_bounds(2) [OF m2(2)] by (simp add: R_def)
  also have "\<dots> \<le> pow2 200 * 2" using hi a(1) b(1) N0 by (intro mult_mono) simp_all
  finally have "R \<le> pow2 201" using p(1) by simp
  then have "\<bar>b - R\<bar> \<le> pow2 1000" unfolding abs_le_iff using R0 b(1,2) p by (intro conjI; linarith)
  then have so: "swap_out (Fin a) (Fin b) (Fin x) = Fin (rnd (b - R))" by (simp add: swap_out_def fsub_def out mk_bounded)
  have "rnd (b - R) \<le> rnd b" using R0 by (intro rnd_mono) simp
  then have "rnd (b - R) \<le> b" by (simp add: b(3))
  then show ?thesis using that n N1 N2 out prod R0 so unfolding N_def [symmetric] by blast
qed

lemma rel2_product:
  assumes "rel 2 x y"
  shows "\<bar>x - y\<bar> \<le> y / 2 ^ 51"
proof -
  have y: "0 \<le> y" using assms by (simp only: rel_def)
  have "1 - 1 / 2 ^ 51 \<le> (1 - pow2 (-53)) ^ 2" "(1 + pow2 (-53)) ^ 2 \<le> 1 + 1 / 2 ^ 51"
    by (simp_all add: pow2_def power_int_def power_one_over) (simp_all add: power_divide)
  then have "y * (1 - 1 / 2 ^ 51) \<le> y * (1 - pow2 (-53)) ^ 2" "y * (1 + pow2 (-53)) ^ 2 \<le> y * (1 + 1 / 2 ^ 51)"
    using y mult_left_mono by blast+
  then have "y * (1 - 1 / 2 ^ 51) \<le> x" "x \<le> y * (1 + 1 / 2 ^ 51)" using assms unfolding rel_def by linarith+
  then show ?thesis unfolding abs_le_iff right_diff_distrib distrib_left by simp
qed

section \<open>Properties\<close>

text \<open>The reserves of a pool, seen from the token paid in.\<close>

definition oriented :: "string \<Rightarrow> pool \<Rightarrow> f64 \<times> f64" where
  "oriented token_in p =
     (if token_in = pl_token_a p then (pl_reserve_a p, pl_reserve_b p) else (pl_reserve_b p, pl_reserve_a p))"

definition demo_pool_ab :: pool where
  "demo_pool_ab = \<lparr>pl_id = ''NVX-USDT'', pl_token_a = ''NVX'', pl_token_b = ''USDT'', pl_reserve_a = Fin 1000000,
     pl_reserve_b = Fin 500000, pl_total_lp = Fin 700000, pl_holders = [''lp'' \<mapsto> Fin 699000], pl_volume = Fin 0,
     pl_fees = Fin 0, pl_created = '''', pl_trades = 0\<rparr>"

definition demo_dex :: dex where
  "demo_dex = \<lparr>pools = [''NVX-USDT'' \<mapsto> demo_pool_ab], swap_history = []\<rparr>"

lemma market_int: "1 \<le> n \<Longrightarrow> n \<le> 2 ^ 53 \<Longrightarrow> market (of_int n)"
proof -
  assume n: "1 \<le> n" "n \<le> 2 ^ 53"
  have "(1 :: rat) \<le> of_int n" "(of_int n :: rat) \<le> of_int (2 ^ 53)" using n by (simp_all only: of_int_1_le_iff of_int_le_iff)
  moreover have "(of_int (2 ^ 53) :: rat) = pow2 53" by (simp add: pow2_def power_int_def)
  moreover have "pow2 53 \<le> pow2 200" by simp
  ultimately have "pow2 (-200) \<le> of_int n" "of_int n \<le> pow2 200" using pow2_le_one(2) by linarith+
  then show ?thesis using n representable_int [of n] by (simp add: market_def)
qed

lemma swap_eq:
  assumes "pools dk i = Some p" "token_in = pl_token_a p \<or> token_in = pl_token_b p"
    "\<not> fle x (Fin 0)" "oriented token_in p = (a, b)" "\<not> flt (swap_out a b x) m"
  shows "\<exists>p'. oriented token_in p' = (new_reserve_in a x, new_reserve_out a b x)
    \<and> pl_trades p' = pl_trades p + 1 \<and> pl_total_lp p' = pl_total_lp p \<and> pl_holders p' = pl_holders p
    \<and> swap i token_in x m trader now dk =
       (if 10 \<le> length trader then Ok (swap_record p i a b token_in x (if token_in = pl_token_a p then pl_token_b p else pl_token_a p) now)
        else Panic,
        set_pool p' i (dk\<lparr>swap_history := swap_history dk @
           [swap_record p i a b token_in x (if token_in = pl_token_a p then pl_token_b p else pl_token_a p) now]\<rparr>))"
proof -
  let ?p1 = "if token_in = pl_token_a p
             then p\<lparr>pl_reserve_a := new_reserve_in a x, pl_reserve_b := new_reserve_out a b x\<rparr>
             else p\<lparr>pl_reserve_b := new_reserve_in a x, pl_reserve_a := new_reserve_out a b x\<rparr>"
  let ?p2 = "?p1\<lparr>pl_volume := fadd (pl_volume ?p1) x, pl_fees := fadd (pl_fees ?p1) (swap_fee x),
                 pl_trades := pl_trades ?p1 + 1\<rparr>"
  show ?thesis
    by (rule exI [of _ ?p2]) (use assms in \<open>auto simp: swap_def oriented_def Let_def slice_ok_def split: if_splits\<close>)
qed

text \<open>
  C30: A swap keeps the product of the reserves: for reserves and an amount between 2^-200 and 2^200, a
  swap that passes its slippage check moves the reserves to \<open>n\<close> and \<open>r\<close> with \<open>n * r\<close> within a
  relative error of 2^-51 of the old product, the paid-in reserve does not shrink, the other one
  is not negative, and the trader gets at least the demanded minimum and at most the reserve.
\<close>
theorem swap_keeps_product:
  assumes "pools dk i = Some p" "token_in = pl_token_a p \<or> token_in = pl_token_b p"
    and "oriented token_in p = (Fin a, Fin b)" "market a" "market b" "market x"
    and "fst (swap i token_in (Fin x) (Fin m) trader now dk) = Ok res" "sr_success res"
  shows "\<exists>p' n r out. pools (snd (swap i token_in (Fin x) (Fin m) trader now dk)) i = Some p'
    \<and> oriented token_in p' = (Fin n, Fin r) \<and> \<bar>n * r - a * b\<bar> \<le> a * b / 2 ^ 51
    \<and> a \<le> n \<and> 0 \<le> r \<and> sr_amount_out res = Fin out \<and> m \<le> out \<and> out \<le> b
    \<and> pl_total_lp p' = pl_total_lp p \<and> pl_holders p' = pl_holders p"
proof -
  obtain n r where nr: "new_reserve_in (Fin a) (Fin x) = Fin n" "a \<le> n"
    "new_reserve_out (Fin a) (Fin b) (Fin x) = Fin r" "rel 2 (r * n) (a * b)" "0 \<le> r"
    "swap_out (Fin a) (Fin b) (Fin x) = Fin (rnd (b - r))" "rnd (b - r) \<le> b"
    by (rule swap_reserves [OF assms(4-6)])
  have pos: "\<not> fle (Fin x) (Fin 0)" using market_pos [OF assms(6)] by simp
  have slip: "\<not> flt (swap_out (Fin a) (Fin b) (Fin x)) (Fin m)"
  proof
    assume "flt (swap_out (Fin a) (Fin b) (Fin x)) (Fin m)"
    then have "fst (swap i token_in (Fin x) (Fin m) trader now dk) = Ok (failed_swap (swap_out (Fin a) (Fin b) (Fin x)) (Fin m))"
      using assms(1-3) pos by (auto simp: swap_def oriented_def Let_def split: if_splits)
    then show False using assms(7,8) by (simp add: failed_swap_def)
  qed
  obtain p' where p': "oriented token_in p' = (Fin n, Fin r)" "pl_total_lp p' = pl_total_lp p" "pl_holders p' = pl_holders p"
    "swap i token_in (Fin x) (Fin m) trader now dk =
       (if 10 \<le> length trader then Ok (swap_record p i (Fin a) (Fin b) token_in (Fin x) (if token_in = pl_token_a p then pl_token_b p else pl_token_a p) now)
        else Panic,
        set_pool p' i (dk\<lparr>swap_history := swap_history dk @
           [swap_record p i (Fin a) (Fin b) token_in (Fin x) (if token_in = pl_token_a p then pl_token_b p else pl_token_a p) now]\<rparr>))"
    using swap_eq [OF assms(1,2) pos assms(3) slip, of trader now] nr(1,3) by auto
  have "sr_amount_out res = Fin (rnd (b - r))"
    using assms(7) p'(4) nr(6) by (auto simp: swap_record_def split: if_splits)
  moreover have "m \<le> rnd (b - r)" using slip nr(6) by (auto simp: flt_def)
  moreover have "\<bar>n * r - a * b\<bar> \<le> a * b / 2 ^ 51" using rel2_product [OF nr(4)] by (simp add: mult.commute)
  moreover have "pools (snd (swap i token_in (Fin x) (Fin m) trader now dk)) i = Some p'" by (simp add: p'(4) set_pool_def)
  ultimately show ?thesis using p'(1-3) nr(2,5,7) by blast
qed

theorem swap_keeps_product_witness:
  "\<exists>m p' n r. pools (snd (swap ''NVX-USDT'' ''USDT'' (Fin 1000) (Fin m) ''0123456789'' ''t'' demo_dex)) ''NVX-USDT'' = Some p'
     \<and> oriented ''USDT'' p' = (Fin n, Fin r) \<and> \<bar>n * r - 500000 * 1000000\<bar> \<le> 500000 * 1000000 / 2 ^ 51"
proof -
  have mk: "market 500000" "market 1000000" "market 1000"
    using market_int [of 500000] market_int [of 1000000] market_int [of 1000] by simp_all
  have p: "pools demo_dex ''NVX-USDT'' = Some demo_pool_ab" by (simp add: demo_dex_def)
  have t: "''USDT'' = pl_token_a demo_pool_ab \<or> ''USDT'' = pl_token_b demo_pool_ab" by (simp add: demo_pool_ab_def)
  have o: "oriented ''USDT'' demo_pool_ab = (Fin 500000, Fin 1000000)" by (simp add: oriented_def demo_pool_ab_def)
  obtain n r where nr: "swap_out (Fin 500000) (Fin 1000000) (Fin 1000) = Fin (rnd (1000000 - r))"
    by (rule swap_reserves [OF mk])
  then have nf: "\<not> flt (swap_out (Fin 500000) (Fin 1000000) (Fin 1000)) (Fin (rnd (1000000 - r)))" by (simp add: flt_def)
  obtain res where "fst (swap ''NVX-USDT'' ''USDT'' (Fin 1000) (Fin (rnd (1000000 - r))) ''0123456789'' ''t'' demo_dex) = Ok res" "sr_success res"
    using swap_eq [OF p t _ o nf, of "''0123456789''" "''t''"] by (auto simp: swap_record_def)
  from swap_keeps_product [OF p t o mk this] show ?thesis by blast
qed

text \<open>
  A quote is what a swap pays: whenever a swap succeeds, \<open>GetQuote\<close> for the same token and amount
  gave beforehand exactly its result, the timestamp apart, and the swap is appended to the
  history with that result.
\<close>
theorem quote_predicts_swap:
  assumes "swap i token_in amount min_out trader now dk = (Ok r, dk')" "sr_success r"
  shows "get_quote i token_in amount dk = Ok (r\<lparr>sr_timestamp := ''''\<rparr>) \<and> swap_history dk' = swap_history dk @ [r]"
proof -
  obtain p where p: "pools dk i = Some p" using assms(1) by (auto simp: swap_def split: option.splits)
  have q: "\<not> fle amount (Fin 0)" "token_in = pl_token_a p \<or> token_in = pl_token_b p"
    using assms(1) p by (auto simp: swap_def split: if_splits)
  obtain a b where o: "oriented token_in p = (a, b)" by fastforce
  have s: "\<not> flt (swap_out a b amount) min_out"
  proof
    assume "flt (swap_out a b amount) min_out"
    then have "fst (swap i token_in amount min_out trader now dk) = Ok (failed_swap (swap_out a b amount) min_out)"
      using p q o by (auto simp: swap_def oriented_def Let_def split: if_splits)
    then show False using assms by (simp add: failed_swap_def)
  qed
  obtain p' where sw: "swap i token_in amount min_out trader now dk =
       (if 10 \<le> length trader then Ok (swap_record p i a b token_in amount (if token_in = pl_token_a p then pl_token_b p else pl_token_a p) now)
        else Panic,
        set_pool p' i (dk\<lparr>swap_history := swap_history dk @
           [swap_record p i a b token_in amount (if token_in = pl_token_a p then pl_token_b p else pl_token_a p) now]\<rparr>))"
    using swap_eq [OF p q(2,1) o s] by blast
  have r: "r = swap_record p i a b token_in amount (if token_in = pl_token_a p then pl_token_b p else pl_token_a p) now"
    "swap_history dk' = swap_history dk @ [r]"
    using sw assms(1) by (auto simp: set_pool_def split: if_splits)
  moreover have "get_quote i token_in amount dk = Ok (r\<lparr>sr_timestamp := ''''\<rparr>)"
    using p o r(1) by (auto simp: get_quote_def Let_def swap_record_def oriented_def split: if_splits)
  ultimately show ?thesis by simp
qed

theorem quote_predicts_swap_witness:
  "\<exists>r dk'. swap ''NVX-USDT'' ''NVX'' (Fin 1000) NInf ''0123456789'' ''t'' demo_dex = (Ok r, dk')
     \<and> get_quote ''NVX-USDT'' ''NVX'' (Fin 1000) demo_dex = Ok (r\<lparr>sr_timestamp := ''''\<rparr>)"
proof -
  have mk: "market 1000000" "market 500000" "market 1000"
    using market_int [of 500000] market_int [of 1000000] market_int [of 1000] by simp_all
  have p: "pools demo_dex ''NVX-USDT'' = Some demo_pool_ab" by (simp add: demo_dex_def)
  have t: "''NVX'' = pl_token_a demo_pool_ab \<or> ''NVX'' = pl_token_b demo_pool_ab" by (simp add: demo_pool_ab_def)
  have o: "oriented ''NVX'' demo_pool_ab = (Fin 1000000, Fin 500000)" by (simp add: oriented_def demo_pool_ab_def)
  obtain n r where "swap_out (Fin 1000000) (Fin 500000) (Fin 1000) = Fin (rnd (500000 - r))"
    by (rule swap_reserves [OF mk])
  then have nf: "\<not> flt (swap_out (Fin 1000000) (Fin 500000) (Fin 1000)) NInf" by (simp add: flt_def)
  obtain r dk' where s: "swap ''NVX-USDT'' ''NVX'' (Fin 1000) NInf ''0123456789'' ''t'' demo_dex = (Ok r, dk')" "sr_success r"
    using swap_eq [OF p t _ o nf, of "''0123456789''" "''t''"] by (auto simp: swap_record_def)
  show ?thesis using quote_predicts_swap [OF s] s(1) by blast
qed

text \<open>
  Liquidity tokens from nothing: removing a negative number of them passes the check of
  \<open>RemoveLiquidity\<close> for someone who holds none and credits that number to them.
\<close>
theorem negative_removal_mints:
  assumes "pools dk i = Some p" "pl_holders p thief = None" "pl_total_lp p = Fin (of_int t)"
    and "0 < n" "n \<le> 2 ^ 52" "0 < t" "t \<le> 2 ^ 52"
  shows "\<exists>p' amounts. remove_liquidity i (Fin (- of_int n)) thief dk = (Ok amounts, set_pool p' i dk)
    \<and> lp_of thief p' = Fin (of_int n) \<and> pl_total_lp p' = Fin (of_int (t + n))"
proof -
  have z: "lp_of thief p = Fin 0" using assms(2) by (simp add: lp_of_def)
  have "mk (of_int k) = Fin (of_int k)" if "\<bar>k\<bar> \<le> 2 ^ 53" for k
    using f64_of_int_exact [OF that] by (simp add: f64_of_int_def)
  from this [of n] this [of "t + n"] have m: "mk (of_int n) = Fin (of_int n)" "mk (of_int (t + n)) = Fin (of_int (t + n))"
    using assms(4-7) by simp_all
  define share where "share = fdiv (Fin (- of_int n)) (pl_total_lp p)"
  define p' where "p' = p\<lparr>pl_reserve_a := fsub (pl_reserve_a p) (fmul share (pl_reserve_a p)),
     pl_reserve_b := fsub (pl_reserve_b p) (fmul share (pl_reserve_b p)),
     pl_total_lp := fsub (pl_total_lp p) (Fin (- of_int n)),
     pl_holders := (pl_holders p)(thief \<mapsto> fsub (lp_of thief p) (Fin (- of_int n)))\<rparr>"
  have "\<not> flt (Fin 0) (Fin (- rat_of_int n))" using assms(4) by (simp add: flt_def)
  then have "remove_liquidity i (Fin (- of_int n)) thief dk
      = (Ok (fmul share (pl_reserve_a p), fmul share (pl_reserve_b p)), set_pool p' i dk)"
    using assms(1) by (simp add: remove_liquidity_def z p'_def share_def Let_def)
  moreover have "lp_of thief p' = Fin (of_int n)"
    unfolding p'_def using m(1) by (simp add: lp_of_def [of thief "_\<lparr>pl_holders := _\<rparr>"] z fsub_def)
  moreover have "pl_total_lp p' = Fin (of_int (t + n))"
    unfolding p'_def using m(2) assms(3) by (simp add: fsub_def)
  ultimately show ?thesis by blast
qed

theorem negative_removal_mints_witness:
  "\<exists>p' amounts. remove_liquidity ''NVX-USDT'' (Fin (- of_int 5000)) ''thief'' demo_dex = (Ok amounts, set_pool p' ''NVX-USDT'' demo_dex)
     \<and> lp_of ''thief'' p' = Fin 5000"
proof -
  have "pools demo_dex ''NVX-USDT'' = Some demo_pool_ab" "pl_holders demo_pool_ab ''thief'' = None"
    "pl_total_lp demo_pool_ab = Fin (of_int 700000)"
    by (simp_all add: demo_dex_def demo_pool_ab_def)
  from negative_removal_mints [OF this, of 5000] show ?thesis by fastforce
qed

end
