(* ===== verification/Nuvex_P2P.thy ===== *)
theory Nuvex_P2P
  imports Nuvex_Blockchain Nuvex_Mempool
begin

text \<open>
  The peer-to-peer node (\<open>x/nvx/keeper/p2p.go\<close>). A connection is a number; its \<open>Peer\<close> object
  lives in a store under that number, because the goroutine that serves the connection keeps a
  pointer to it while the table of peers maps node IDs to connections. What a goroutine is doing is
  its phase. Encoding and decoding of JSON values is a record of functions; \<open>wr\<close> says on which
  connections a write succeeds. The chain is only read.
\<close>

section \<open>Data\<close>

definition max_peers :: int where
  "max_peers = 50"

definition block_channel_size :: nat where
  "block_channel_size = 100"

record p2p_message =
  m_type :: string
  m_chain_id :: string
  m_height :: i64
  m_payload :: bytes
  m_timestamp :: int
  m_node_id :: string

record peer =
  pe_id :: string
  pe_address :: string
  pe_conn :: nat
  pe_height :: i64
  pe_connected :: int
  pe_last_seen :: int
  pe_outbound :: bool

text \<open>The goroutine of a connection waits for the handshake, serves messages, or is blocked in
  sending a block to the full channel.\<close>

datatype conn_phase = Greeting | Serving | Stuck block

record p2p_node =
  n_node_id :: string
  n_address :: string
  n_peers :: "string \<rightharpoonup> nat"
  n_objs :: "nat \<rightharpoonup> peer"
  n_phase :: "nat \<rightharpoonup> conn_phase"
  n_running :: bool
  n_closed :: "nat list"
  n_new_blocks :: "block list"
  n_wire :: "(nat \<times> p2p_message) list"

record p2p_stats =
  ns_node_id :: string
  ns_address :: string
  ns_peer_count :: int
  ns_peer_list :: "string list"
  ns_chain_height :: i64
  ns_running :: bool

text \<open>\<open>encoding/json\<close> on the values that travel as payloads.\<close>

record p2p_codec =
  enc_block :: "block \<Rightarrow> bytes option"
  dec_block :: "bytes \<Rightarrow> block option"
  enc_blocks :: "block list \<Rightarrow> bytes"
  enc_tx :: "pending_tx \<Rightarrow> bytes"
  dec_tx :: "bytes \<Rightarrow> pending_tx option"
  enc_addresses :: "string list \<Rightarrow> bytes"

datatype p2p_error = Disconnected | TooLong | BadJson | DialFailed string | ListenFailed

definition new_p2p_node :: "string \<Rightarrow> p2p_node" where
  "new_p2p_node node_id =
     \<lparr>n_node_id = node_id, n_address = ''0.0.0.0:26656'', n_peers = Map.empty, n_objs = Map.empty,
      n_phase = Map.empty, n_running = False, n_closed = [], n_new_blocks = [], n_wire = []\<rparr>"

section \<open>Reading\<close>

text \<open>
  \<open>readMessage\<close> makes a new scanner for every message: it calls \<open>Read\<close> until the bytes it has hold
  a newline, hands out the first line without its carriage return, and is thrown away with the rest
  of its buffer. The list is what the successive calls of \<open>Read\<close> return; its end is the end of the
  stream, where a non-empty rest counts as a line. A buffer of 65,536 bytes without a newline is an
  error.
\<close>

definition drop_cr :: "bytes \<Rightarrow> bytes" where
  "drop_cr l = (if l \<noteq> [] \<and> last l = 13 then butlast l else l)"

fun scan_line :: "bytes \<Rightarrow> bytes list \<Rightarrow> (p2p_error, bytes) res \<times> bytes list" where
  "scan_line buf reads =
     (if 10 \<in> set buf then (Ok (drop_cr (takeWhile (\<lambda>b. b \<noteq> 10) buf)), reads)
      else if 65536 \<le> length buf then (Err TooLong, reads)
      else (case reads of
              [] \<Rightarrow> (if buf = [] then Err Disconnected else Ok (drop_cr buf), [])
            | r # rs \<Rightarrow> scan_line (buf @ r) rs))"

declare scan_line.simps [simp del]

definition read_message ::
    "(bytes \<Rightarrow> p2p_message option) \<Rightarrow> bytes list \<Rightarrow> (p2p_error, p2p_message) res \<times> bytes list" where
  "read_message dec reads =
     (case scan_line [] reads of
        (Ok l, rest) \<Rightarrow> (case dec l of None \<Rightarrow> Err BadJson | Some m \<Rightarrow> Ok m, rest)
      | (Err e, rest) \<Rightarrow> (Err e, rest)
      | (Panic, rest) \<Rightarrow> (Panic, rest))"

section \<open>Writing\<close>

definition send_message :: "(nat \<Rightarrow> bool) \<Rightarrow> int \<Rightarrow> nat \<Rightarrow> p2p_message \<Rightarrow> p2p_node \<Rightarrow> bool \<times> p2p_node" where
  "send_message wr now c msg n =
     (if wr c \<and> c \<notin> set (n_closed n)
      then (True, n\<lparr>n_wire := n_wire n @ [(c, msg\<lparr>m_timestamp := now\<rparr>)]\<rparr>)
      else (False, n))"

definition message :: "string \<Rightarrow> i64 \<Rightarrow> bytes \<Rightarrow> p2p_node \<Rightarrow> p2p_message" where
  "message ty height payload n =
     \<lparr>m_type = ty, m_chain_id = ''nuvex-1'', m_height = height, m_payload = payload, m_timestamp = 0,
      m_node_id = n_node_id n\<rparr>"

definition send_handshake :: "(nat \<Rightarrow> bool) \<Rightarrow> int \<Rightarrow> nat \<Rightarrow> blockchain \<Rightarrow> p2p_node \<Rightarrow> bool \<times> p2p_node" where
  "send_handshake wr now c bc n = send_message wr now c (message ''handshake'' (chain_height bc) [] n) n"

text \<open>A message to each peer of the table, in the order of the map iteration.\<close>

definition send_all :: "(nat \<Rightarrow> bool) \<Rightarrow> int \<Rightarrow> nat list \<Rightarrow> p2p_message \<Rightarrow> p2p_node \<Rightarrow> p2p_node" where
  "send_all wr now cs msg n = fold (\<lambda>c n'. snd (send_message wr now c msg n')) cs n"

definition broadcast_block ::
    "p2p_codec \<Rightarrow> (nat \<Rightarrow> bool) \<Rightarrow> string list \<Rightarrow> int \<Rightarrow> block \<Rightarrow> p2p_node \<Rightarrow> p2p_node" where
  "broadcast_block codec wr order now b n =
     (case enc_block codec b of
        None \<Rightarrow> n
      | Some data \<Rightarrow>
          send_all wr now (range_values order (n_peers n)) (message ''new_block'' (b_height b) data n) n)"

definition broadcast_tx ::
    "p2p_codec \<Rightarrow> (nat \<Rightarrow> bool) \<Rightarrow> string list \<Rightarrow> int \<Rightarrow> pending_tx \<Rightarrow> p2p_node \<Rightarrow> p2p_node" where
  "broadcast_tx codec wr order now tx n =
     send_all wr now (range_values order (n_peers n)) (message ''new_tx'' 0 (enc_tx codec tx) n) n"

definition send_peer_list ::
    "p2p_codec \<Rightarrow> (nat \<Rightarrow> bool) \<Rightarrow> string list \<Rightarrow> int \<Rightarrow> nat \<Rightarrow> p2p_node \<Rightarrow> p2p_node" where
  "send_peer_list codec wr order now c n =
     (let addresses = map (\<lambda>d. pe_address (the (n_objs n d))) (range_values order (n_peers n))
      in snd (send_message wr now c (message ''peers'' 0 (enc_addresses codec addresses) n) n))"

section \<open>The life of a connection\<close>

definition upd_peer :: "nat \<Rightarrow> (peer \<Rightarrow> peer) \<Rightarrow> p2p_node \<Rightarrow> p2p_node" where
  "upd_peer c f n = n\<lparr>n_objs := (n_objs n)(c := map_option f (n_objs n c))\<rparr>"

definition end_connection :: "nat \<Rightarrow> p2p_node \<Rightarrow> p2p_node" where
  "end_connection c n = n\<lparr>n_phase := (n_phase n)(c := None), n_closed := c # n_closed n\<rparr>"

text \<open>The beginning of \<open>handleConnection\<close>, up to the handshake it sends.\<close>

definition open_connection ::
    "(nat \<Rightarrow> bool) \<Rightarrow> int \<Rightarrow> nat \<Rightarrow> string \<Rightarrow> bool \<Rightarrow> blockchain \<Rightarrow> p2p_node \<Rightarrow> p2p_node" where
  "open_connection wr now c address outbound bc n =
     (let p = \<lparr>pe_id = '''', pe_address = address, pe_conn = c, pe_height = 0, pe_connected = now,
               pe_last_seen = now, pe_outbound = outbound\<rparr>;
          (ok, n1) = send_handshake wr now c bc
             (n\<lparr>n_objs := (n_objs n)(c \<mapsto> p), n_phase := (n_phase n)(c \<mapsto> Greeting)\<rparr>)
      in if ok then n1 else end_connection c n1)"

text \<open>What \<open>handleConnection\<close> does with what it reads first.\<close>

definition greet :: "nat \<Rightarrow> (p2p_error, p2p_message) res \<Rightarrow> p2p_node \<Rightarrow> p2p_node" where
  "greet c r n =
     (case r of
        Ok msg \<Rightarrow>
          if m_type msg \<noteq> ''handshake'' then end_connection c n
          else
            let n1 = upd_peer c (\<lambda>p. p\<lparr>pe_id := m_node_id msg, pe_height := m_height msg\<rparr>) n
            in if int (card (dom (n_peers n1))) \<ge> max_peers then end_connection c n1
               else n1\<lparr>n_peers := (n_peers n1)(m_node_id msg \<mapsto> c), n_phase := (n_phase n1)(c \<mapsto> Serving)\<rparr>
      | _ \<Rightarrow> end_connection c n)"

text \<open>The end of \<open>handlePeer\<close> and \<open>handleConnection\<close> when a read fails.\<close>

definition disconnect :: "nat \<Rightarrow> p2p_node \<Rightarrow> p2p_node" where
  "disconnect c n =
     (case n_objs n c of
        None \<Rightarrow> n
      | Some p \<Rightarrow> end_connection c (n\<lparr>n_peers := (n_peers n)(pe_id p := None)\<rparr>))"

text \<open>One round of the loop of \<open>handlePeer\<close>. Nothing receives from \<open>newBlocks\<close>, so a send to the full
  channel blocks the goroutine.\<close>

definition handle_message ::
    "p2p_codec \<Rightarrow> (nat \<Rightarrow> bool) \<Rightarrow> string list \<Rightarrow> int \<Rightarrow> int \<Rightarrow> nat \<Rightarrow> p2p_message \<Rightarrow> blockchain
       \<Rightarrow> p2p_node \<times> mempool \<Rightarrow> p2p_node \<times> mempool" where
  "handle_message codec wr order now nano c msg bc n_mp =
     (let (n0, mp) = n_mp;
          n = upd_peer c (\<lambda>p. p\<lparr>pe_last_seen := now\<rparr>) n0;
          ty = m_type msg
      in if ty = ''ping''
         then (snd (send_message wr now c (message ''pong'' (chain_height bc) [] n) n), mp)
         else if ty = ''pong'' then (upd_peer c (\<lambda>p. p\<lparr>pe_height := m_height msg\<rparr>) n, mp)
         else if ty = ''get_blocks''
         then (let blks = (case get_recent_blocks 20 bc of Ok bs \<Rightarrow> bs | _ \<Rightarrow> [])
               in (snd (send_message wr now c
                          (message ''blocks'' (chain_height bc) (enc_blocks codec blks) n) n), mp))
         else if ty = ''new_block''
         then (case dec_block codec (m_payload msg) of
                 None \<Rightarrow> (n, mp)
               | Some b \<Rightarrow>
                   if length (n_new_blocks n) < block_channel_size
                   then (n\<lparr>n_new_blocks := n_new_blocks n @ [b]\<rparr>, mp)
                   else (n\<lparr>n_phase := (n_phase n)(c \<mapsto> Stuck b)\<rparr>, mp))
         else if ty = ''new_tx''
         then (case dec_tx codec (m_payload msg) of
                 None \<Rightarrow> (n, mp)
               | Some tx \<Rightarrow>
                   (n, snd (submit (p_from tx) (p_to tx) (p_amount tx) (p_fee tx) (p_nonce tx) nano now mp)))
         else if ty = ''get_peers'' then (send_peer_list codec wr order now c n, mp)
         else (n, mp))"

section \<open>Starting, stopping, routines\<close>

definition start_node :: "bool \<Rightarrow> p2p_node \<Rightarrow> (p2p_error, unit) res \<times> p2p_node" where
  "start_node listening n =
     (if \<not> listening then (Err ListenFailed, n)
      else (if slice_ok 16 (n_node_id n) then Ok () else Panic, n\<lparr>n_running := True\<rparr>))"

definition stop_node :: "string list \<Rightarrow> p2p_node \<Rightarrow> p2p_node" where
  "stop_node order n =
     n\<lparr>n_running := False, n_closed := range_values order (n_peers n) @ n_closed n\<rparr>"

text \<open>The argument \<open>dialed\<close> is the connection and remote address that dialing gives.\<close>

definition connect ::
    "(nat \<times> string) option \<Rightarrow> (nat \<Rightarrow> bool) \<Rightarrow> int \<Rightarrow> string \<Rightarrow> blockchain \<Rightarrow> p2p_node
       \<Rightarrow> (p2p_error, unit) res \<times> p2p_node" where
  "connect dialed wr now address bc n =
     (case dialed of
        None \<Rightarrow> (Err (DialFailed address), n)
      | Some (c, remote) \<Rightarrow> (Ok (), open_connection wr now c remote True bc n))"

definition ping_tick :: "(nat \<Rightarrow> bool) \<Rightarrow> string list \<Rightarrow> int \<Rightarrow> blockchain \<Rightarrow> p2p_node \<Rightarrow> p2p_node" where
  "ping_tick wr order now bc n =
     (if \<not> n_running n then n
      else send_all wr now (range_values order (n_peers n)) (message ''ping'' (chain_height bc) [] n) n)"

definition sync_tick :: "(nat \<Rightarrow> bool) \<Rightarrow> string list \<Rightarrow> int \<Rightarrow> blockchain \<Rightarrow> p2p_node \<Rightarrow> p2p_node" where
  "sync_tick wr order now bc n =
     (if \<not> n_running n then n
      else send_all wr now
             (filter (\<lambda>c. chain_height bc <s pe_height (the (n_objs n c))) (range_values order (n_peers n)))
             (message ''get_blocks'' (chain_height bc) [] n) n)"

definition peer_line :: "peer \<Rightarrow> string" where
  "peer_line p = pe_address p @ '' (height:'' @ show_i64 (pe_height p) @ '')''"

definition p2p_stats_of :: "string list \<Rightarrow> blockchain \<Rightarrow> p2p_node \<Rightarrow> p2p_stats" where
  "p2p_stats_of order bc n =
     \<lparr>ns_node_id = n_node_id n, ns_address = n_address n, ns_peer_count = int (card (dom (n_peers n))),
      ns_peer_list = map (\<lambda>c. peer_line (the (n_objs n c))) (range_values order (n_peers n)),
      ns_chain_height = chain_height bc, ns_running = n_running n\<rparr>"


text \<open>The loop of \<open>handlePeer\<close> as a reader: the messages it gets until a read fails.\<close>

lemma scan_line_shorter:
  "scan_line buf reads = (Ok l, rest) \<Longrightarrow> length rest \<le> length reads \<and> (buf = [] \<longrightarrow> length rest < length reads)"
proof (induction buf reads rule: scan_line.induct)
  case (1 buf reads)
  show ?case
  proof (cases reads)
    case Nil
    with 1(2) show ?thesis
      by (subst (asm) scan_line.simps) (auto split: if_splits)
  next
    case (Cons r rs)
    show ?thesis
    proof (cases "10 \<in> set buf \<or> 65536 \<le> length buf")
      case True
      with 1(2) show ?thesis by (subst (asm) scan_line.simps) (auto split: if_splits)
    next
      case False
      then have "scan_line (buf @ r) rs = (Ok l, rest)"
        using 1(2) Cons by (subst (asm) scan_line.simps) auto
      with 1(1) [of r rs] False Cons show ?thesis by auto
    qed
  qed
qed

lemma read_message_shorter: "read_message dec reads = (Ok m, rest) \<Longrightarrow> length rest < length reads"
  using scan_line_shorter [of "[]" reads]
  by (auto simp: read_message_def split: prod.splits res.splits option.splits)

function read_all :: "(bytes \<Rightarrow> p2p_message option) \<Rightarrow> bytes list \<Rightarrow> p2p_message list" where
  "read_all dec reads =
     (case read_message dec reads of (Ok m, rest) \<Rightarrow> m # read_all dec rest | _ \<Rightarrow> [])"
  by pat_completeness auto
termination
  by (relation "measure (\<lambda>(dec, reads). length reads)") (auto dest: read_message_shorter [OF sym])

declare read_all.simps [simp del]

section \<open>Framing\<close>

lemma scan_line_parts:
  assumes "10 \<notin> set (buf @ concat ps @ l)" "length (buf @ concat ps @ l) < 65536"
  shows "scan_line buf (ps @ (l @ 10 # junk) # reads) = (Ok (drop_cr (buf @ concat ps @ l)), reads)"
  using assms
proof (induction ps arbitrary: buf)
  case Nil
  then have "takeWhile (\<lambda>b. b \<noteq> 10) (buf @ l @ 10 # junk) = buf @ l"
    by (auto simp: takeWhile_append)
  with Nil show ?case
    by (subst scan_line.simps, simp, subst scan_line.simps) simp
next
  case (Cons p ps)
  then show ?case by (subst scan_line.simps) simp
qed

lemma read_all_parts:
  assumes "concat ps @ l = e" "dec e = Some m" "10 \<notin> set e" "e = [] \<or> last e \<noteq> 13" "length e < 65536"
  shows "read_all dec (ps @ (l @ 10 # junk) # reads) = m # read_all dec reads"
proof -
  have "read_message dec (ps @ (l @ 10 # junk) # reads) = (Ok m, reads)"
    using scan_line_parts [of "[]" ps l junk reads] assms by (auto simp: read_message_def drop_cr_def)
  then show ?thesis by (subst read_all.simps) simp
qed

lemma read_all_end: "read_all dec [] = []"
  by (subst read_all.simps, subst read_message_def, subst scan_line.simps) simp

section \<open>Steps\<close>

inductive p2p_step :: "p2p_codec \<Rightarrow> p2p_node \<times> mempool \<Rightarrow> p2p_node \<times> mempool \<Rightarrow> bool" for codec where
  p2p_open: "n_objs n c = None \<Longrightarrow>
    p2p_step codec (n, mp) (open_connection wr now c address outbound bc n, mp)"
| p2p_greet: "n_phase n c = Some Greeting \<Longrightarrow> p2p_step codec (n, mp) (greet c r n, mp)"
| p2p_message: "n_phase n c = Some Serving \<Longrightarrow> enumerates order (n_peers n) \<Longrightarrow>
    p2p_step codec (n, mp) (handle_message codec wr order now nano c msg bc (n, mp))"
| p2p_disconnect: "n_phase n c = Some Serving \<Longrightarrow> p2p_step codec (n, mp) (disconnect c n, mp)"
| p2p_broadcast: "enumerates order (n_peers n) \<Longrightarrow>
    p2p_step codec (n, mp) (broadcast_block codec wr order now b n, mp)"
| p2p_broadcast_tx: "enumerates order (n_peers n) \<Longrightarrow>
    p2p_step codec (n, mp) (broadcast_tx codec wr order now tx n, mp)"
| p2p_ping: "enumerates order (n_peers n) \<Longrightarrow> p2p_step codec (n, mp) (ping_tick wr order now bc n, mp)"
| p2p_sync: "enumerates order (n_peers n) \<Longrightarrow> p2p_step codec (n, mp) (sync_tick wr order now bc n, mp)"
| p2p_start: "p2p_step codec (n, mp) (snd (start_node listening n), mp)"
| p2p_stop: "enumerates order (n_peers n) \<Longrightarrow> p2p_step codec (n, mp) (stop_node order n, mp)"

inductive p2p_reach :: "p2p_codec \<Rightarrow> p2p_node \<times> mempool \<Rightarrow> p2p_node \<times> mempool \<Rightarrow> bool" for codec s0 where
  p2p_init: "p2p_reach codec s0 s0"
| p2p_more: "p2p_reach codec s0 s \<Longrightarrow> p2p_step codec s s' \<Longrightarrow> p2p_reach codec s0 s'"

section \<open>The table of peers\<close>

definition entry_live :: "p2p_node \<Rightarrow> string \<Rightarrow> nat \<Rightarrow> bool" where
  "entry_live n i c \<longleftrightarrow> (\<exists>p. n_objs n c = Some p \<and> pe_id p = i)
     \<and> (n_phase n c = Some Serving \<or> (\<exists>b. n_phase n c = Some (Stuck b)))"

definition p2p_inv :: "p2p_node \<Rightarrow> bool" where
  "p2p_inv n \<longleftrightarrow> finite (dom (n_peers n)) \<and> card (dom (n_peers n)) \<le> 50
     \<and> (\<forall>i c. n_peers n i = Some c \<longrightarrow> entry_live n i c)
     \<and> length (n_new_blocks n) \<le> 100 \<and> dom (n_phase n) \<subseteq> dom (n_objs n)"

text \<open>Sending changes only what is on the wire.\<close>

lemma send_message_wire: "\<exists>w. snd (send_message wr now c msg n) = n\<lparr>n_wire := w\<rparr>"
  by (auto simp: send_message_def intro: exI [of _ "n_wire n"])

lemma send_all_wire: "\<exists>w. send_all wr now cs msg n = n\<lparr>n_wire := w\<rparr>"
proof (induction cs arbitrary: n)
  case Nil
  show ?case by (auto simp: send_all_def intro: exI [of _ "n_wire n"])
next
  case (Cons c cs)
  obtain w where "snd (send_message wr now c msg n) = n\<lparr>n_wire := w\<rparr>" using send_message_wire by blast
  with Cons [of "n\<lparr>n_wire := w\<rparr>"] show ?case by (auto simp: send_all_def)
qed

inductive_cases p2p_stepE: "p2p_step codec (n, mp) (n', mp')"

lemma p2p_step_cases [consumes 1]:
  assumes "p2p_step codec (n, mp) (n', mp')"
  obtains (opened) c wr now address outbound bc where
      "n' = open_connection wr now c address outbound bc n" "mp' = mp" "n_objs n c = None"
    | (greeted) c r where "n' = greet c r n" "mp' = mp" "n_phase n c = Some Greeting"
    | (handled) c order wr now nano msg bc where
      "handle_message codec wr order now nano c msg bc (n, mp) = (n', mp')" "n_phase n c = Some Serving"
      "enumerates order (n_peers n)"
    | (disconnected) c where "n' = disconnect c n" "mp' = mp" "n_phase n c = Some Serving"
    | (sent_out) w where "n' = n\<lparr>n_wire := w\<rparr>" "mp' = mp"
    | (started) r where "n' = n\<lparr>n_running := r\<rparr>" "mp' = mp"
    | (stopped) order where "n' = stop_node order n" "mp' = mp"
proof -
  have self: "\<exists>w. n = n\<lparr>n_wire := w\<rparr>" by (rule exI [of _ "n_wire n"]) simp
  note wires = send_all_wire self
  show thesis
    using assms
  proof (elim p2p_stepE, goal_cases)
    case (5 order wr now b)
    then have "\<exists>w. n' = n\<lparr>n_wire := w\<rparr>" using wires by (auto simp: broadcast_block_def split: option.splits)
    then show ?case using sent_out 5 by blast
  next
    case (6 order wr now tx)
    then have "\<exists>w. n' = n\<lparr>n_wire := w\<rparr>" using wires by (auto simp: broadcast_tx_def)
    then show ?case using sent_out 6 by blast
  next
    case (7 order wr now bc)
    then have "\<exists>w. n' = n\<lparr>n_wire := w\<rparr>" using wires by (auto simp: ping_tick_def)
    then show ?case using sent_out 7 by blast
  next
    case (8 order wr now bc)
    then have "\<exists>w. n' = n\<lparr>n_wire := w\<rparr>" using wires by (auto simp: sync_tick_def)
    then show ?case using sent_out 8 by blast
  next
    case (9 listening)
    have "n' = n\<lparr>n_running := n_running n \<or> listening\<rparr>" using 9 by (simp add: start_node_def)
    then show ?case using started 9 by blast
  qed (use opened greeted handled disconnected stopped in metis)+
qed

lemma p2p_inv_wire [simp]: "p2p_inv (n\<lparr>n_wire := w\<rparr>) = p2p_inv n"
  by (simp add: p2p_inv_def entry_live_def)

lemma p2p_inv_running [simp]:
  "p2p_inv (n\<lparr>n_running := r\<rparr>) = p2p_inv n" "p2p_inv (n\<lparr>n_running := r, n_closed := cs\<rparr>) = p2p_inv n"
  by (simp_all add: p2p_inv_def entry_live_def)

lemma p2p_inv_send [simp]: "p2p_inv (send_all wr now cs msg n) = p2p_inv n"
  "p2p_inv (snd (send_message wr now c msg n)) = p2p_inv n"
  using send_all_wire [of wr now cs msg n] send_message_wire [of wr now c msg n] by auto

lemma upd_peer_fields [simp]:
  "n_peers (upd_peer c f n) = n_peers n" "n_phase (upd_peer c f n) = n_phase n"
  "n_new_blocks (upd_peer c f n) = n_new_blocks n" "dom (n_objs (upd_peer c f n)) = dom (n_objs n)"
  "n_closed (upd_peer c f n) = n_closed n" "n_node_id (upd_peer c f n) = n_node_id n"
  by (auto simp: upd_peer_def dom_def split: if_splits)

lemma entry_live_upd:
  assumes "\<And>p. pe_id (f p) = pe_id p"
  shows "entry_live (upd_peer c f n) i d = entry_live n i d"
  using assms by (cases "n_objs n d") (auto simp: entry_live_def upd_peer_def)

lemma entry_live_upd_other: "d \<noteq> c \<Longrightarrow> entry_live (upd_peer c f n) i d = entry_live n i d"
  by (simp add: entry_live_def upd_peer_def)

lemma p2p_inv_upd [simp]:
  "(\<And>p. pe_id (f p) = pe_id p) \<Longrightarrow> p2p_inv (upd_peer c f n) = p2p_inv n"
  by (simp add: p2p_inv_def entry_live_upd)

lemma entry_phase: "entry_live n i c \<Longrightarrow> n_phase n c \<noteq> Some Greeting \<and> n_phase n c \<noteq> None"
  by (auto simp: entry_live_def)

text \<open>Ending a connection that no entry of the table refers to keeps the invariant.\<close>

lemma p2p_inv_end:
  assumes "p2p_inv n" "\<And>i. n_peers n i \<noteq> Some c"
  shows "p2p_inv (end_connection c n)"
proof -
  have "entry_live (end_connection c n) i d" if "n_peers n i = Some d" for i d
    using assms that by (auto simp: p2p_inv_def entry_live_def end_connection_def)
  then show ?thesis using assms by (auto simp: p2p_inv_def end_connection_def)
qed

lemma end_connection_peers [simp]: "n_peers (end_connection c n) = n_peers n"
  by (simp add: end_connection_def)

lemma no_entry_of_phase: "p2p_inv n \<Longrightarrow> n_phase n c = Some Greeting \<or> n_phase n c = None \<Longrightarrow> n_peers n i \<noteq> Some c"
  by (auto simp: p2p_inv_def dest: entry_phase)

lemma p2p_inv_open:
  assumes "p2p_inv n" "n_objs n c = None"
  shows "p2p_inv (open_connection wr now c address outbound bc n)"
proof -
  have ph: "n_phase n c = None" using assms by (auto simp: p2p_inv_def)
  have none: "n_peers n i \<noteq> Some c" for i by (rule no_entry_of_phase [OF assms(1)]) (simp add: ph)
  define p where "p = \<lparr>pe_id = '''', pe_address = address, pe_conn = c, pe_height = 0, pe_connected = now,
               pe_last_seen = now, pe_outbound = outbound\<rparr>"
  define n0 where "n0 = n\<lparr>n_objs := (n_objs n)(c \<mapsto> p), n_phase := (n_phase n)(c \<mapsto> Greeting)\<rparr>"
  have "entry_live n0 i d" if "n_peers n i = Some d" for i d
    using assms(1) that none by (auto simp: p2p_inv_def entry_live_def n0_def)
  then have inv0: "p2p_inv n0" using assms(1) by (auto simp: p2p_inv_def n0_def)
  obtain ok w where s: "send_handshake wr now c bc n0 = (ok, n0\<lparr>n_wire := w\<rparr>)"
    using send_message_wire [of wr now c "message ''handshake'' (chain_height bc) [] n0" n0]
    by (cases "send_handshake wr now c bc n0") (auto simp: send_handshake_def)
  have "open_connection wr now c address outbound bc n
      = (if ok then n0\<lparr>n_wire := w\<rparr> else end_connection c (n0\<lparr>n_wire := w\<rparr>))"
    by (simp add: open_connection_def p_def [symmetric] n0_def [symmetric] s Let_def)
  moreover have "n_peers n0 i \<noteq> Some c" for i using none by (simp add: n0_def)
  ultimately show ?thesis using inv0 by (auto intro!: p2p_inv_end)
qed

lemma p2p_inv_greet:
  assumes "p2p_inv n" "n_phase n c = Some Greeting"
  shows "p2p_inv (greet c r n)"
proof -
  have none: "n_peers n i \<noteq> Some c" for i by (rule no_entry_of_phase [OF assms(1)]) (simp add: assms(2))
  show ?thesis
  proof (cases "\<exists>msg. r = Ok msg \<and> m_type msg = ''handshake''")
    case False
    then have "greet c r n = end_connection c n" by (auto simp: greet_def split: res.split)
    then show ?thesis using assms(1) none by (simp add: p2p_inv_end)
  next
    case True
    then obtain msg where r: "r = Ok msg" "m_type msg = ''handshake''" by blast
    let ?n1 = "upd_peer c (\<lambda>p. p\<lparr>pe_id := m_node_id msg, pe_height := m_height msg\<rparr>) n"
    let ?n2 = "?n1\<lparr>n_peers := (n_peers n)(m_node_id msg \<mapsto> c), n_phase := (n_phase n)(c \<mapsto> Serving)\<rparr>"
    have live: "entry_live ?n1 i d" if "n_peers n i = Some d" for i d
      using assms(1) that none entry_live_upd_other [of d c] by (fastforce simp: p2p_inv_def)
    then have inv1: "p2p_inv ?n1" using assms(1) by (simp add: p2p_inv_def)
    have objs: "n_objs n c \<noteq> None" using assms by (auto simp: p2p_inv_def)
    have "entry_live ?n2 i d" if "n_peers ?n2 i = Some d" for i d
    proof (cases "i = m_node_id msg")
      case True
      then show ?thesis using that objs by (auto simp: entry_live_def upd_peer_def)
    next
      case False
      then have "n_peers n i = Some d" using that by simp
      then show ?thesis using live [of i d] none [of i] by (auto simp: entry_live_def)
    qed
    moreover have "card (insert (m_node_id msg) (dom (n_peers n))) \<le> 50" if "card (dom (n_peers n)) < 50"
      using card_insert_le_m1 [of 50 "dom (n_peers n)" "m_node_id msg"] that by simp
    ultimately have "p2p_inv ?n2" if "card (dom (n_peers n)) < 50"
      using that assms(1) objs by (auto simp: p2p_inv_def)
    moreover have "greet c r n = (if card (dom (n_peers n)) \<ge> 50 then end_connection c ?n1 else ?n2)"
      using r by (simp add: greet_def max_peers_def Let_def)
    ultimately show ?thesis using inv1 none by (auto intro!: p2p_inv_end)
  qed
qed

lemma p2p_inv_disconnect:
  assumes "p2p_inv n" "n_phase n c = Some Serving"
  shows "p2p_inv (disconnect c n)"
proof -
  obtain p where p: "n_objs n c = Some p" using assms by (fastforce simp: p2p_inv_def)
  let ?n = "n\<lparr>n_peers := (n_peers n)(pe_id p := None)\<rparr>"
  have "card (dom (n_peers n) - {pe_id p}) \<le> 50"
    using assms(1) card_Diff1_le [of "dom (n_peers n)" "pe_id p"] by (simp add: p2p_inv_def)
  moreover have "entry_live ?n i d = entry_live n i d" for i d by (simp add: entry_live_def)
  ultimately have "p2p_inv ?n" using assms(1) by (auto simp: p2p_inv_def split: if_splits)
  moreover have "pe_id p = i" if "n_peers n i = Some c" for i
  proof -
    have "entry_live n i c" using assms(1) that by (simp add: p2p_inv_def)
    then show ?thesis using p by (simp add: entry_live_def)
  qed
  then have "n_peers ?n i \<noteq> Some c" for i by auto
  ultimately show ?thesis using p by (simp add: disconnect_def p2p_inv_end)
qed

lemma p2p_inv_queue:
  "length (n_new_blocks n) < 100 \<Longrightarrow> p2p_inv n \<Longrightarrow> p2p_inv (n\<lparr>n_new_blocks := n_new_blocks n @ [b]\<rparr>)"
  by (simp add: p2p_inv_def entry_live_def)

lemma p2p_inv_stuck:
  assumes "p2p_inv n" "n_phase n c = Some Serving"
  shows "p2p_inv (n\<lparr>n_phase := (n_phase n)(c \<mapsto> Stuck b)\<rparr>)"
proof -
  have "entry_live (n\<lparr>n_phase := (n_phase n)(c \<mapsto> Stuck b)\<rparr>) i d" if "n_peers n i = Some d" for i d
    using assms(1) that by (auto simp: p2p_inv_def entry_live_def)
  then show ?thesis using assms by (auto simp: p2p_inv_def)
qed

text \<open>What one message does: it sends, notes a height, queues a block, blocks, or submits.\<close>

lemma handle_message_cases:
  fixes n mp c msg now codec
  defines "n0 \<equiv> upd_peer c (\<lambda>p. p\<lparr>pe_last_seen := now\<rparr>) n"
  obtains (sent) w where "handle_message codec wr order now nano c msg bc (n, mp) = (n0\<lparr>n_wire := w\<rparr>, mp)"
    | (pong) h where "handle_message codec wr order now nano c msg bc (n, mp)
        = (upd_peer c (\<lambda>p. p\<lparr>pe_height := h\<rparr>) n0, mp)"
    | (queued) b where "handle_message codec wr order now nano c msg bc (n, mp)
        = (n0\<lparr>n_new_blocks := n_new_blocks n @ [b]\<rparr>, mp)" "length (n_new_blocks n) < 100"
    | (stuck) b where "handle_message codec wr order now nano c msg bc (n, mp)
        = (n0\<lparr>n_phase := (n_phase n)(c \<mapsto> Stuck b)\<rparr>, mp)" "100 \<le> length (n_new_blocks n)"
    | (tx) a b amount fee k where "handle_message codec wr order now nano c msg bc (n, mp)
        = (n0, snd (submit a b amount fee k nano now mp))"
    | (ignored) "handle_message codec wr order now nano c msg bc (n, mp) = (n0, mp)"
proof -
  have snd_msg: "\<exists>w. snd (send_message wr now c m n0) = n0\<lparr>n_wire := w\<rparr>" for m by (rule send_message_wire)
  have list_msg: "\<exists>w. send_peer_list codec wr order now c n0 = n0\<lparr>n_wire := w\<rparr>"
    by (simp add: send_peer_list_def Let_def send_message_wire)
  consider "m_type msg = ''ping''" | "m_type msg = ''pong''" | "m_type msg = ''get_blocks''"
    | "m_type msg = ''new_block''" | "m_type msg = ''new_tx''" | "m_type msg = ''get_peers''"
    | "m_type msg \<notin> {''ping'', ''pong'', ''get_blocks'', ''new_block'', ''new_tx'', ''get_peers''}"
    by blast
  then show thesis
  proof cases
    case 1
    then show thesis using snd_msg sent by (fastforce simp: handle_message_def Let_def n0_def [symmetric])
  next
    case 2
    then show thesis using pong by (fastforce simp: handle_message_def Let_def n0_def [symmetric])
  next
    case 3
    then show thesis using snd_msg sent by (fastforce simp: handle_message_def Let_def n0_def [symmetric])
  next
    case 4
    have q: "n_new_blocks n0 = n_new_blocks n" "n_phase n0 = n_phase n" by (simp_all add: n0_def)
    show thesis
    proof (cases "dec_block codec (m_payload msg)")
      case None
      with 4 show thesis using ignored by (simp add: handle_message_def Let_def n0_def [symmetric])
    next
      case (Some b)
      with 4 q show thesis using queued [of b] stuck [of b]
        by (cases "length (n_new_blocks n) < 100")
          (simp_all add: handle_message_def Let_def n0_def [symmetric] block_channel_size_def)
    qed
  next
    case 5
    then show thesis using tx ignored
      by (cases "dec_tx codec (m_payload msg)") (simp_all add: handle_message_def Let_def n0_def [symmetric])
  next
    case 6
    then show thesis using list_msg sent by (fastforce simp: handle_message_def Let_def n0_def [symmetric])
  next
    case 7
    then show thesis using ignored by (simp add: handle_message_def Let_def n0_def [symmetric])
  qed
qed

lemma p2p_inv_message:
  assumes "p2p_inv n" "n_phase n c = Some Serving" "mempool_wf mp"
    "handle_message codec wr order now nano c msg bc (n, mp) = (n', mp')"
  shows "p2p_inv n' \<and> mempool_wf mp'"
proof -
  have inv: "p2p_inv (upd_peer c (\<lambda>p. p\<lparr>pe_last_seen := now\<rparr>) n)" using assms(1) by simp
  show ?thesis
  proof (cases rule: handle_message_cases [of codec wr order now nano c msg bc n mp])
    case (queued b)
    then show ?thesis using inv assms(3,4) p2p_inv_queue [OF _ inv] by simp
  next
    case (stuck b)
    then show ?thesis using assms(2-4) p2p_inv_stuck [OF inv] by simp
  next
    case (tx a b amount fee k)
    then show ?thesis using inv assms(3,4) by (auto intro: mempool_wf_submit)
  qed (use inv assms in auto)
qed

lemma p2p_inv_step:
  assumes "p2p_step codec (n, mp) (n', mp')" "p2p_inv n" "mempool_wf mp"
  shows "p2p_inv n' \<and> mempool_wf mp'"
  using assms(1)
proof (cases rule: p2p_step_cases)
  case handled
  then show ?thesis using p2p_inv_message assms(2,3) by blast
qed (use assms(2,3) in \<open>simp_all add: p2p_inv_open p2p_inv_greet p2p_inv_disconnect stop_node_def\<close>)

lemma p2p_inv_reach:
  assumes "p2p_reach codec s0 s" "p2p_inv (fst s0)" "mempool_wf (snd s0)"
  shows "p2p_inv (fst s) \<and> mempool_wf (snd s)"
  using assms
proof (induction rule: p2p_reach.induct)
  case (p2p_more s s')
  then show ?case using p2p_inv_step [of codec "fst s" "snd s" "fst s'" "snd s'"] by simp
qed simp

lemma p2p_inv_new: "p2p_inv (new_p2p_node i)"
  by (simp add: p2p_inv_def new_p2p_node_def)


text \<open>The channel only fills, and a blocked goroutine stays blocked.\<close>

lemma send_fields [simp]:
  "n_new_blocks (snd (send_message wr now c msg n)) = n_new_blocks n"
  "n_phase (snd (send_message wr now c msg n)) = n_phase n"
  "n_new_blocks (send_all wr now cs msg n) = n_new_blocks n"
  "n_phase (send_all wr now cs msg n) = n_phase n"
  "n_peers (send_all wr now cs msg n) = n_peers n"
  using send_message_wire [of wr now c msg n] send_all_wire [of wr now cs msg n] by auto

lemma end_connection_fields [simp]:
  "n_new_blocks (end_connection c n) = n_new_blocks n" "n_phase (end_connection c n) = (n_phase n)(c := None)"
  by (simp_all add: end_connection_def)

lemma greet_frame [simp]:
  "n_new_blocks (greet c r n) = n_new_blocks n" "d \<noteq> c \<Longrightarrow> n_phase (greet c r n) d = n_phase n d"
  by (auto simp: greet_def Let_def split: res.splits)

lemma disconnect_frame [simp]:
  "n_new_blocks (disconnect c n) = n_new_blocks n" "d \<noteq> c \<Longrightarrow> n_phase (disconnect c n) d = n_phase n d"
  by (auto simp: disconnect_def split: option.splits)

lemma open_connection_frame [simp]:
  "n_new_blocks (open_connection wr now c a out bc n) = n_new_blocks n"
  "d \<noteq> c \<Longrightarrow> n_phase (open_connection wr now c a out bc n) d = n_phase n d"
  by (auto simp: open_connection_def send_handshake_def Let_def split: prod.splits dest!: arg_cong [of "send_message _ _ _ _ _" _ snd])

lemma stuck_step:
  assumes "p2p_step codec (n, mp) (n', mp')" "p2p_inv n" "n_phase n c = Some (Stuck b)"
  shows "n_phase n' c = Some (Stuck b)"
  using assms(1)
proof (cases rule: p2p_step_cases)
  case (opened d)
  then have "d \<noteq> c" using assms(2,3) by (auto simp: p2p_inv_def)
  then show ?thesis using opened assms(3) by simp
next
  case (greeted d)
  then have "d \<noteq> c" using assms(3) by auto
  then show ?thesis using greeted assms(3) by simp
next
  case (handled d order wr now nano msg bc)
  then have "d \<noteq> c" using assms(3) by auto
  then show ?thesis using handled(1) assms(3)
    by (cases rule: handle_message_cases [of codec wr order now nano d msg bc n mp]) auto
next
  case (disconnected d)
  then have "d \<noteq> c" using assms(3) by auto
  then show ?thesis using disconnected assms(3) by simp
qed (use assms(3) in \<open>auto simp: stop_node_def\<close>)

lemma channel_step:
  assumes "p2p_step codec (n, mp) (n', mp')"
  shows "\<exists>bs. n_new_blocks n' = n_new_blocks n @ bs"
  using assms
proof (cases rule: p2p_step_cases)
  case (handled d order wr now nano msg bc)
  then show ?thesis
    by (cases rule: handle_message_cases [of codec wr order now nano d msg bc n mp]) auto
qed (auto simp: stop_node_def)

lemma stuck_reach:
  assumes "p2p_reach codec s0 s" "p2p_inv (fst s0)" "mempool_wf (snd s0)" "n_phase (fst s0) c = Some (Stuck b)"
    "length (n_new_blocks (fst s0)) = 100"
  shows "n_phase (fst s) c = Some (Stuck b) \<and> n_new_blocks (fst s) = n_new_blocks (fst s0)"
  using assms
proof (induction rule: p2p_reach.induct)
  case (p2p_more s s')
  then have IH: "n_phase (fst s) c = Some (Stuck b)" "n_new_blocks (fst s) = n_new_blocks (fst s0)" by simp_all
  have step: "p2p_step codec (fst s, snd s) (fst s', snd s')" using p2p_more.hyps(2) by simp
  have inv: "p2p_inv (fst s)" "mempool_wf (snd s)" using p2p_inv_reach [OF p2p_more.hyps(1)] p2p_more.prems by simp_all
  obtain bs where bs: "n_new_blocks (fst s') = n_new_blocks (fst s) @ bs" using channel_step [OF step] by blast
  have "length (n_new_blocks (fst s')) \<le> 100" using p2p_inv_step [OF step inv] by (simp add: p2p_inv_def)
  then show ?case using stuck_step [OF step inv(1) IH(1)] bs IH(2) p2p_more.prems by simp
qed simp

section \<open>A concrete node\<close>

text \<open>A node with one peer that has announced a block \<open>k\<close> times.\<close>

definition demo_codec :: p2p_codec where
  "demo_codec = \<lparr>enc_block = (\<lambda>_. Some [1]), dec_block = (\<lambda>_. Some genesis_header), enc_blocks = (\<lambda>_. [2]),
     enc_tx = (\<lambda>_. [3]), dec_tx = (\<lambda>_. None), enc_addresses = (\<lambda>_. [4])\<rparr>"

definition demo_msg :: "string \<Rightarrow> p2p_message" where
  "demo_msg ty = \<lparr>m_type = ty, m_chain_id = ''nuvex-1'', m_height = 7, m_payload = [], m_timestamp = 0, m_node_id = ''x''\<rparr>"

definition demo_p2p_node :: "nat \<Rightarrow> p2p_node" where
  "demo_p2p_node c = greet c (Ok (demo_msg ''handshake''))
     (open_connection (\<lambda>_. True) 0 c ''10.0.0.1'' False \<lparr>blocks = [], db_file = None\<rparr> (new_p2p_node ''me''))"

abbreviation demo_open :: "nat \<Rightarrow> p2p_node \<Rightarrow> p2p_node" where
  "demo_open c \<equiv> open_connection (\<lambda>_. True) 0 c ''10.0.0.1'' False \<lparr>blocks = [], db_file = None\<rparr>"

lemma demo_open_fields:
  "n_peers (demo_open c n) = n_peers n" "c \<notin> set (n_closed n) \<Longrightarrow> n_phase (demo_open c n) = (n_phase n)(c \<mapsto> Greeting)"
  by (simp_all add: open_connection_def send_handshake_def send_message_def Let_def)

lemma demo_node_fields: "n_peers (demo_p2p_node c) = [''x'' \<mapsto> c]" "n_phase (demo_p2p_node c) = [c \<mapsto> Serving]"
  "n_new_blocks (demo_p2p_node c) = []" "dom (n_objs (demo_p2p_node c)) = {c}"
  by (simp_all add: demo_p2p_node_def greet_def open_connection_def send_handshake_def send_message_def message_def
        demo_msg_def new_p2p_node_def max_peers_def upd_peer_def)

lemma demo_node_closed: "n_closed (demo_p2p_node c) = []"
  by (simp add: demo_p2p_node_def greet_def open_connection_def send_handshake_def send_message_def message_def
        demo_msg_def new_p2p_node_def max_peers_def upd_peer_def)

lemma demo_node_reach: "p2p_reach demo_codec (new_p2p_node ''me'', new_mempool) (demo_p2p_node c, new_mempool)"
proof -
  let ?o = "open_connection (\<lambda>_. True) 0 c ''10.0.0.1'' False \<lparr>blocks = [], db_file = None\<rparr> (new_p2p_node ''me'')"
  have "n_phase ?o c = Some Greeting"
    by (simp add: open_connection_def send_handshake_def send_message_def new_p2p_node_def Let_def)
  then have "p2p_step demo_codec (?o, new_mempool) (demo_p2p_node c, new_mempool)"
    unfolding demo_p2p_node_def by (rule p2p_greet)
  moreover have "p2p_step demo_codec (new_p2p_node ''me'', new_mempool) (?o, new_mempool)"
    by (rule p2p_open) (simp add: new_p2p_node_def)
  ultimately show ?thesis by (intro p2p_more [OF p2p_more [OF p2p_init]])
qed

lemma demo_announced:
  assumes "k \<le> 100"
  shows "\<exists>n. p2p_reach demo_codec (new_p2p_node ''me'', new_mempool) (n, new_mempool) \<and> n_peers n = [''x'' \<mapsto> 0]
    \<and> n_phase n = [0 \<mapsto> Serving] \<and> length (n_new_blocks n) = k"
  using assms
proof (induction k)
  case 0
  show ?case using demo_node_reach [of 0] demo_node_fields [of 0] by (intro exI [of _ "demo_p2p_node 0"]) simp
next
  case (Suc k)
  then obtain n where n: "p2p_reach demo_codec (new_p2p_node ''me'', new_mempool) (n, new_mempool)"
    "n_peers n = [''x'' \<mapsto> 0]" "n_phase n = [0 \<mapsto> Serving]" "length (n_new_blocks n) = k"
    by fastforce
  let ?n = "(upd_peer 0 (\<lambda>p. p\<lparr>pe_last_seen := 0\<rparr>) n)\<lparr>n_new_blocks := n_new_blocks n @ [genesis_header]\<rparr>"
  have h: "handle_message demo_codec (\<lambda>_. True) [''x''] 0 0 0 (demo_msg ''new_block'') \<lparr>blocks = [], db_file = None\<rparr> (n, new_mempool)
      = (?n, new_mempool)"
    using n Suc.prems by (simp add: handle_message_def demo_msg_def demo_codec_def block_channel_size_def Let_def)
  have "p2p_step demo_codec (n, new_mempool) (?n, new_mempool)"
    unfolding h [symmetric] by (rule p2p_message) (simp_all add: n enumerates_def)
  from p2p_more [OF n(1) this] show ?case
    using n by (intro exI [of _ ?n]) simp
qed

section \<open>Properties\<close>

text \<open>
  C40: Whatever connects, announces, breaks off and in whatever order, the table never holds more than
  50 peers, each entry belongs to a connection that is still being served and announced exactly
  that node ID, at most 100 announced blocks wait in the channel, and the mempool keeps its invariant.
\<close>
theorem peer_table_sound:
  assumes "p2p_reach codec (new_p2p_node node_id, new_mempool) (n, mp)"
  shows "card (dom (n_peers n)) \<le> 50 \<and> length (n_new_blocks n) \<le> 100 \<and> mempool_wf mp
    \<and> (\<forall>i c. n_peers n i = Some c \<longrightarrow>
          (\<exists>p. n_objs n c = Some p \<and> pe_id p = i)
          \<and> (n_phase n c = Some Serving \<or> (\<exists>b. n_phase n c = Some (Stuck b))))"
proof -
  have "p2p_inv n" "mempool_wf mp" using p2p_inv_reach [OF assms] p2p_inv_new mempool_wf_new by simp_all
  then show ?thesis by (simp add: p2p_inv_def entry_live_def)
qed

theorem peer_table_sound_witness:
  "\<exists>n mp. p2p_reach demo_codec (new_p2p_node ''me'', new_mempool) (n, mp) \<and> n_peers n ''x'' = Some 0
     \<and> card (dom (n_peers n)) \<le> 50"
proof -
  obtain n where n: "p2p_reach demo_codec (new_p2p_node ''me'', new_mempool) (n, new_mempool)" "n_peers n = [''x'' \<mapsto> 0]"
    using demo_announced [of 0] by blast
  then show ?thesis using peer_table_sound [OF n(1)] by (metis fun_upd_same)
qed

text \<open>
  Announced blocks are never taken in. They queue in a channel that nothing empties: once 100 wait,
  the goroutine of the peer that announces the next one blocks in sending it, and for ever: whatever
  happens afterwards it stays blocked, and the channel keeps the same 100 blocks.
\<close>
theorem announcements_block_peers:
  assumes "p2p_reach codec (new_p2p_node node_id, new_mempool) (n, mp)"
    and "length (n_new_blocks n) = 100" "n_phase n c = Some Serving"
    and "m_type msg = ''new_block''" "dec_block codec (m_payload msg) = Some b"
    and "p2p_reach codec (handle_message codec wr order now nano c msg bc (n, mp)) (n', mp')"
  shows "n_phase n' c = Some (Stuck b) \<and> n_new_blocks n' = n_new_blocks n"
proof -
  have inv: "p2p_inv n" "mempool_wf mp" using p2p_inv_reach [OF assms(1)] p2p_inv_new mempool_wf_new by simp_all
  define s where "s = handle_message codec wr order now nano c msg bc (n, mp)"
  have s: "n_phase (fst s) c = Some (Stuck b)" "n_new_blocks (fst s) = n_new_blocks n"
    using assms(2,4,5) by (simp_all add: s_def handle_message_def Let_def block_channel_size_def)
  have "p2p_inv (fst s) \<and> mempool_wf (snd s)"
    using p2p_inv_message [OF inv(1) assms(3) inv(2), of codec wr order now nano msg bc "fst s" "snd s"] by (simp add: s_def)
  then show ?thesis using stuck_reach [OF assms(6) [folded s_def]] s assms(2) by simp
qed

theorem announcements_block_peers_witness:
  "\<exists>n. length (n_new_blocks n) = 100 \<and> n_phase n 0 = Some Serving
     \<and> n_phase (fst (handle_message demo_codec (\<lambda>_. True) [''x''] 0 0 0 (demo_msg ''new_block'')
           \<lparr>blocks = [], db_file = None\<rparr> (n, new_mempool))) 0 = Some (Stuck genesis_header)"
proof -
  obtain n where n: "p2p_reach demo_codec (new_p2p_node ''me'', new_mempool) (n, new_mempool)"
    "n_phase n 0 = Some Serving" "length (n_new_blocks n) = 100"
    using demo_announced [of 100] by auto
  let ?s = "handle_message demo_codec (\<lambda>_. True) [''x''] 0 0 0 (demo_msg ''new_block'') \<lparr>blocks = [], db_file = None\<rparr> (n, new_mempool)"
  have "p2p_reach demo_codec ?s (fst ?s, snd ?s)" by (simp add: p2p_init)
  from announcements_block_peers [OF n(1,3,2) _ _ this] show ?thesis
    using n by (auto simp: demo_msg_def demo_codec_def)
qed

text \<open>
  What a peer sends is received line by line only if no read returns more than one line. Messages
  whose encodings contain no newline and do not end in a carriage return arrive in order however each
  is cut into reads, but everything that the read with the end of a line has after it, \<open>junk\<close>, is
  lost, even if it is the next message.
\<close>
theorem messages_lost_after_line_end:
  assumes "\<forall>(m, ps, l, junk)\<in>set ms. dec (concat ps @ l) = Some m \<and> 10 \<notin> set (concat ps @ l)
             \<and> (concat ps @ l \<noteq> [] \<longrightarrow> last (concat ps @ l) \<noteq> 13) \<and> length (concat ps @ l) < 65536"
  shows "read_all dec (concat (map (\<lambda>(m, ps, l, junk). ps @ [l @ [10] @ junk]) ms)) = map fst ms"
  using assms
proof (induction ms)
  case (Cons x ms)
  obtain m ps l junk where x: "x = (m, ps, l, junk)" by (cases x) auto
  have "read_all dec (ps @ (l @ 10 # junk) # concat (map (\<lambda>(m, ps, l, junk). ps @ [l @ [10] @ junk]) ms))
      = m # read_all dec (concat (map (\<lambda>(m, ps, l, junk). ps @ [l @ [10] @ junk]) ms))"
    by (rule read_all_parts [OF refl]) (use Cons.prems x in auto)
  with Cons x show ?case by simp
qed (simp add: read_all_end)

theorem messages_lost_after_line_end_witness:
  "read_all (\<lambda>l. if l = [7] then Some (demo_msg ''ping'') else None) [[7, 10, 7, 10], [7], [10]]
     = [demo_msg ''ping'', demo_msg ''ping'']"
  using messages_lost_after_line_end
    [of "[(demo_msg ''ping'', [], [7], [7, 10]), (demo_msg ''ping'', [[7]], [], [])]"
        "\<lambda>l. if l = [7] then Some (demo_msg ''ping'') else None"] by simp

text \<open>
  A node that reconnects before its old connection has ended is forgotten: the end of the old
  connection deletes the entry of the new one, which is still being served but is in no list of
  peers, so no block that the node broadcasts reaches it.
\<close>
theorem reconnected_peer_forgotten:
  assumes "p2p_reach codec (new_p2p_node node_id, new_mempool) (n, mp)"
    and "n_peers n i = Some c1" "n_phase n c2 = Some Greeting" "card (dom (n_peers n)) < 50"
    and "m_type msg = ''handshake''" "m_node_id msg = i"
    and "n' = disconnect c1 (greet c2 (Ok msg) n)" "enumerates order (n_peers n')"
  shows "n_phase n' c2 = Some Serving \<and> n_peers n' i = None
    \<and> (\<forall>x \<in> set (drop (length (n_wire n')) (n_wire (broadcast_block codec wr order now b n'))). fst x \<noteq> c2)"
proof -
  have inv: "p2p_inv n" using p2p_inv_reach [OF assms(1)] p2p_inv_new mempool_wf_new by simp
  have live: "entry_live n i c1" using inv assms(2) by (simp add: p2p_inv_def)
  have ne: "c1 \<noteq> c2" using live assms(3) by (auto simp: entry_live_def)
  have none: "n_peers n j \<noteq> Some c2" for j by (rule no_entry_of_phase [OF inv]) (simp add: assms(3))
  obtain p where p: "n_objs n c1 = Some p" "pe_id p = i" using live by (auto simp: entry_live_def)
  let ?g = "greet c2 (Ok msg) n"
  have g: "n_peers ?g = (n_peers n)(i \<mapsto> c2)" "n_phase ?g = (n_phase n)(c2 \<mapsto> Serving)" "n_objs ?g c1 = Some p"
    using assms(4-6) ne p(1) by (simp_all add: greet_def max_peers_def Let_def upd_peer_def)
  have n': "n_peers n' = (n_peers n)(i := None)" "n_phase n' c2 = Some Serving"
    using g p(2) ne by (simp_all add: assms(7) disconnect_def)
  have wire: "\<exists>ws. n_wire (send_all wr now cs m k) = n_wire k @ ws \<and> fst ` set ws \<subseteq> set cs" for cs m k
  proof (induction cs arbitrary: k)
    case (Cons d cs)
    obtain vs where vs: "n_wire (snd (send_message wr now d m k)) = n_wire k @ vs" "fst ` set vs \<subseteq> {d}"
      by (cases "wr d \<and> d \<notin> set (n_closed k)") (auto simp: send_message_def)
    from Cons [of "snd (send_message wr now d m k)"] obtain ws where
      "n_wire (send_all wr now cs m (snd (send_message wr now d m k))) = n_wire k @ vs @ ws" "fst ` set ws \<subseteq> set cs"
      using vs by auto
    then show ?case using vs by (intro exI [of _ "vs @ ws"]) (auto simp: send_all_def)
  qed (simp add: send_all_def)
  have out: "c2 \<notin> set (range_values order (n_peers n'))"
    using assms(8) none n'(1) by (auto simp: set_range_values ran_def split: if_splits)
  have "\<forall>x \<in> set (drop (length (n_wire n')) (n_wire (broadcast_block codec wr order now b n'))). fst x \<noteq> c2"
  proof (cases "enc_block codec b")
    case None
    then show ?thesis by (simp add: broadcast_block_def)
  next
    case (Some data)
    obtain ws where "n_wire (broadcast_block codec wr order now b n') = n_wire n' @ ws"
      "fst ` set ws \<subseteq> set (range_values order (n_peers n'))"
      using wire Some by (fastforce simp: broadcast_block_def)
    then show ?thesis using out by auto
  qed
  then show ?thesis using n' by simp
qed

theorem reconnected_peer_forgotten_witness:
  "let n = open_connection (\<lambda>_. True) 0 2 ''10.0.0.1'' False \<lparr>blocks = [], db_file = None\<rparr> (demo_p2p_node 0);
       n' = disconnect 0 (greet 2 (Ok (demo_msg ''handshake'')) n)
   in n_phase n' 2 = Some Serving \<and> n_peers n' ''x'' = None"
proof -
  let ?o = "open_connection (\<lambda>_. True) 0 2 ''10.0.0.1'' False \<lparr>blocks = [], db_file = None\<rparr> (demo_p2p_node 0)"
  have step: "p2p_step demo_codec (demo_p2p_node 0, new_mempool) (?o, new_mempool)"
  proof (rule p2p_open)
    have "2 \<notin> dom (n_objs (demo_p2p_node 0))" unfolding demo_node_fields(4) by simp
    then show "n_objs (demo_p2p_node 0) 2 = None" by blast
  qed
  note r = p2p_more [OF demo_node_reach step]
  have f: "n_peers ?o = [''x'' \<mapsto> 0]" "n_phase ?o 2 = Some Greeting"
    using demo_node_fields(1) [of 0] demo_node_closed [of 0] by (simp_all add: demo_open_fields)
  define n' where "n' = disconnect 0 (greet 2 (Ok (demo_msg ''handshake'')) ?o)"
  obtain order where o: "enumerates order (n_peers n')"
  proof -
    have "finite (dom (n_peers n'))"
      by (simp add: n'_def disconnect_def greet_def f Let_def split: option.splits)
    then show thesis using finite_distinct_list that by (metis enumerates_def)
  qed
  have "card (dom (n_peers ?o)) < 50" "m_type (demo_msg ''handshake'') = ''handshake''" "m_node_id (demo_msg ''handshake'') = ''x''"
    by (simp_all add: f demo_msg_def)
  from reconnected_peer_forgotten [OF r _ f(2) this n'_def o] f(1) show ?thesis by (simp add: n'_def Let_def)
qed

end
