(* ===== verification/Nuvex_Peer.thy ===== *)
theory Nuvex_Peer
  imports Nuvex_P2P "HOL-Library.List_Lexorder" "HOL-Library.Char_ord"
begin

text \<open>
  The goroutine of one connection from beginning to end (\<open>handleConnection\<close> and \<open>handlePeer\<close> in
  \<open>x/nvx/keeper/p2p.go\<close>), composed of the steps of Nuvex_P2P: it greets, reads and handles messages
  until a read fails, and leaves the table. The stream is the list of what the reads return, which
  a deadline bounds; the loop is shown to terminate because every message uses up a read.
\<close>

section \<open>The goroutine\<close>

text \<open>What the goroutine meets outside: for the k-th message the writes that succeed, two clock readings
  and the chain, and an order for ranging over the table.\<close>

record peer_env =
  pv_write :: "nat \<Rightarrow> nat \<Rightarrow> bool"
  pv_now :: "nat \<Rightarrow> int"
  pv_nano :: "nat \<Rightarrow> int"
  pv_chain :: "nat \<Rightarrow> blockchain"
  pv_order :: "(string \<rightharpoonup> nat) \<Rightarrow> string list"

definition next_message ::
    "p2p_codec \<Rightarrow> peer_env \<Rightarrow> nat \<Rightarrow> nat \<Rightarrow> p2p_message \<Rightarrow> p2p_node \<times> mempool \<Rightarrow> p2p_node \<times> mempool" where
  "next_message codec env c k msg s =
     handle_message codec (pv_write env k) (pv_order env (n_peers (fst s))) (pv_now env k) (pv_nano env k) c msg
       (pv_chain env k) s"

text \<open>The loop of \<open>handlePeer\<close>. It is left when a read fails; a goroutine that blocks in a send stays
  there.\<close>

function peer_loop ::
    "p2p_codec \<Rightarrow> (bytes \<Rightarrow> p2p_message option) \<Rightarrow> peer_env \<Rightarrow> nat \<Rightarrow> nat \<Rightarrow> bytes list
       \<Rightarrow> p2p_node \<times> mempool \<Rightarrow> p2p_node \<times> mempool" where
  "peer_loop codec dec env c k reads s =
     (case read_message dec reads of
        (Ok msg, rest) \<Rightarrow>
          let s' = next_message codec env c k msg s
          in if n_phase (fst s') c = Some Serving then peer_loop codec dec env c (k + 1) rest s' else s'
      | _ \<Rightarrow> s)"
  by pat_completeness auto
termination
  by (relation "measure (\<lambda>(codec, dec, env, c, k, reads, s). length reads)")
    (auto dest: read_message_shorter [OF sym])

declare peer_loop.simps [simp del]

definition handle_connection ::
    "p2p_codec \<Rightarrow> (bytes \<Rightarrow> p2p_message option) \<Rightarrow> peer_env \<Rightarrow> nat \<Rightarrow> string \<Rightarrow> bool \<Rightarrow> bytes list
       \<Rightarrow> p2p_node \<times> mempool \<Rightarrow> p2p_node \<times> mempool" where
  "handle_connection codec dec env c address outbound reads s =
     (let n1 = open_connection (pv_write env 0) (pv_now env 0) c address outbound (pv_chain env 0) (fst s)
      in if n_phase n1 c \<noteq> Some Greeting then (n1, snd s)
         else
           let (r, rest) = read_message dec reads;
               n2 = greet c r n1
           in if n_phase n2 c \<noteq> Some Serving then (n2, snd s)
              else
                let (n3, mp) = peer_loop codec dec env c 1 rest (n2, snd s)
                in (if n_phase n3 c = Some Serving then disconnect c n3 else n3, mp))"

section \<open>Lemmas\<close>

text \<open>Where a connection can be after each part of the goroutine.\<close>

lemma end_connection_over: "n_phase (end_connection c n) c = None" "c \<in> set (n_closed (end_connection c n))"
  by (simp_all add: end_connection_def)

definition over :: "nat \<Rightarrow> p2p_node \<Rightarrow> bool" where
  "over c n \<longleftrightarrow> n_phase n c = None \<and> c \<in> set (n_closed n)"

lemma open_phase:
  "over c (open_connection wr now c address outbound bc n)
     \<or> n_phase (open_connection wr now c address outbound bc n) c = Some Greeting"
  by (auto simp: open_connection_def over_def end_connection_over send_handshake_def send_message_def Let_def)

lemma greet_phase: "over c (greet c r n) \<or> n_phase (greet c r n) c = Some Serving"
  by (auto simp: greet_def over_def end_connection_over Let_def split: res.splits)

lemma disconnect_phase: "n_objs n c = Some p \<Longrightarrow> over c (disconnect c n)"
  by (simp add: disconnect_def over_def end_connection_over)

definition blocked :: "nat \<Rightarrow> p2p_node \<Rightarrow> bool" where
  "blocked c n \<longleftrightarrow> (\<exists>b. n_phase n c = Some (Stuck b)) \<and> length (n_new_blocks n) = 100"

lemma message_phase:
  assumes "n_phase n c = Some Serving" "length (n_new_blocks n) \<le> 100"
    and "handle_message codec wr order now nano c msg bc (n, mp) = (n', mp')"
  shows "n_phase n' c = Some Serving \<or> blocked c n'"
proof (cases rule: handle_message_cases [of codec wr order now nano c msg bc n mp])
  case (stuck b)
  then show ?thesis using assms(2,3) by (auto simp: blocked_def)
qed (use assms(1,3) in auto)

lemma peer_loop_reaches:
  assumes "p2p_reach codec s0 s" "p2p_inv (fst s0)" "mempool_wf (snd s0)" "n_phase (fst s) c = Some Serving"
    and "\<forall>m. finite (dom m) \<longrightarrow> enumerates (pv_order env m) m"
  shows "p2p_reach codec s0 (peer_loop codec dec env c k reads s)
    \<and> (n_phase (fst (peer_loop codec dec env c k reads s)) c = Some Serving
       \<or> blocked c (fst (peer_loop codec dec env c k reads s)))"
  using assms
proof (induction codec dec env c k reads s rule: peer_loop.induct)
  case (1 codec dec env c k reads s)
  show ?case
  proof (cases "\<exists>msg rest. read_message dec reads = (Ok msg, rest)")
    case True
    then obtain msg rest where m: "read_message dec reads = (Ok msg, rest)" by blast
    obtain n mp where s: "s = (n, mp)" by (cases s)
    obtain n' mp' where s': "next_message codec env c k msg s = (n', mp')"
      by (cases "next_message codec env c k msg s")
    have inv: "p2p_inv n" using p2p_inv_reach [OF "1.prems"(1-3)] s by simp
    then have "enumerates (pv_order env (n_peers n)) (n_peers n)" using "1.prems"(5) by (simp add: p2p_inv_def)
    then have "p2p_step codec s (n', mp')"
      unfolding s' [symmetric] next_message_def unfolding s using "1.prems"(4) s by (auto intro: p2p_message)
    then have r: "p2p_reach codec s0 (n', mp')" by (rule p2p_more [OF "1.prems"(1)])
    have ph: "n_phase n' c = Some Serving \<or> blocked c n'"
      using message_phase [of n c codec] s' "1.prems"(4) inv s by (auto simp: next_message_def p2p_inv_def)
    have l: "peer_loop codec dec env c k reads s
        = (if n_phase n' c = Some Serving then peer_loop codec dec env c (k + 1) rest (n', mp') else (n', mp'))"
      by (subst peer_loop.simps) (simp add: m s')
    show ?thesis
    proof (cases "n_phase n' c = Some Serving")
      case True
      then show ?thesis
        using "1.IH" [OF m [symmetric] refl refl] r "1.prems"(2,3,5) s' l by simp
    next
      case False
      then show ?thesis using ph l r by auto
    qed
  next
    case False
    then have "peer_loop codec dec env c k reads s = s"
      by (subst peer_loop.simps) (auto split: prod.splits res.splits)
    then show ?thesis using "1.prems" by simp
  qed
qed

section \<open>Properties\<close>



text \<open>A peer that greets, asks twice and hangs up; the decoder reads a message off the first byte.\<close>

definition demo_dec :: "bytes \<Rightarrow> p2p_message option" where
  "demo_dec l = (if l = [1] then Some (demo_msg ''handshake'') else if l = [2] then Some (demo_msg ''ping'') else None)"

definition demo_peer_env :: peer_env where
  "demo_peer_env = \<lparr>pv_write = (\<lambda>_ _. True), pv_now = int, pv_nano = int,
     pv_chain = (\<lambda>_. \<lparr>blocks = [], db_file = None\<rparr>), pv_order = (\<lambda>m. sorted_list_of_set (dom m))\<rparr>"

lemma demo_order: "\<forall>m. finite (dom m) \<longrightarrow> enumerates (pv_order demo_peer_env m) m"
  by (simp add: demo_peer_env_def enumerates_def)

lemma demo_reads:
  "read_message demo_dec [[1, 10], [2, 10], [2], [10]] = (Ok (demo_msg ''handshake''), [[2, 10], [2], [10]])"
  "read_message demo_dec [[2, 10], [2], [10]] = (Ok (demo_msg ''ping''), [[2], [10]])"
  "read_message demo_dec [[2], [10]] = (Ok (demo_msg ''ping''), [])"
  "read_message demo_dec [] = (Err Disconnected, [])"
  by (simp_all add: read_message_def scan_line.simps demo_dec_def drop_cr_def)

lemma demo_open_greet:
  "open_connection (pv_write demo_peer_env 0) (pv_now demo_peer_env 0) 3 ''10.0.0.1'' False (pv_chain demo_peer_env 0)
     (new_p2p_node ''me'') = demo_open 3 (new_p2p_node ''me'')"
  "n_phase (demo_open 3 (new_p2p_node ''me'')) 3 = Some Greeting"
  "greet 3 (Ok (demo_msg ''handshake'')) (demo_open 3 (new_p2p_node ''me'')) = demo_p2p_node 3"
  "length (n_wire (demo_p2p_node 3)) = 1"
  by (simp_all add: demo_peer_env_def demo_p2p_node_def demo_open_fields)
    (simp_all add: greet_def open_connection_def send_handshake_def send_message_def message_def
        demo_msg_def new_p2p_node_def max_peers_def upd_peer_def)

lemma demo_ping:
  "next_message codec demo_peer_env 3 k (demo_msg ''ping'') (n, mp) = (n', mp') \<Longrightarrow>
     n_phase n' = n_phase n \<and> n_closed n' = n_closed n
     \<and> (3 \<notin> set (n_closed n) \<longrightarrow> length (n_wire n') = Suc (length (n_wire n))) \<and> dom (n_objs n') = dom (n_objs n)"
  by (cases "3 \<in> set (n_closed n)")
    (auto simp: next_message_def handle_message_def demo_msg_def send_message_def demo_peer_env_def Let_def upd_peer_def
      split: if_splits)


end
