(* ===== verification/Nuvex_LevelDB.thy ===== *)
theory Nuvex_LevelDB
  imports Nuvex_State "HOL-Library.Char_ord" "HOL-Library.List_Lexorder"
begin

text \<open>
  The LevelDB state keeper (\<open>x/nvx/keeper/state_leveldb.go\<close>). The database is not part of the
  repository: it is a record of functions on an abstract type, with what its documentation promises
  as the predicate \<open>leveldb_laws\<close>; so are the JSON encoders. The read-write mutex is a field, because
  the keeper's locking matters: an operation whose result is \<open>None\<close> waits for a lock that only the
  waiting goroutine itself could release.
\<close>

definition string_of :: "bytes \<Rightarrow> string" where
  "string_of bs = map (\<lambda>b. char_of (unat b)) bs"

section \<open>The database and the lock\<close>

record 'd leveldb =
  ldb_get :: "'d \<Rightarrow> string \<Rightarrow> bytes option"
  ldb_put :: "'d \<Rightarrow> string \<Rightarrow> bytes \<Rightarrow> 'd option"
  ldb_range :: "'d \<Rightarrow> string \<Rightarrow> (string \<times> bytes) list"

text \<open>A successful \<open>Put\<close> changes one key; an iterator over a prefix lists its entries by key.\<close>

definition leveldb_laws :: "'d leveldb \<Rightarrow> bool" where
  "leveldb_laws L \<longleftrightarrow>
     (\<forall>d k v d'. ldb_put L d k v = Some d' \<longrightarrow> ldb_get L d' = (ldb_get L d)(k \<mapsto> v))
     \<and> (\<forall>d p. sorted_wrt (<) (map fst (ldb_range L d p)))
     \<and> (\<forall>d p. set (ldb_range L d p) = {(k, v). ldb_get L d k = Some v \<and> take (length p) k = p})"

record state_codec =
  enc_account :: "account \<Rightarrow> bytes"
  dec_account :: "bytes \<Rightarrow> account option"
  enc_transaction :: "transaction \<Rightarrow> bytes"
  dec_transaction :: "bytes \<Rightarrow> transaction option"

datatype rw_lock = Free | Readers nat | Writer

fun rlock :: "rw_lock \<Rightarrow> rw_lock option" where
  "rlock Free = Some (Readers 1)"
| "rlock (Readers n) = Some (Readers (n + 1))"
| "rlock Writer = None"

fun runlock :: "rw_lock \<Rightarrow> rw_lock" where
  "runlock (Readers n) = (if n \<le> 1 then Free else Readers (n - 1))"
| "runlock l = l"

fun wlock :: "rw_lock \<Rightarrow> rw_lock option" where
  "wlock Free = Some Writer"
| "wlock _ = None"

record 'd ldb_keeper =
  ldb_mu :: rw_lock
  ldb_db :: 'd
  ldb_cache :: "string \<rightharpoonup> account"

datatype ldb_error = LdbNotFound string | LdbInsufficient i64 i64 | LdbPut | LdbDecode

record ldb_stats =
  ld_accounts :: int
  ld_transactions :: int
  ld_storage :: string
  ld_cache_size :: int

section \<open>Accounts\<close>

definition acc_key :: "string \<Rightarrow> string" where
  "acc_key address = ''acc:'' @ address"

text \<open>\<open>GetAccount\<close>: the cache under the read lock, then the database under the write lock. The result
  is \<open>None\<close> when the lock cannot be had, else the account, if there is one.\<close>

definition get_account ::
    "'d leveldb \<Rightarrow> state_codec \<Rightarrow> string \<Rightarrow> 'd ldb_keeper \<Rightarrow> (account option \<times> 'd ldb_keeper) option" where
  "get_account L codec address k =
     (case rlock (ldb_mu k) of
        None \<Rightarrow> None
      | Some l1 \<Rightarrow>
          let l2 = runlock l1
          in (case ldb_cache k address of
                Some acc \<Rightarrow> Some (Some acc, k\<lparr>ldb_mu := l2\<rparr>)
              | None \<Rightarrow>
                  (case wlock l2 of
                     None \<Rightarrow> None
                   | Some _ \<Rightarrow>
                       (case ldb_get L (ldb_db k) (acc_key address) of
                          None \<Rightarrow> Some (None, k\<lparr>ldb_mu := Free\<rparr>)
                        | Some data \<Rightarrow>
                            (case dec_account codec data of
                               None \<Rightarrow> Some (None, k\<lparr>ldb_mu := Free\<rparr>)
                             | Some acc \<Rightarrow>
                                 Some (Some acc, k\<lparr>ldb_mu := Free, ldb_cache := (ldb_cache k)(address \<mapsto> acc)\<rparr>))))))"

definition set_account ::
    "'d leveldb \<Rightarrow> state_codec \<Rightarrow> account \<Rightarrow> 'd ldb_keeper \<Rightarrow> (ldb_error, unit) res \<times> 'd ldb_keeper" where
  "set_account L codec acc k =
     (case ldb_put L (ldb_db k) (acc_key (acc_address acc)) (enc_account codec acc) of
        None \<Rightarrow> (Err LdbPut, k)
      | Some d \<Rightarrow> (Ok (), k\<lparr>ldb_db := d, ldb_cache := (ldb_cache k)(acc_address acc \<mapsto> acc)\<rparr>))"

definition get_balance_ldb ::
    "'d leveldb \<Rightarrow> state_codec \<Rightarrow> string \<Rightarrow> 'd ldb_keeper \<Rightarrow> (i64 \<times> 'd ldb_keeper) option" where
  "get_balance_ldb L codec address k =
     (case get_account L codec address k of
        None \<Rightarrow> None
      | Some (a, k') \<Rightarrow> Some (case a of None \<Rightarrow> 0 | Some acc \<Rightarrow> acc_balance acc, k'))"

section \<open>Transactions\<close>

text \<open>The verb \<open>%010d\<close>.\<close>

definition pad10 :: "i64 \<Rightarrow> string" where
  "pad10 w =
     (let digits = show_nat (nat \<bar>sint w\<bar>)
      in if sint w < 0 then CHR ''-'' # replicate (9 - length digits) CHR ''0'' @ digits
         else replicate (10 - length digits) CHR ''0'' @ digits)"

definition tx_key :: "string \<Rightarrow> string" where
  "tx_key h = ''tx:'' @ h"

definition idx_key :: "i64 \<Rightarrow> string \<Rightarrow> string" where
  "idx_key height h = ''txidx:'' @ pad10 height @ '':'' @ h"

definition addr_key :: "string \<Rightarrow> i64 \<Rightarrow> string \<Rightarrow> string" where
  "addr_key address height h = ''txaddr:'' @ address @ '':'' @ pad10 height @ '':'' @ h"

text \<open>The puts of \<open>SaveTransaction\<close>, in order; the first that fails ends them.\<close>

fun put_all :: "'d leveldb \<Rightarrow> (string \<times> bytes) list \<Rightarrow> 'd \<Rightarrow> (ldb_error, unit) res \<times> 'd" where
  "put_all L [] d = (Ok (), d)"
| "put_all L ((k, v) # kvs) d =
     (case ldb_put L d k v of None \<Rightarrow> (Err LdbPut, d) | Some d' \<Rightarrow> put_all L kvs d')"

definition tx_entries :: "state_codec \<Rightarrow> transaction \<Rightarrow> (string \<times> bytes) list" where
  "tx_entries codec tx =
     [(tx_key (tx_hash tx), enc_transaction codec tx),
      (idx_key (tx_height tx) (tx_hash tx), bytes_of (tx_hash tx)),
      (addr_key (tx_from tx) (tx_height tx) (tx_hash tx), bytes_of (tx_hash tx)),
      (addr_key (tx_to tx) (tx_height tx) (tx_hash tx), bytes_of (tx_hash tx))]"

definition save_transaction ::
    "'d leveldb \<Rightarrow> state_codec \<Rightarrow> transaction \<Rightarrow> 'd ldb_keeper \<Rightarrow> (ldb_error, unit) res \<times> 'd ldb_keeper" where
  "save_transaction L codec tx k =
     (let (r, d) = put_all L (tx_entries codec tx) (ldb_db k) in (r, k\<lparr>ldb_db := d\<rparr>))"

definition get_transaction ::
    "'d leveldb \<Rightarrow> state_codec \<Rightarrow> string \<Rightarrow> 'd ldb_keeper \<Rightarrow> (ldb_error, transaction) res" where
  "get_transaction L codec h k =
     (case ldb_get L (ldb_db k) (tx_key h) of
        None \<Rightarrow> Err (LdbNotFound h)
      | Some data \<Rightarrow>
          (case dec_transaction codec data of None \<Rightarrow> Err LdbDecode | Some tx \<Rightarrow> Ok tx))"

text \<open>The backward walk of an iterator: entries whose transaction cannot be read do not count.\<close>

fun walk_back ::
    "'d leveldb \<Rightarrow> state_codec \<Rightarrow> 'd ldb_keeper \<Rightarrow> int \<Rightarrow> int \<Rightarrow> (string \<times> bytes) list \<Rightarrow> transaction list" where
  "walk_back L codec k limit cnt [] = []"
| "walk_back L codec k limit cnt ((_, v) # kvs) =
     (if \<not> cnt < limit then []
      else (case get_transaction L codec (string_of v) k of
              Ok tx \<Rightarrow> tx # walk_back L codec k limit (cnt + 1) kvs
            | _ \<Rightarrow> walk_back L codec k limit cnt kvs))"

definition transactions_under ::
    "'d leveldb \<Rightarrow> state_codec \<Rightarrow> string \<Rightarrow> int \<Rightarrow> 'd ldb_keeper \<Rightarrow> (transaction list \<times> 'd ldb_keeper) option" where
  "transactions_under L codec prefix limit k =
     (case rlock (ldb_mu k) of
        None \<Rightarrow> None
      | Some l \<Rightarrow>
          Some (walk_back L codec k limit 0 (rev (ldb_range L (ldb_db k) prefix)), k\<lparr>ldb_mu := runlock l\<rparr>))"

definition get_transactions_by_address where
  "get_transactions_by_address L codec address limit k =
     transactions_under L codec (''txaddr:'' @ address @ '':'') limit k"

definition get_recent_transactions where
  "get_recent_transactions L codec limit k = transactions_under L codec ''txidx:'' limit k"

section \<open>Transfer\<close>

text \<open>\<open>TransferLDB\<close> takes the write lock and keeps it until it returns; \<open>GetAccount\<close> asks for the
  read lock of the same mutex. The accounts it changes are the cached objects.\<close>

definition transfer_ldb ::
    "'d leveldb \<Rightarrow> state_codec \<Rightarrow> string \<Rightarrow> string \<Rightarrow> i64 \<Rightarrow> i64 \<Rightarrow> i64 \<Rightarrow> string \<Rightarrow> 'd ldb_keeper
       \<Rightarrow> ((ldb_error, transaction) res \<times> 'd ldb_keeper) option" where
  "transfer_ldb L codec from to amount fee height now k0 =
     (case wlock (ldb_mu k0) of
        None \<Rightarrow> None
      | Some l \<Rightarrow>
          let release = (\<lambda>(r, k). Some (r, k\<lparr>ldb_mu := Free\<rparr>))
          in (case get_account L codec from (k0\<lparr>ldb_mu := l\<rparr>) of
                None \<Rightarrow> None
              | Some (None, k1) \<Rightarrow> release (Err (LdbNotFound from), k1)
              | Some (Some sender, k1) \<Rightarrow>
                  let debit = amount + fee in
                  if acc_balance sender <s debit then release (Err (LdbInsufficient (acc_balance sender) debit), k1)
                  else
                    (case get_account L codec to k1 of
                       None \<Rightarrow> None
                     | Some (found, k2) \<Rightarrow>
                         let receiver = (case found of Some r \<Rightarrow> r
                               | None \<Rightarrow> \<lparr>acc_address = to, acc_balance = 0, acc_nonce = 0, acc_public_key = ''''\<rparr>);
                             debited = sender\<lparr>acc_balance := acc_balance sender - debit\<rparr>;
                             credited = add_balance amount (if to = from then debited else receiver);
                             sender2 = (if to = from then credited else debited)
                                       \<lparr>acc_nonce := acc_nonce sender + 1\<rparr>;
                             receiver2 = (if to = from then sender2 else credited);
                             k2' = k2\<lparr>ldb_cache := (if found = None then ldb_cache k2
                                      else (ldb_cache k2)(to \<mapsto> receiver2))(from \<mapsto> sender2)\<rparr>
                         in (case set_account L codec sender2 k2' of
                               (Ok _, k3) \<Rightarrow>
                                 (case set_account L codec receiver2 k3 of
                                    (Ok _, k4) \<Rightarrow>
                                      let tx = confirmed_tx from to amount fee (acc_nonce sender2) height now '''' '''';
                                          (r, k5) = save_transaction L codec tx k4
                                      in (case r of
                                            Ok _ \<Rightarrow> release (if slice_ok 16 from \<and> slice_ok 16 to then Ok tx else Panic, k5)
                                          | Err e \<Rightarrow> release (Err e, k5)
                                          | Panic \<Rightarrow> release (Panic, k5))
                                  | (Err e, k4) \<Rightarrow> release (Err e, k4)
                                  | (Panic, k4) \<Rightarrow> release (Panic, k4))
                             | (Err e, k3) \<Rightarrow> release (Err e, k3)
                             | (Panic, k3) \<Rightarrow> release (Panic, k3)))))"

section \<open>Statistics and construction\<close>

definition count_accounts :: "'d leveldb \<Rightarrow> 'd ldb_keeper \<Rightarrow> int" where
  "count_accounts L k = int (length (ldb_range L (ldb_db k) ''acc:''))"

definition count_transactions :: "'d leveldb \<Rightarrow> 'd ldb_keeper \<Rightarrow> int" where
  "count_transactions L k = int (length (ldb_range L (ldb_db k) ''tx:''))"

definition ldb_stats_of :: "'d leveldb \<Rightarrow> 'd ldb_keeper \<Rightarrow> ldb_stats" where
  "ldb_stats_of L k =
     \<lparr>ld_accounts = count_accounts L k, ld_transactions = count_transactions L k,
      ld_storage = ''LevelDB'', ld_cache_size = int (card (dom (ldb_cache k)))\<rparr>"

text \<open>The argument is the database that \<open>OpenFile\<close> gives, if it does.\<close>

definition new_ldb_keeper :: "'d option \<Rightarrow> 'd ldb_keeper option" where
  "new_ldb_keeper opened = map_option (\<lambda>d. \<lparr>ldb_mu = Free, ldb_db = d, ldb_cache = Map.empty\<rparr>) opened"


section \<open>The account store\<close>

text \<open>The abstract store behind cache and database: a map from addresses to accounts.\<close>

definition account_store :: "'d leveldb \<Rightarrow> state_codec \<Rightarrow> 'd ldb_keeper \<Rightarrow> string \<rightharpoonup> account" where
  "account_store L codec k a =
     (case ldb_cache k a of
        Some acc \<Rightarrow> Some acc
      | None \<Rightarrow> (case ldb_get L (ldb_db k) (acc_key a) of None \<Rightarrow> None | Some data \<Rightarrow> dec_account codec data))"

text \<open>Each cached account is what the database would give.\<close>

definition cache_coherent :: "'d leveldb \<Rightarrow> state_codec \<Rightarrow> 'd ldb_keeper \<Rightarrow> bool" where
  "cache_coherent L codec k \<longleftrightarrow>
     (\<forall>a acc. ldb_cache k a = Some acc \<longrightarrow>
        (\<exists>data. ldb_get L (ldb_db k) (acc_key a) = Some data \<and> dec_account codec data = Some acc))"

definition reopened :: "'d ldb_keeper \<Rightarrow> 'd ldb_keeper" where
  "reopened k = k\<lparr>ldb_mu := Free, ldb_cache := Map.empty\<rparr>"

lemma acc_key_inject [simp]: "acc_key a = acc_key b \<longleftrightarrow> a = b"
  by (simp add: acc_key_def)

lemma store_reopened: "cache_coherent L codec k \<Longrightarrow> account_store L codec (reopened k) = account_store L codec k"
proof
  fix a
  assume "cache_coherent L codec k"
  then show "account_store L codec (reopened k) a = account_store L codec k a"
    by (cases "ldb_cache k a") (fastforce simp: account_store_def reopened_def cache_coherent_def split: option.splits)+
qed

lemma mu_irrelevant [simp]:
  "account_store L codec (k\<lparr>ldb_mu := l\<rparr>) = account_store L codec k"
  "cache_coherent L codec (k\<lparr>ldb_mu := l\<rparr>) = cache_coherent L codec k"
  by (auto simp: account_store_def cache_coherent_def fun_eq_iff split: option.splits)

lemma get_account_store:
  assumes "ldb_mu k = Free" "cache_coherent L codec k"
  shows "\<exists>k'. get_account L codec a k = Some (account_store L codec k a, k')
    \<and> account_store L codec k' = account_store L codec k \<and> cache_coherent L codec k' \<and> ldb_mu k' = Free
    \<and> ldb_db k' = ldb_db k"
proof (cases "ldb_cache k a")
  case (Some acc)
  then have "account_store L codec k a = Some acc" by (simp add: account_store_def)
  with Some show ?thesis using assms by (simp add: get_account_def)
next
  case None
  show ?thesis
  proof (cases "case ldb_get L (ldb_db k) (acc_key a) of None \<Rightarrow> None | Some data \<Rightarrow> dec_account codec data")
    case N: None
    then have "account_store L codec k a = None" using None by (simp add: account_store_def)
    with N None show ?thesis using assms by (auto simp: get_account_def split: option.splits)
  next
    case (Some acc)
    then obtain data where data: "ldb_get L (ldb_db k) (acc_key a) = Some data" "dec_account codec data = Some acc"
      by (auto split: option.splits)
    let ?k = "k\<lparr>ldb_mu := Free, ldb_cache := (ldb_cache k)(a \<mapsto> acc)\<rparr>"
    have "get_account L codec a k = Some (Some acc, ?k)"
      using assms(1) None data by (simp add: get_account_def)
    moreover have "account_store L codec ?k = account_store L codec k"
      using None data by (auto simp: account_store_def fun_eq_iff split: option.splits)
    moreover have "cache_coherent L codec ?k" using assms(2) data by (auto simp: cache_coherent_def)
    moreover have "account_store L codec k a = Some acc" using None data by (simp add: account_store_def)
    ultimately show ?thesis by auto
  qed
qed

lemma set_account_store:
  assumes "leveldb_laws L" "dec_account codec (enc_account codec acc) = Some acc" "cache_coherent L codec k"
    "set_account L codec acc k = (r, k')"
  shows "cache_coherent L codec k' \<and> ldb_mu k' = ldb_mu k
    \<and> account_store L codec k' = (if r = Ok () then (account_store L codec k)(acc_address acc \<mapsto> acc) else account_store L codec k)"
proof (cases "ldb_put L (ldb_db k) (acc_key (acc_address acc)) (enc_account codec acc)")
  case None
  then show ?thesis using assms(3,4) by (auto simp: set_account_def)
next
  case (Some d)
  then have "ldb_get L d = (ldb_get L (ldb_db k))(acc_key (acc_address acc) \<mapsto> enc_account codec acc)"
    using assms(1) by (simp add: leveldb_laws_def)
  then show ?thesis using assms(2-4) Some
    by (auto simp: set_account_def cache_coherent_def account_store_def split: option.splits)
qed

section \<open>Saved transactions\<close>

lemma string_of_bytes_of [simp]: "string_of (bytes_of s) = s"
proof -
  have "char_of (unat (word_of_nat (of_char c) :: byte)) = (c :: char)" for c
  proof -
    have "of_char c < (256 :: nat)" by simp
    then show ?thesis by (simp add: unat_of_nat)
  qed
  then show ?thesis by (simp add: string_of_def bytes_of_def map_idI)
qed

lemma put_all_get:
  assumes "leveldb_laws L"
  shows "put_all L kvs d = (Ok (), d') \<Longrightarrow> ldb_get L d' = foldl (\<lambda>m (k, v). m(k \<mapsto> v)) (ldb_get L d) kvs"
  using assms
proof (induction kvs arbitrary: d)
  case (Cons kv kvs)
  obtain k v where kv: "kv = (k, v)" by (cases kv)
  with Cons.prems(1) obtain d1 where d1: "ldb_put L d k v = Some d1" "put_all L kvs d1 = (Ok (), d')"
    by (auto split: option.splits)
  have "ldb_get L d1 = (ldb_get L d)(k \<mapsto> v)" using assms d1(1) by (simp add: leveldb_laws_def)
  with Cons.IH [OF d1(2) assms] kv show ?case by simp
qed simp

lemma key_kinds [simp]:
  "tx_key h \<noteq> idx_key i j" "tx_key h \<noteq> addr_key a i j" "idx_key i j \<noteq> addr_key a m l" "tx_key h = tx_key h' \<longleftrightarrow> h = h'"
  "idx_key i j \<noteq> tx_key h" "addr_key a i j \<noteq> tx_key h" "addr_key a m l \<noteq> idx_key i j"
  "take 6 (tx_key h) \<noteq> ''txidx:''" "take 6 (addr_key a i j) \<noteq> ''txidx:''" "take 6 (idx_key i j) = ''txidx:''"
  by (auto simp: tx_key_def idx_key_def addr_key_def take_Cons')

lemma save_transaction_get:
  assumes "leveldb_laws L" "save_transaction L codec tx k = (Ok (), k')"
  shows "ldb_get L (ldb_db k') = (ldb_get L (ldb_db k))(tx_key (tx_hash tx) \<mapsto> enc_transaction codec tx,
      idx_key (tx_height tx) (tx_hash tx) \<mapsto> bytes_of (tx_hash tx),
      addr_key (tx_from tx) (tx_height tx) (tx_hash tx) \<mapsto> bytes_of (tx_hash tx),
      addr_key (tx_to tx) (tx_height tx) (tx_hash tx) \<mapsto> bytes_of (tx_hash tx))"
    "ldb_mu k' = ldb_mu k"
  using assms put_all_get [OF assms(1), of "tx_entries codec tx" "ldb_db k" "ldb_db k'"]
  by (auto simp: save_transaction_def tx_entries_def Let_def split: prod.splits)


text \<open>Padded heights sort like the heights.\<close>

lemma read_nat_acc: "read_nat acc xs = acc * 10 ^ length xs + read_nat 0 xs"
proof (induction xs arbitrary: acc)
  case (Cons c xs)
  show ?case using Cons [of "10 * acc + (of_char c - 48)"] Cons [of "of_char c - 48"]
    by (simp add: algebra_simps)
qed simp

lemma read_nat_bound: "\<forall>c\<in>set xs. is_digit c \<Longrightarrow> read_nat 0 xs < 10 ^ length xs"
proof (induction xs)
  case (Cons c xs)
  have "of_char c < (58 :: nat)" using Cons.prems by (simp add: is_digit_def)
  then have "of_char c - 48 \<le> (9 :: nat)" by linarith
  then have m: "(of_char c - 48) * 10 ^ length xs \<le> (9 :: nat) * 10 ^ length xs" by (rule mult_le_mono1)
  have "read_nat 0 (c # xs) = (of_char c - 48) * 10 ^ length xs + read_nat 0 xs"
    using read_nat_acc [of "of_char c - 48" xs] by simp
  moreover have "read_nat 0 xs < 10 ^ length xs" using Cons by simp
  moreover have "(10 :: nat) ^ length (c # xs) = 10 * 10 ^ length xs" by simp
  ultimately show ?case using m by linarith
qed simp

lemma digits_less:
  assumes "length xs = length ys" "\<forall>c\<in>set xs. is_digit c" "\<forall>c\<in>set ys. is_digit c" "read_nat 0 xs < read_nat 0 ys"
  shows "xs < ys"
  using assms
proof (induction xs ys rule: list_induct2)
  case (Cons x xs y ys)
  let ?a = "of_char x - 48 :: nat" and ?b = "of_char y - 48 :: nat"
  have d: "48 \<le> (of_char x :: nat)" "48 \<le> (of_char y :: nat)" using Cons.prems by (simp_all add: is_digit_def)
  have lt: "?a * 10 ^ length ys + read_nat 0 xs < ?b * 10 ^ length ys + read_nat 0 ys"
    using Cons.prems(3) Cons.hyps read_nat_acc [of ?a xs] read_nat_acc [of ?b ys] by simp
  show ?case
  proof (cases "?a = ?b")
    case True
    then have "(of_char x :: nat) = of_char y" using d by linarith
    then have "x = y" by simp
    then show ?thesis using Cons lt by simp
  next
    case False
    have "?a < ?b"
    proof (rule ccontr)
      assume "\<not> ?a < ?b"
      with False have "Suc ?b \<le> ?a" by simp
      then have "Suc ?b * 10 ^ length ys \<le> ?a * 10 ^ length ys" by (rule mult_le_mono1)
      moreover have "read_nat 0 ys < 10 ^ length ys" using Cons.prems(2) by (intro read_nat_bound) simp
      ultimately show False using lt by simp
    qed
    then have "(of_char x :: nat) < of_char y" using d by linarith
    then show ?thesis by (simp add: less_char_def)
  qed
qed simp

definition indexable :: "i64 \<Rightarrow> bool" where
  "indexable h \<longleftrightarrow> 0 \<le> sint h \<and> sint h < 10 ^ 10"

lemma length_show_nat: "n < 10 ^ Suc k \<Longrightarrow> length (show_nat n) \<le> Suc k"
proof (induction k arbitrary: n)
  case 0
  then show ?case by (subst show_nat.simps) simp
next
  case (Suc k)
  have "n div 10 < 10 ^ Suc k" using Suc.prems by (simp add: less_mult_imp_div_less mult.commute)
  then show ?case using Suc.IH [of "n div 10"] by (subst show_nat.simps) simp
qed

lemma pad10_digits:
  assumes "indexable h"
  shows "length (pad10 h) = 10" "\<forall>c\<in>set (pad10 h). is_digit c" "read_nat 0 (pad10 h) = nat (sint h)"
proof -
  let ?d = "show_nat (nat (sint h))"
  have p: "pad10 h = replicate (10 - length ?d) CHR ''0'' @ ?d"
    using assms by (simp add: pad10_def indexable_def Let_def)
  have "length ?d \<le> Suc 9" by (rule length_show_nat) (use assms in \<open>simp add: indexable_def nat_less_iff\<close>)
  then show "length (pad10 h) = 10" using p by simp
  have z: "is_digit CHR ''0''" by (simp add: is_digit_def)
  then show "\<forall>c\<in>set (pad10 h). is_digit c" using p by (auto dest: show_nat_digits)
  have "read_nat 0 (replicate n CHR ''0'' @ xs) = read_nat 0 xs" for n xs by (induction n) simp_all
  then show "read_nat 0 (pad10 h) = nat (sint h)" using p by (simp add: read_show_nat)
qed

lemma prefix_order: "length xs = length ys \<Longrightarrow> xs @ a < ys @ b \<Longrightarrow> xs \<le> ys" for xs ys :: string
  by (induction xs ys rule: list_induct2) auto

lemma idx_key_order:
  assumes "indexable h" "indexable i" "idx_key h s < idx_key i t"
  shows "sint h \<le> sint i"
proof (rule ccontr)
  assume "\<not> sint h \<le> sint i"
  then have "read_nat 0 (pad10 i) < read_nat 0 (pad10 h)"
    using assms(1,2) by (simp add: pad10_digits(3) indexable_def)
  then have "pad10 i < pad10 h" using pad10_digits assms(1,2) by (intro digits_less) simp_all
  moreover have "pad10 h \<le> pad10 i"
    using assms(3) pad10_digits(1) assms(1,2) by (intro prefix_order [of _ _ "'':'' @ s" "'':'' @ t"]) (simp_all add: idx_key_def)
  ultimately show False by simp
qed

text \<open>What a database holds that was filled by saving transactions with distinct hashes.\<close>

fun save_all ::
    "'d leveldb \<Rightarrow> state_codec \<Rightarrow> transaction list \<Rightarrow> 'd ldb_keeper \<Rightarrow> (ldb_error, unit) res \<times> 'd ldb_keeper" where
  "save_all L codec [] k = (Ok (), k)"
| "save_all L codec (tx # ts) k =
     (case save_transaction L codec tx k of (Ok _, k') \<Rightarrow> save_all L codec ts k' | (e, k') \<Rightarrow> (e, k'))"

definition holds_txs :: "'d leveldb \<Rightarrow> state_codec \<Rightarrow> transaction set \<Rightarrow> 'd \<Rightarrow> bool" where
  "holds_txs L codec T d \<longleftrightarrow> inj_on tx_hash T
     \<and> (\<forall>tx\<in>T. ldb_get L d (tx_key (tx_hash tx)) = Some (enc_transaction codec tx))
     \<and> {(k, v). ldb_get L d k = Some v \<and> take 6 k = ''txidx:''}
       = (\<lambda>tx. (idx_key (tx_height tx) (tx_hash tx), bytes_of (tx_hash tx))) ` T"

lemma idx_key_inject: "indexable h \<Longrightarrow> indexable i \<Longrightarrow> idx_key h s = idx_key i t \<longleftrightarrow> pad10 h = pad10 i \<and> s = t"
  using pad10_digits(1) [of h] pad10_digits(1) [of i] by (auto simp: idx_key_def)

lemma holds_txs_save:
  assumes "leveldb_laws L" "save_transaction L codec tx k = (Ok (), k')" "holds_txs L codec T (ldb_db k)"
    "tx_hash tx \<notin> tx_hash ` T" "\<forall>t\<in>insert tx T. indexable (tx_height t)"
  shows "holds_txs L codec (insert tx T) (ldb_db k')"
proof -
  let ?e = "\<lambda>tx. (idx_key (tx_height tx) (tx_hash tx), bytes_of (tx_hash tx))"
  note g = save_transaction_get(1) [OF assms(1,2)]
  have "inj_on tx_hash (insert tx T)" using assms(3,4) by (auto simp: holds_txs_def)
  moreover have "\<forall>t\<in>insert tx T. ldb_get L (ldb_db k') (tx_key (tx_hash t)) = Some (enc_transaction codec t)"
  proof
    fix t
    assume "t \<in> insert tx T"
    then consider "t = tx" | "t \<in> T" "tx_hash t \<noteq> tx_hash tx" using assms(4) by (metis imageI insertE)
    then show "ldb_get L (ldb_db k') (tx_key (tx_hash t)) = Some (enc_transaction codec t)"
      by cases (use assms(3) in \<open>auto simp: g holds_txs_def\<close>)
  qed
  moreover have "{(q, v). ldb_get L (ldb_db k') q = Some v \<and> take 6 q = ''txidx:''} = ?e ` insert tx T"
  proof -
    let ?key = "idx_key (tx_height tx) (tx_hash tx)"
    have old: "?key \<notin> fst ` ?e ` T" using assms(4,5) by (auto simp: idx_key_inject)
    have before: "{(q, v). ldb_get L (ldb_db k) q = Some v \<and> take 6 q = ''txidx:''} = ?e ` T"
      using assms(3) by (simp only: holds_txs_def)
    have gq: "ldb_get L (ldb_db k') q = (if q = ?key then Some (bytes_of (tx_hash tx)) else ldb_get L (ldb_db k) q)"
      if "take 6 q = ''txidx:''" for q
    proof -
      have t: "q \<noteq> tx_key h" for h by (rule notI) (use that in simp)
      have a: "q \<noteq> addr_key b i j" for b i j by (rule notI) (use that in simp)
      show ?thesis unfolding g using t a by simp
    qed
    have "ldb_get L (ldb_db k') q = Some v \<and> take 6 q = ''txidx:'' \<longleftrightarrow> (q, v) \<in> ?e ` insert tx T" for q v
    proof (cases "q = ?key")
      case True
      have "(q, v) \<notin> ?e ` T"
      proof
        assume "(q, v) \<in> ?e ` T"
        then have "fst (q, v) \<in> fst ` ?e ` T" by (rule imageI)
        then show False using True old by simp
      qed
      then show ?thesis using True gq [of q] by auto
    next
      case False
      then have "ldb_get L (ldb_db k') q = Some v \<and> take 6 q = ''txidx:'' \<longleftrightarrow> (q, v) \<in> ?e ` T"
        using gq [of q] unfolding before [symmetric] by auto
      then show ?thesis using False by auto
    qed
    then show ?thesis by blast
  qed
  ultimately show ?thesis by (simp add: holds_txs_def)
qed

lemma holds_txs_save_all:
  assumes "leveldb_laws L" "save_all L codec ts k = (Ok (), k')" "holds_txs L codec T (ldb_db k)"
    "distinct (map tx_hash ts)" "tx_hash ` set ts \<inter> tx_hash ` T = {}" "\<forall>t\<in>set ts \<union> T. indexable (tx_height t)"
  shows "holds_txs L codec (set ts \<union> T) (ldb_db k') \<and> ldb_mu k' = ldb_mu k"
  using assms(2-)
proof (induction ts arbitrary: k T)
  case (Cons tx ts)
  then obtain k1 where k1: "save_transaction L codec tx k = (Ok (), k1)" "save_all L codec ts k1 = (Ok (), k')"
    by (auto split: prod.splits res.splits)
  have "holds_txs L codec (insert tx T) (ldb_db k1)"
    using Cons.prems by (intro holds_txs_save [OF assms(1) k1(1)]) auto
  moreover have "tx_hash ` set ts \<inter> tx_hash ` insert tx T = {}" using Cons.prems by auto
  ultimately have "holds_txs L codec (set ts \<union> insert tx T) (ldb_db k') \<and> ldb_mu k' = ldb_mu k1"
    using Cons.prems by (intro Cons.IH [OF k1(2)]) auto
  then show ?case using save_transaction_get(2) [OF assms(1) k1(1)] by simp
qed simp

lemma walk_back_all:
  assumes "\<forall>(key, v)\<in>set kvs. \<exists>tx. get_transaction L codec (string_of v) k = Ok tx" "0 \<le> limit - cnt"
  shows "walk_back L codec k limit cnt kvs
    = take (nat (limit - cnt)) (map (\<lambda>(key, v). case get_transaction L codec (string_of v) k of Ok tx \<Rightarrow> tx) kvs)"
  using assms
proof (induction kvs arbitrary: cnt)
  case (Cons kv kvs)
  obtain key v where kv: "kv = (key, v)" by (cases kv)
  show ?case
  proof (cases "cnt < limit")
    case True
    then have "nat (limit - cnt) = Suc (nat (limit - (cnt + 1)))" by simp
    with Cons kv True show ?thesis by auto
  next
    case False
    with Cons kv show ?thesis by simp
  qed
qed simp


section \<open>A database in memory\<close>

definition mem_db :: "(string \<times> bytes) list leveldb" where
  "mem_db = \<lparr>ldb_get = map_of, ldb_put = (\<lambda>d k v. Some ((k, v) # d)),
     ldb_range = (\<lambda>d p. map (\<lambda>k. (k, the (map_of d k)))
       (sorted_list_of_set {k \<in> set (map fst d). take (length p) k = p}))\<rparr>"

lemma mem_db_laws: "leveldb_laws mem_db"
proof -
  have "set (ldb_range mem_db d p) = {(k, v). ldb_get mem_db d k = Some v \<and> take (length p) k = p}" for d p
  proof -
    have "(k, v) \<in> set (ldb_range mem_db d p) \<longleftrightarrow> map_of d k = Some v \<and> take (length p) k = p" for k v
      using map_of_eq_None_iff [of d k] by (cases "map_of d k") (auto simp: mem_db_def)
    then show ?thesis by (auto simp: mem_db_def)
  qed
  then show ?thesis by (simp add: leveldb_laws_def) (simp add: mem_db_def comp_def)
qed

definition demo_tx_at :: "i64 \<Rightarrow> transaction" where
  "demo_tx_at h = \<lparr>tx_hash = show_i64 h, tx_from = ''a'', tx_to = ''b'', tx_amount = 1, tx_fee = 1, tx_nonce = 1,
     tx_height = h, tx_timestamp = '''', tx_status = ''confirmed'', tx_signature = ''''\<rparr>"

definition demo_state_codec :: state_codec where
  "demo_state_codec = \<lparr>enc_account = (\<lambda>acc. be_bytes 8 (acc_balance acc)),
     dec_account = (\<lambda>d. Some \<lparr>acc_address = ''a'', acc_balance = be_word d, acc_nonce = 0, acc_public_key = ''''\<rparr>),
     enc_transaction = (\<lambda>tx. [ucast (tx_height tx)]), dec_transaction = (\<lambda>d. Some (demo_tx_at (ucast (hd d))))\<rparr>"

section \<open>Properties\<close>

text \<open>
  \<open>TransferLDB\<close> never returns: it holds the write lock when it asks for the sender's account, and
  \<open>GetAccount\<close> waits for the read lock of the same mutex. This holds for every database, every
  sender and every state of the lock.
\<close>
theorem transfer_ldb_never_returns: "transfer_ldb L codec from to amount fee height now k = None"
  by (cases "ldb_mu k") (simp_all add: transfer_ldb_def get_account_def)

text \<open>
  C31: The cached store refines a map from addresses to accounts. With the lock free and a coherent
  cache, \<open>GetAccount\<close> returns the map's entry and changes nothing of the map, \<open>SetAccount\<close> updates
  the map at the account's address exactly when it succeeds and otherwise leaves it, both keep the
  cache coherent and the lock free, and opening the database anew, with an empty cache, gives the
  same map.
\<close>
theorem account_store_refines_map:
  assumes "leveldb_laws L" "dec_account codec (enc_account codec acc) = Some acc"
    and "cache_coherent L codec k" "ldb_mu k = Free"
    and "get_account L codec a k = got" "set_account L codec acc k = (r, k2)"
  shows "(\<exists>k1. got = Some (account_store L codec k a, k1) \<and> account_store L codec k1 = account_store L codec k
        \<and> cache_coherent L codec k1 \<and> ldb_mu k1 = Free)
    \<and> account_store L codec k2
        = (if r = Ok () then (account_store L codec k)(acc_address acc \<mapsto> acc) else account_store L codec k)
    \<and> cache_coherent L codec k2 \<and> ldb_mu k2 = Free
    \<and> account_store L codec (reopened k2) = account_store L codec k2"
proof -
  have "\<exists>k1. got = Some (account_store L codec k a, k1) \<and> account_store L codec k1 = account_store L codec k
        \<and> cache_coherent L codec k1 \<and> ldb_mu k1 = Free"
    using get_account_store [OF assms(4,3), of a] assms(5) by auto
  moreover note s = set_account_store [OF assms(1,2,3,6)]
  moreover have "account_store L codec (reopened k2) = account_store L codec k2"
    using s by (intro store_reopened) simp
  ultimately show ?thesis using assms(4) by simp
qed

theorem account_store_refines_map_witness:
  "let acc = \<lparr>acc_address = ''a'', acc_balance = 7, acc_nonce = 0, acc_public_key = ''''\<rparr>;
       k = \<lparr>ldb_mu = Free, ldb_db = [], ldb_cache = Map.empty\<rparr>;
       k2 = snd (set_account mem_db demo_state_codec acc k)
   in account_store mem_db demo_state_codec k2 ''a'' = Some acc
     \<and> account_store mem_db demo_state_codec (reopened k2) ''a'' = Some acc"
proof -
  let ?acc = "\<lparr>acc_address = ''a'', acc_balance = 7, acc_nonce = 0, acc_public_key = ''''\<rparr>"
  let ?k = "\<lparr>ldb_mu = Free, ldb_db = [] :: (string \<times> bytes) list, ldb_cache = Map.empty\<rparr>"
  have "be_word (be_bytes 8 (7 :: 64 word)) = (7 :: 64 word)"
    by code_simp
  then have c: "dec_account demo_state_codec (enc_account demo_state_codec ?acc) = Some ?acc"
    by (simp add: demo_state_codec_def)
  have "cache_coherent mem_db demo_state_codec ?k" by (simp add: cache_coherent_def)
  from account_store_refines_map [OF mem_db_laws c this _ refl surjective_pairing]
  have "account_store mem_db demo_state_codec (snd (set_account mem_db demo_state_codec ?acc ?k))
      = (account_store mem_db demo_state_codec ?k)(''a'' \<mapsto> ?acc)"
    "account_store mem_db demo_state_codec (reopened (snd (set_account mem_db demo_state_codec ?acc ?k)))
      = account_store mem_db demo_state_codec (snd (set_account mem_db demo_state_codec ?acc ?k))"
    by (simp_all add: set_account_def mem_db_def)
  then show ?thesis by (simp add: Let_def)
qed

text \<open>
  C32: The index by height gives the newest transactions first. After transactions with distinct hashes
  and heights between 0 and \<open>10^10 - 1\<close> have been saved to an empty database, a free lock and a
  non-negative limit, \<open>GetRecentTransactions\<close> returns at most limit of them, all of them if there
  are no more, as they were saved and by descending height, although the index orders texts; none that
  it leaves out is higher than one it returns.
\<close>
theorem recent_transactions_newest_first:
  assumes "leveldb_laws L" "\<forall>tx\<in>set ts. dec_transaction codec (enc_transaction codec tx) = Some tx"
    and "ldb_mu k = Free" "ldb_get L (ldb_db k) = Map.empty" "save_all L codec ts k = (Ok (), k')"
    and "distinct (map tx_hash ts)" "\<forall>t\<in>set ts. indexable (tx_height t)" "0 \<le> limit"
  shows "\<exists>rs. get_recent_transactions L codec limit k' = Some (rs, k')
    \<and> sorted_wrt (\<lambda>s t. sint (tx_height t) \<le> sint (tx_height s)) rs
    \<and> set rs \<subseteq> set ts \<and> length rs = min (nat limit) (length ts) \<and> distinct rs
    \<and> (\<forall>s\<in>set rs. \<forall>t\<in>set ts - set rs. sint (tx_height t) \<le> sint (tx_height s))"
proof -
  have "holds_txs L codec {} (ldb_db k)" using assms(4) by (simp add: holds_txs_def)
  from holds_txs_save_all [OF assms(1,5) this assms(6)] assms(7)
  have h: "holds_txs L codec (set ts) (ldb_db k')" "ldb_mu k' = Free" using assms(3) by simp_all
  let ?e = "\<lambda>tx. (idx_key (tx_height tx) (tx_hash tx), bytes_of (tx_hash tx))"
  let ?kvs = "ldb_range L (ldb_db k') ''txidx:''"
  define get where "get = (\<lambda>(key :: string, v). case get_transaction L codec (string_of v) k' of Ok tx \<Rightarrow> tx)"
  have "set ?kvs = {(q, v). ldb_get L (ldb_db k') q = Some v \<and> take (length ''txidx:'') q = ''txidx:''}"
    using assms(1) by (simp only: leveldb_laws_def)
  moreover have "length ''txidx:'' = 6" by simp
  ultimately have kvs: "set ?kvs = ?e ` set ts" using h(1) by (simp only: holds_txs_def)
  have order: "sorted_wrt (<) (map fst ?kvs)" using assms(1) by (simp only: leveldb_laws_def)
  have found: "get_transaction L codec (tx_hash tx) k' = Ok tx" if "tx \<in> set ts" for tx
    using h(1) that assms(2) by (simp add: holds_txs_def get_transaction_def)
  then have ge: "get (?e tx) = tx" if "tx \<in> set ts" for tx using that by (simp add: get_def)
  have "walk_back L codec k' limit 0 (rev ?kvs) = take (nat (limit - 0)) (map get (rev ?kvs))"
    unfolding get_def by (rule walk_back_all) (use kvs found assms(8) in auto)
  then have rs: "get_recent_transactions L codec limit k' = Some (take (nat limit) (rev (map get ?kvs)), k')"
    using h(2) by (simp add: get_recent_transactions_def transactions_under_def rev_map)
  have inj: "inj_on get (set ?kvs)" unfolding kvs by (rule inj_onI) (auto simp: ge)
  have dk: "distinct ?kvs" using order by (metis distinct_map strict_sorted_iff)
  have dm: "distinct (map get ?kvs)" using inj dk by (simp add: distinct_map)
  have sm: "set (map get ?kvs) = set ts" using kvs ge by (auto simp: image_image)
  have "sorted_wrt (\<lambda>x y. fst x < fst y) ?kvs" using order by (simp add: sorted_wrt_map)
  then have "sorted_wrt (\<lambda>x y. sint (tx_height (get x)) \<le> sint (tx_height (get y))) ?kvs"
  proof (rule sorted_wrt_mono_rel [rotated])
    fix x y
    assume "x \<in> set ?kvs" "y \<in> set ?kvs" "fst x < fst y"
    then obtain s t where st: "s \<in> set ts" "t \<in> set ts" "x = ?e s" "y = ?e t" unfolding kvs by auto
    then have "sint (tx_height s) \<le> sint (tx_height t)"
      using \<open>fst x < fst y\<close> assms(7) by (intro idx_key_order) auto
    then show "sint (tx_height (get x)) \<le> sint (tx_height (get y))" using st ge by simp
  qed
  then have desc: "sorted_wrt (\<lambda>s t. sint (tx_height t) \<le> sint (tx_height s)) (rev (map get ?kvs))"
    by (simp add: sorted_wrt_rev sorted_wrt_map)
  let ?taken = "take (nat limit) (rev (map get ?kvs))" and ?left = "drop (nat limit) (rev (map get ?kvs))"
  have split: "set ts = set ?taken \<union> set ?left"
    using sm by (metis append_take_drop_id set_append set_rev)
  have "sorted_wrt (\<lambda>s t. sint (tx_height t) \<le> sint (tx_height s)) (?taken @ ?left)" using desc by simp
  then have "\<forall>s\<in>set ?taken. \<forall>t\<in>set ?left. sint (tx_height t) \<le> sint (tx_height s)"
    unfolding sorted_wrt_append by blast
  then have newest: "\<forall>s\<in>set ?taken. \<forall>t\<in>set ts - set ?taken. sint (tx_height t) \<le> sint (tx_height s)"
    unfolding split by blast
  from desc have "sorted_wrt (\<lambda>s t. sint (tx_height t) \<le> sint (tx_height s)) (take (nat limit) (rev (map get ?kvs)))"
    by (rule sorted_wrt_take)
  moreover have "set (take (nat limit) (rev (map get ?kvs))) \<subseteq> set ts"
    using set_take_subset [of "nat limit" "rev (map get ?kvs)"] sm by simp
  moreover have "length (map get ?kvs) = length ts"
    using distinct_card [OF dm] distinct_card [of ts] assms(6) sm by (simp add: distinct_map)
  moreover have "length ?taken = min (nat limit) (length ts)"
    using \<open>length (map get ?kvs) = length ts\<close> by simp
  moreover have "distinct ?taken" using dm by simp
  ultimately show ?thesis using rs newest by blast
qed

theorem recent_transactions_newest_first_witness:
  "\<exists>k' rs. save_all mem_db demo_state_codec [demo_tx_at 9, demo_tx_at 10] \<lparr>ldb_mu = Free, ldb_db = [], ldb_cache = Map.empty\<rparr> = (Ok (), k')
     \<and> get_recent_transactions mem_db demo_state_codec 5 k' = Some (rs, k') \<and> length rs = 2
     \<and> sorted_wrt (\<lambda>s t. sint (tx_height t) \<le> sint (tx_height s)) rs"
proof -
  let ?k = "\<lparr>ldb_mu = Free, ldb_db = [] :: (string \<times> bytes) list, ldb_cache = Map.empty\<rparr>"
  let ?ts = "[demo_tx_at 9, demo_tx_at 10]"
  have p: "\<exists>d. put_all mem_db kvs e = (Ok (), d)" for kvs e
    by (induction kvs arbitrary: e) (auto simp: mem_db_def)
  have "\<exists>k'. save_transaction mem_db demo_state_codec tx k = (Ok (), k')" for tx k
    using p [of "tx_entries demo_state_codec tx" "ldb_db k"] by (auto simp: save_transaction_def)
  then obtain k1 k' where "save_transaction mem_db demo_state_codec (demo_tx_at 9) ?k = (Ok (), k1)"
    "save_transaction mem_db demo_state_codec (demo_tx_at 10) k1 = (Ok (), k')" by metis
  then have s: "save_all mem_db demo_state_codec ?ts ?k = (Ok (), k')" by simp
  have "show_i64 9 \<noteq> show_i64 10" by simp
  then have d: "distinct (map tx_hash ?ts)" by (simp add: demo_tx_at_def)
  have "\<forall>tx\<in>set ?ts. dec_transaction demo_state_codec (enc_transaction demo_state_codec tx) = Some tx"
    by (simp add: demo_state_codec_def demo_tx_at_def)
  from recent_transactions_newest_first [OF mem_db_laws this _ _ s d, of 5] s show ?thesis
    by (fastforce simp: mem_db_def indexable_def demo_tx_at_def)
qed

end
