(* ===== verification/Nuvex_Sha512.thy ===== *)
theory Nuvex_Sha512
  imports Nuvex_Sha256
begin

text \<open>
  SHA-512 (\<open>crypto/sha512\<close>) and HMAC (\<open>crypto/hmac\<close>) with it, as the wallet's nonce generator uses
  them. The message schedule, the rounds and the padding are those of SHA-256 with 64-bit words, 80
  rounds and blocks of 128 bytes. The proofs use only the lengths of the results.
\<close>

unbundle bit_operations_syntax

section \<open>SHA-512\<close>

text \<open>The round constants and the initial state of FIPS 180-4, in decimal.\<close>

definition sha512_k :: "64 word list" where
  "sha512_k =
    [4794697086780616226, 8158064640168781261, 13096744586834688815, 16840607885511220156,
     4131703408338449720, 6480981068601479193, 10538285296894168987, 12329834152419229976,
     15566598209576043074, 1334009975649890238, 2608012711638119052, 6128411473006802146,
     8268148722764581231, 9286055187155687089, 11230858885718282805, 13951009754708518548,
     16472876342353939154, 17275323862435702243, 1135362057144423861, 2597628984639134821,
     3308224258029322869, 5365058923640841347, 6679025012923562964, 8573033837759648693,
     10970295158949994411, 12119686244451234320, 12683024718118986047, 13788192230050041572,
     14330467153632333762, 15395433587784984357, 489312712824947311, 1452737877330783856,
     2861767655752347644, 3322285676063803686, 5560940570517711597, 5996557281743188959,
     7280758554555802590, 8532644243296465576, 9350256976987008742, 10552545826968843579,
     11727347734174303076, 12113106623233404929, 14000437183269869457, 14369950271660146224,
     15101387698204529176, 15463397548674623760, 17586052441742319658, 1182934255886127544,
     1847814050463011016, 2177327727835720531, 2830643537854262169, 3796741975233480872,
     4115178125766777443, 5681478168544905931, 6601373596472566643, 7507060721942968483,
     8399075790359081724, 8693463985226723168, 9568029438360202098, 10144078919501101548,
     10430055236837252648, 11840083180663258601, 13761210420658862357, 14299343276471374635,
     14566680578165727644, 15097957966210449927, 16922976911328602910, 17689382322260857208,
     500013540394364858, 748580250866718886, 1242879168328830382, 1977374033974150939,
     2944078676154940804, 3659926193048069267, 4368137639120453308, 4836135668995329356,
     5532061633213252278, 6448918945643986474, 6902733635092675308, 7801388544844847127]"

type_synonym sha512_state =
  "64 word \<times> 64 word \<times> 64 word \<times> 64 word \<times> 64 word \<times> 64 word \<times> 64 word \<times> 64 word"

definition sha512_init :: sha512_state where
  "sha512_init = (7640891576956012808, 13503953896175478587, 4354685564936845355, 11912009170470909681,
     5840696475078001361, 11170449401992604703, 2270897969802886507, 6620516959819538809)"

text \<open>The four sigma functions: two rotations and a shift, or three rotations.\<close>

definition sigma_shift :: "nat \<Rightarrow> nat \<Rightarrow> nat \<Rightarrow> 64 word \<Rightarrow> 64 word" where
  "sigma_shift r1 r2 s x = word_rotr r1 x XOR word_rotr r2 x XOR drop_bit s x"

definition sigma_rotate :: "nat \<Rightarrow> nat \<Rightarrow> nat \<Rightarrow> 64 word \<Rightarrow> 64 word" where
  "sigma_rotate r1 r2 r3 x = word_rotr r1 x XOR word_rotr r2 x XOR word_rotr r3 x"

fun sha512_extend :: "nat \<Rightarrow> 64 word list \<Rightarrow> 64 word list" where
  "sha512_extend 0 ws = ws"
| "sha512_extend (Suc n) ws =
     sha512_extend n ((sigma_shift 19 61 6 (ws ! 1) + ws ! 6 + sigma_shift 1 8 7 (ws ! 14) + ws ! 15) # ws)"

fun sha512_round :: "64 word \<times> 64 word \<Rightarrow> sha512_state \<Rightarrow> sha512_state" where
  "sha512_round (k, w) (a, b, c, d, e, f, g, h) =
     (let t1 = h + sigma_rotate 14 18 41 e + ((e AND f) XOR (NOT e AND g)) + k + w;
          t2 = sigma_rotate 28 34 39 a + ((a AND b) XOR (a AND c) XOR (b AND c))
      in (t1 + t2, a, b, c, d + t1, e, f, g))"

fun sha512_add :: "sha512_state \<Rightarrow> sha512_state \<Rightarrow> sha512_state" where
  "sha512_add (a, b, c, d, e, f, g, h) (a', b', c', d', e', f', g', h') =
     (a + a', b + b', c + c', d + d', e + e', f + f', g + g', h + h')"

fun be_words64 :: "bytes \<Rightarrow> 64 word list" where
  "be_words64 (a # b # c # d # e # f # g # h # bs) = be_word [a, b, c, d, e, f, g, h] # be_words64 bs"
| "be_words64 _ = []"

definition sha512_block :: "sha512_state \<Rightarrow> bytes \<Rightarrow> sha512_state" where
  "sha512_block s blk =
     (let ws = rev (sha512_extend 64 (rev (be_words64 blk)))
      in sha512_add s (foldl (\<lambda>t kw. sha512_round kw t) s (zip sha512_k ws)))"

definition sha512_pad :: "bytes \<Rightarrow> bytes" where
  "sha512_pad m =
     m @ [0x80] @ replicate (nat ((111 - int (length m)) mod 128)) 0
       @ replicate 8 0 @ be_bytes 8 (word_of_nat (8 * length m) :: 64 word)"

function sha512_blocks :: "sha512_state \<Rightarrow> bytes \<Rightarrow> sha512_state" where
  "sha512_blocks s bs =
     (if length bs < 128 then s else sha512_blocks (sha512_block s (take 128 bs)) (drop 128 bs))"
  by pat_completeness auto
termination
  by (relation "measure (\<lambda>(s, bs). length bs)") auto

declare sha512_blocks.simps [simp del]

fun sha512_digest :: "sha512_state \<Rightarrow> bytes" where
  "sha512_digest (a, b, c, d, e, f, g, h) = concat (map (be_bytes 8) [a, b, c, d, e, f, g, h])"

definition sha512 :: "bytes \<Rightarrow> bytes" where
  "sha512 m = sha512_digest (sha512_blocks sha512_init (sha512_pad m))"

lemma length_sha512 [simp]: "length (sha512 m) = 64"
  by (cases "sha512_blocks sha512_init (sha512_pad m)" rule: sha512_digest.cases) (simp add: sha512_def)

section \<open>HMAC\<close>

text \<open>A key longer than a block is hashed first; the key is padded with zeros to a block.\<close>

definition hmac_block :: "bytes \<Rightarrow> bytes" where
  "hmac_block key =
     (let k = (if length key > 128 then sha512 key else key) in k @ replicate (128 - length k) 0)"

definition hmac_sha512 :: "bytes \<Rightarrow> bytes \<Rightarrow> bytes" where
  "hmac_sha512 key m =
     (let k = hmac_block key
      in sha512 (map (\<lambda>b. b XOR 0x5c) k @ sha512 (map (\<lambda>b. b XOR 0x36) k @ m)))"

lemma length_hmac_sha512 [simp]: "length (hmac_sha512 key m) = 64"
  by (simp add: hmac_sha512_def Let_def)

end
