(* ===== verification/Nuvex_Crypto.thy ===== *)
theory Nuvex_Crypto
  imports Nuvex_Sha512 Nuvex_Signature
begin

text \<open>
  The wallet's own cryptography (\<open>x/nvx/keeper/crypto.go\<close>): arithmetic on secp256k1 with big integers,
  keys, ECDSA signatures with a derived nonce, and the text a wallet signs. A \<open>big.Int\<close> is an integer
  and \<open>Mod\<close> is the Euclidean remainder. \<open>ModInverse\<close> gives nil when there is no inverse; the next
  operation on the nil pointer panics. Randomness is an argument.
\<close>

section \<open>The curve\<close>

definition secp_p :: int where
  "secp_p = 0xFFFFFFFFFFFFFFFFFFFFFFFFFFFFFFFFFFFFFFFFFFFFFFFFFFFFFFFEFFFFFC2F"

definition secp_n :: int where
  "secp_n = 0xFFFFFFFFFFFFFFFFFFFFFFFFFFFFFFFEBAAEDCE6AF48A03BBFD25E8CD0364141"

definition secp_gx :: int where
  "secp_gx = 0x79BE667EF9DCBBAC55A06295CE870B07029BFCDB2DCE28D959F2815B16F81798"

definition secp_gy :: int where
  "secp_gy = 0x483ADA7726A3C4655DA4FBFC0E1108A8FD17B448A68554199C47D08FFB10D4B8"

text \<open>A point whose coordinates are both nil is the point at infinity.\<close>

datatype point = Infinity | Pt int int

definition base_point :: point where
  "base_point = Pt secp_gx secp_gy"

text \<open>\<open>big.Int.ModInverse\<close>, by the extended Euclidean algorithm.\<close>

definition mod_inverse :: "int \<Rightarrow> int \<Rightarrow> int option" where
  "mod_inverse a m =
     (let g = nat (a mod m) in if gcd g (nat m) = 1 then Some (fst (bezw g (nat m)) mod m) else None)"

definition point_double :: "point \<Rightarrow> (unit, point) res" where
  "point_double p =
     (case p of
        Infinity \<Rightarrow> Ok p
      | Pt x y \<Rightarrow>
          let x2 = (x * x) mod secp_p; num = 3 * x2; den = 2 * y in
          (case mod_inverse den secp_p of
             None \<Rightarrow> Panic
           | Some iv \<Rightarrow>
               let slope = (num * iv) mod secp_p;
                   x3 = (slope * slope - 2 * x) mod secp_p;
                   y3 = (slope * (x - x3) - y) mod secp_p
               in Ok (Pt x3 y3)))"

definition point_add :: "point \<Rightarrow> point \<Rightarrow> (unit, point) res" where
  "point_add p1 p2 =
     (case (p1, p2) of
        (Infinity, _) \<Rightarrow> Ok p2
      | (_, Infinity) \<Rightarrow> Ok p1
      | (Pt x1 y1, Pt x2 y2) \<Rightarrow>
          if x1 = x2 then (if y1 \<noteq> y2 then Ok Infinity else point_double p1)
          else
            let dy = y2 - y1; dx = x2 - x1 in
            (case mod_inverse dx secp_p of
               None \<Rightarrow> Panic
             | Some iv \<Rightarrow>
                 let slope = (dy * iv) mod secp_p;
                     x3 = (slope * slope - x1 - x2) mod secp_p;
                     y3 = (slope * (x1 - x3) - y1) mod secp_p
                 in Ok (Pt x3 y3)))"

text \<open>The loop of \<open>scalarMult\<close> over the bits of the scalar, lowest first.\<close>

function scalar_loop :: "nat \<Rightarrow> point \<Rightarrow> point \<Rightarrow> (unit, point) res" where
  "scalar_loop k result addend =
     (if k = 0 then Ok result
      else
        (case (if odd k then point_add result addend else Ok result) of
           Ok result' \<Rightarrow>
             (case point_double addend of
                Ok addend' \<Rightarrow> scalar_loop (k div 2) result' addend'
              | _ \<Rightarrow> Panic)
         | _ \<Rightarrow> Panic))"
  by pat_completeness auto
termination
  by (relation "measure (\<lambda>(k, r, a). k)") auto

declare scalar_loop.simps [simp del]

definition scalar_mult :: "int \<Rightarrow> point \<Rightarrow> (unit, point) res" where
  "scalar_mult k p = scalar_loop (nat \<bar>k\<bar>) Infinity p"

section \<open>Keys\<close>

definition public_key :: "bytes \<Rightarrow> (unit, point) res" where
  "public_key d = scalar_mult (big_of_bytes d) base_point"

text \<open>The argument is what \<open>rand.Read\<close> delivers, if it does.\<close>

definition generate_key_pair :: "bytes option \<Rightarrow> (unit, bytes \<times> point) res" where
  "generate_key_pair random =
     (case random of
        None \<Rightarrow> Err ()
      | Some d \<Rightarrow> (case public_key d of Ok q \<Rightarrow> Ok (d, q) | _ \<Rightarrow> Panic))"

definition private_to_hex :: "bytes \<Rightarrow> string" where
  "private_to_hex d = hex_encode d"

text \<open>\<open>big.Int.Bytes\<close>, and the copy into the end of 32 zero bytes, whose slice index must not be
  negative.\<close>

fun nat_bytes :: "nat \<Rightarrow> bytes" where
  "nat_bytes n = (if n = 0 then [] else nat_bytes (n div 256) @ [word_of_nat (n mod 256)])"

declare nat_bytes.simps [simp del]

definition pad32 :: "int \<Rightarrow> bytes option" where
  "pad32 i =
     (let b = nat_bytes (nat \<bar>i\<bar>) in if 32 < length b then None else Some (replicate (32 - length b) 0 @ b))"

definition pair_bytes :: "int \<Rightarrow> int \<Rightarrow> bytes option" where
  "pair_bytes a b =
     (case (pad32 a, pad32 b) of (Some x, Some y) \<Rightarrow> Some (x @ y) | _ \<Rightarrow> None)"

definition public_to_hex :: "point \<Rightarrow> (unit, string) res" where
  "public_to_hex q =
     (case q of
        Infinity \<Rightarrow> Panic
      | Pt x y \<Rightarrow> (case pair_bytes x y of None \<Rightarrow> Panic | Some bs \<Rightarrow> Ok (hex_encode bs)))"

definition nuvex_address :: "point \<Rightarrow> (unit, string) res" where
  "nuvex_address q =
     (case public_to_hex q of
        Ok h \<Rightarrow>
          let pub = (case hex_decode h of None \<Rightarrow> [] | Some bs \<Rightarrow> bs)
          in Ok (''nuvex1'' @ hex_encode (take 19 (sha256 (sha256 pub))))
      | _ \<Rightarrow> Panic)"

section \<open>Signatures\<close>

datatype crypto_error = NonceFailed | RZero | SZero | BadSignatureFormat | ZeroSignature | OutsideGroup
  | NoPoint | Mismatch

definition generate_deterministic_k :: "bytes \<Rightarrow> bytes \<Rightarrow> (crypto_error, int) res" where
  "generate_deterministic_k priv h =
     (let v0 = replicate 32 0x01; k0 = replicate 32 0x00;
          k1 = take 32 (hmac_sha512 k0 (v0 @ [0x00] @ priv @ h));
          v1 = take 32 (hmac_sha512 k1 v0);
          k2 = take 32 (hmac_sha512 k1 (v1 @ [0x01] @ priv @ h));
          v2 = take 32 (hmac_sha512 k2 v1);
          candidate = take 32 (hmac_sha512 k2 v2);
          k = big_of_bytes candidate
      in if k = 0 \<or> k \<ge> secp_n then Err NonceFailed else Ok k)"

definition sign :: "bytes \<Rightarrow> bytes \<Rightarrow> (crypto_error, int \<times> int) res" where
  "sign priv h =
     (case generate_deterministic_k priv h of
        Err e \<Rightarrow> Err e
      | Panic \<Rightarrow> Panic
      | Ok k \<Rightarrow>
          (case scalar_mult k base_point of
             Ok (Pt x y) \<Rightarrow>
               let d = big_of_bytes priv; r = x mod secp_n in
               if r = 0 then Err RZero
               else (case mod_inverse k secp_n of
                       None \<Rightarrow> Panic
                     | Some k_inv \<Rightarrow>
                         let s = (k_inv * (big_of_bytes h + r * d)) mod secp_n
                         in if s = 0 then Err SZero else Ok (r, s))
           | _ \<Rightarrow> Panic))"

definition sign_to_hex :: "bytes \<Rightarrow> bytes \<Rightarrow> (crypto_error, string) res" where
  "sign_to_hex priv h =
     (case sign priv h of
        Err e \<Rightarrow> Err e
      | Panic \<Rightarrow> Panic
      | Ok (r, s) \<Rightarrow> (case pair_bytes r s of None \<Rightarrow> Panic | Some bs \<Rightarrow> Ok (hex_encode bs)))"

definition verify_ecdsa :: "point \<Rightarrow> bytes \<Rightarrow> string \<Rightarrow> (crypto_error, unit) res" where
  "verify_ecdsa pub h sig_hex =
     (case hex_decode sig_hex of
        None \<Rightarrow> Err BadSignatureFormat
      | Some sg \<Rightarrow>
          if length sg \<noteq> 64 then Err BadSignatureFormat
          else
            let r = big_of_bytes (take 32 sg); s = big_of_bytes (drop 32 sg) in
            if r = 0 \<or> s = 0 then Err ZeroSignature
            else if r \<ge> secp_n \<or> s \<ge> secp_n then Err OutsideGroup
            else
              (case mod_inverse s secp_n of
                 None \<Rightarrow> Panic
               | Some s_inv \<Rightarrow>
                   let u1 = (big_of_bytes h * s_inv) mod secp_n; u2 = (r * s_inv) mod secp_n in
                   (case (scalar_mult u1 base_point, scalar_mult u2 pub) of
                      (Ok p1, Ok p2) \<Rightarrow>
                        (case point_add p1 p2 of
                           Ok Infinity \<Rightarrow> Err NoPoint
                         | Ok (Pt x y) \<Rightarrow> if x mod secp_n \<noteq> r then Err Mismatch else Ok ()
                         | _ \<Rightarrow> Panic)
                    | _ \<Rightarrow> Panic)))"

text \<open>The text a wallet signs.\<close>

definition wallet_text :: "string \<Rightarrow> string \<Rightarrow> i64 \<Rightarrow> i64 \<Rightarrow> u64 \<Rightarrow> string" where
  "wallet_text from to amount fee n =
     ''nuvex-1:'' @ from @ '':'' @ to @ '':'' @ show_i64 amount @ '':'' @ show_i64 fee @ '':'' @ show_u64 n"

definition hash_transaction :: "string \<Rightarrow> string \<Rightarrow> i64 \<Rightarrow> i64 \<Rightarrow> u64 \<Rightarrow> bytes" where
  "hash_transaction from to amount fee n = sha256 (bytes_of (wallet_text from to amount fee n))"

section \<open>Modular inverses\<close>

lemma mod_inverse_Some:
  assumes "mod_inverse a m = Some i" "1 < m"
  shows "0 \<le> i" "i < m" "m dvd i * a - 1"
proof -
  let ?g = "nat (a mod m)"
  have g: "gcd ?g (nat m) = 1" and i: "i = fst (bezw ?g (nat m)) mod m"
    using assms(1) by (auto simp: mod_inverse_def Let_def split: if_splits)
  show "0 \<le> i" "i < m" using i assms(2) by simp_all
  have "1 = fst (bezw ?g (nat m)) * int ?g + snd (bezw ?g (nat m)) * m"
    using bezw_aux [of ?g "nat m"] g assms(2) by simp
  then have "fst (bezw ?g (nat m)) * (a mod m) - 1 = - snd (bezw ?g (nat m)) * m"
    using assms(2) by simp
  then have "m dvd fst (bezw ?g (nat m)) * (a mod m) - 1" by simp
  then have "(fst (bezw ?g (nat m)) * (a mod m)) mod m = 1 mod m" by (simp add: mod_eq_dvd_iff)
  then have "(i * a) mod m = 1 mod m" by (simp add: i mod_mult_left_eq mod_mult_right_eq)
  then show "m dvd i * a - 1" by (simp add: mod_eq_dvd_iff)
qed

lemma mod_inverse_None:
  assumes "1 < m"
  shows "mod_inverse a m = None \<longleftrightarrow> gcd a m \<noteq> 1"
proof -
  have "gcd (int (nat (a mod m))) (int (nat m)) = gcd a m"
    using assms by (simp add: gcd.commute [of _ m] gcd_red_int [symmetric])
  then have "gcd (nat (a mod m)) (nat m) = 1 \<longleftrightarrow> gcd a m = 1"
    by (metis gcd_int_int_eq of_nat_1 of_nat_eq_iff)
  then show ?thesis by (auto simp: mod_inverse_def Let_def)
qed

lemma secp_p_gt: "1 < secp_p" and secp_n_gt: "1 < secp_n"
  by (simp_all add: secp_p_def secp_n_def)

section \<open>The curve is closed\<close>

definition on_curve :: "point \<Rightarrow> bool" where
  "on_curve q =
     (case q of
        Infinity \<Rightarrow> True
      | Pt x y \<Rightarrow> 0 \<le> x \<and> x < secp_p \<and> 0 \<le> y \<and> y < secp_p \<and> (y * y) mod secp_p = (x * x * x + 7) mod secp_p)"

lemma on_curve_dvd:
  "on_curve (Pt x y) \<longleftrightarrow> 0 \<le> x \<and> x < secp_p \<and> 0 \<le> y \<and> y < secp_p \<and> secp_p dvd y * y - (x * x * x + 7)"
  by (simp add: on_curve_def mod_eq_dvd_iff)

text \<open>The line through a point with the given slope meets the curve in a third point.\<close>

lemma third_point:
  fixes m s x1 y1 x2 x3 y3 :: int
  assumes w: "m dvd y1 * y1 - (x1 * x1 * x1 + 7)"
    and t: "m dvd x2 * x2 + x2 * x1 + x1 * x1 - s * s * (x2 - x1) - 2 * s * y1"
    and u: "m dvd x3 - (s * s - x1 - x2)"
    and v: "m dvd y3 - (s * (x1 - x3) - y1)"
  shows "m dvd y3 * y3 - (x3 * x3 * x3 + 7)"
proof -
  let ?w = "y1 * y1 - (x1 * x1 * x1 + 7)"
  let ?t = "x2 * x2 + x2 * x1 + x1 * x1 - s * s * (x2 - x1) - 2 * s * y1"
  let ?u = "x3 - (s * s - x1 - x2)"
  let ?v = "y3 - (s * (x1 - x3) - y1)"
  have "y3 * y3 - (x3 * x3 * x3 + 7)
      = ?v * (?v - 2 * (s * (x3 - x1) + y1)) - (x3 - x1) * (?t + (x3 - x2) * ?u) + ?w"
    by (simp add: algebra_simps)
  moreover have "m dvd ?v * (?v - 2 * (s * (x3 - x1) + y1)) - (x3 - x1) * (?t + (x3 - x2) * ?u) + ?w"
    using w t u v by (meson dvd_add dvd_diff dvd_mult dvd_mult2)
  ultimately show ?thesis by (simp only:)
qed

lemma dvd_mod_diff: "(m :: int) dvd a mod m - a"
  by (metis dvd_minus_mod dvd_diff_commute)

lemma dvd_cancel_inverse:
  fixes m :: int
  assumes "m dvd i * a - 1" "m dvd a * t"
  shows "m dvd t"
proof -
  have "t = i * (a * t) - (i * a - 1) * t" by (simp add: algebra_simps)
  moreover have "m dvd i * (a * t) - (i * a - 1) * t" using assms by (meson dvd_diff dvd_mult dvd_mult2)
  ultimately show ?thesis by (simp only:)
qed

lemma point_double_on_curve:
  assumes "on_curve q" "point_double q = Ok q'"
  shows "on_curve q'"
proof (cases q)
  case Infinity
  then show ?thesis using assms by (simp add: point_double_def)
next
  case (Pt x y)
  obtain iv where iv: "mod_inverse (2 * y) secp_p = Some iv"
    using assms(2) Pt by (auto simp: point_double_def Let_def split: option.splits)
  note i = mod_inverse_Some(3) [OF iv secp_p_gt]
  define s where "s = (3 * ((x * x) mod secp_p) * iv) mod secp_p"
  define x3 where "x3 = (s * s - 2 * x) mod secp_p"
  define y3 where "y3 = (s * (x - x3) - y) mod secp_p"
  have q': "q' = Pt x3 y3"
    using assms(2) Pt iv by (simp add: point_double_def Let_def s_def x3_def y3_def)
  have c: "secp_p dvd y * y - (x * x * x + 7)" using assms(1) Pt by (simp add: on_curve_dvd)
  have "secp_p dvd s - 3 * ((x * x) mod secp_p) * iv" unfolding s_def by (rule dvd_mod_diff)
  moreover have "secp_p dvd 3 * iv * ((x * x) mod secp_p - x * x)" by (rule dvd_mult, rule dvd_mod_diff)
  moreover have "s - 3 * (x * x) * iv
      = (s - 3 * ((x * x) mod secp_p) * iv) + 3 * iv * ((x * x) mod secp_p - x * x)"
    by (simp add: algebra_simps)
  ultimately have "secp_p dvd s - 3 * (x * x) * iv" by (simp only: dvd_add)
  then have "secp_p dvd 2 * y * (s - 3 * (x * x) * iv) + 3 * (x * x) * (iv * (2 * y) - 1)"
    using i by (meson dvd_add dvd_mult)
  moreover have "x * x + x * x + x * x - s * s * (x - x) - 2 * s * y
      = - (2 * y * (s - 3 * (x * x) * iv) + 3 * (x * x) * (iv * (2 * y) - 1))"
    by (simp add: algebra_simps)
  ultimately have t: "secp_p dvd x * x + x * x + x * x - s * s * (x - x) - 2 * s * y"
    by (simp only: dvd_minus_iff)
  have u: "secp_p dvd x3 - (s * s - x - x)" using dvd_mod_diff [of secp_p "s * s - 2 * x"] by (simp add: x3_def)
  have "secp_p dvd y3 - (s * (x - x3) - y)" unfolding y3_def by (rule dvd_mod_diff)
  then have "secp_p dvd y3 * y3 - (x3 * x3 * x3 + 7)" by (rule third_point [OF c t u])
  moreover have "0 \<le> x3" "x3 < secp_p" "0 \<le> y3" "y3 < secp_p"
    using secp_p_gt unfolding x3_def y3_def by simp_all
  ultimately show ?thesis unfolding q' on_curve_dvd by blast
qed

lemma point_add_on_curve:
  assumes "on_curve p1" "on_curve p2" "point_add p1 p2 = Ok q"
  shows "on_curve q"
proof (cases "\<exists>x1 y1 x2 y2. p1 = Pt x1 y1 \<and> p2 = Pt x2 y2 \<and> x1 \<noteq> x2")
  case False
  then show ?thesis using assms point_double_on_curve [of p1 q]
    by (cases p1; cases p2) (auto simp: point_add_def on_curve_def [of Infinity] split: if_splits)
next
  case True
  then obtain x1 y1 x2 y2 where Pt: "p1 = Pt x1 y1" "p2 = Pt x2 y2" "x1 \<noteq> x2" by auto
  obtain iv where iv: "mod_inverse (x2 - x1) secp_p = Some iv"
    using assms(3) Pt by (auto simp: point_add_def Let_def split: option.splits)
  note i = mod_inverse_Some(3) [OF iv secp_p_gt]
  define s where "s = ((y2 - y1) * iv) mod secp_p"
  define x3 where "x3 = (s * s - x1 - x2) mod secp_p"
  define y3 where "y3 = (s * (x1 - x3) - y1) mod secp_p"
  have q: "q = Pt x3 y3" using assms(3) Pt iv by (simp add: point_add_def Let_def s_def x3_def y3_def)
  have w1: "secp_p dvd y1 * y1 - (x1 * x1 * x1 + 7)" and w2: "secp_p dvd y2 * y2 - (x2 * x2 * x2 + 7)"
    using assms(1,2) Pt by (simp_all add: on_curve_dvd)
  let ?t = "x2 * x2 + x2 * x1 + x1 * x1 - s * s * (x2 - x1) - 2 * s * y1"
  let ?r = "(s - (y2 - y1) * iv) * (x2 - x1) + (y2 - y1) * (iv * (x2 - x1) - 1)"
  have "secp_p dvd s - (y2 - y1) * iv" unfolding s_def by (rule dvd_mod_diff)
  with i have r: "secp_p dvd ?r" by (meson dvd_add dvd_mult dvd_mult2)
  have "(x2 - x1) * ?t
      = (y1 * y1 - (x1 * x1 * x1 + 7)) - (y2 * y2 - (x2 * x2 * x2 + 7)) - ?r * (2 * y2 + ?r)"
    by (simp add: algebra_simps)
  moreover have "secp_p dvd \<dots>" using w1 w2 r by (meson dvd_diff dvd_mult2)
  ultimately have "secp_p dvd (x2 - x1) * ?t" by (simp only:)
  with i have t: "secp_p dvd ?t" by (rule dvd_cancel_inverse)
  have u: "secp_p dvd x3 - (s * s - x1 - x2)" unfolding x3_def by (rule dvd_mod_diff)
  have "secp_p dvd y3 - (s * (x1 - x3) - y1)" unfolding y3_def by (rule dvd_mod_diff)
  then have "secp_p dvd y3 * y3 - (x3 * x3 * x3 + 7)" by (rule third_point [OF w1 t u])
  moreover have "0 \<le> x3" "x3 < secp_p" "0 \<le> y3" "y3 < secp_p"
    using secp_p_gt unfolding x3_def y3_def by simp_all
  ultimately show ?thesis unfolding q on_curve_dvd by blast
qed

lemma scalar_loop_on_curve:
  assumes "on_curve r" "on_curve a" "scalar_loop k r a = Ok q"
  shows "on_curve q"
  using assms
proof (induction k r a rule: scalar_loop.induct)
  case (1 k r a)
  show ?case
  proof (cases "k = 0")
    case True
    then show ?thesis using "1.prems" by (simp add: scalar_loop.simps)
  next
    case False
    obtain r' a' where r': "(if odd k then point_add r a else Ok r) = Ok r'" and a': "point_double a = Ok a'"
      and loop: "scalar_loop (k div 2) r' a' = Ok q"
      using "1.prems"(3) False by (simp add: scalar_loop.simps [of k] split: res.splits)
    have "on_curve r'"
    proof (cases "odd k")
      case True
      then show ?thesis using r' point_add_on_curve [OF "1.prems"(1,2)] by simp
    next
      case False
      then show ?thesis using r' "1.prems"(1) by simp
    qed
    moreover have "on_curve a'" using a' "1.prems"(2) point_double_on_curve by blast
    ultimately show ?thesis using "1.IH" [OF False r' a' _ _ loop] by blast
  qed
qed

lemma base_point_on_curve: "on_curve base_point"
proof -
  have "secp_gx * secp_gx * secp_gx + 7 - secp_gy * secp_gy = secp_p *
    1442042049659660869506300006036683750029629333882594701370927246876626245108435922902327776681700708714008192087431130951749952236093997894375239788520937"
    by (simp only: secp_gx_def secp_gy_def secp_p_def arith_simps)
  then have "secp_p dvd secp_gx * secp_gx * secp_gx + 7 - secp_gy * secp_gy" by (simp only: dvd_triv_left)
  then have "secp_p dvd secp_gy * secp_gy - (secp_gx * secp_gx * secp_gx + 7)" by (simp only: dvd_diff_commute)
  then show ?thesis
    by (simp only: base_point_def on_curve_dvd) (simp add: secp_gx_def secp_gy_def secp_p_def)
qed

section \<open>Panics of the curve arithmetic\<close>

text \<open>
  The only panic of the arithmetic is the nil result of \<open>ModInverse\<close>. On curve points it needs a
  number below \<open>p\<close> that is not invertible, or a point of order two: secp256k1 has neither.
\<close>

definition units_below :: "int \<Rightarrow> bool" where
  "units_below m \<longleftrightarrow> (\<forall>a. 0 < a \<and> a < m \<longrightarrow> gcd a m = 1)"

definition curve_facts :: bool where
  "curve_facts \<longleftrightarrow> units_below secp_p \<and> (\<forall>x. \<not> secp_p dvd x * x * x + 7)"

lemma units_below_Some:
  assumes "units_below m" "1 < m" "0 < \<bar>a\<bar>" "\<bar>a\<bar> < m"
  shows "\<exists>i. mod_inverse a m = Some i"
proof -
  have "gcd \<bar>a\<bar> m = 1" using assms(1,3,4) unfolding units_below_def by blast
  then have "gcd a m = 1" by simp
  then show ?thesis using mod_inverse_None [OF assms(2), of a] by auto
qed

lemma point_double_ok:
  assumes "curve_facts" "on_curve q"
  shows "\<exists>q'. point_double q = Ok q'"
proof (cases q)
  case Infinity
  then show ?thesis by (simp add: point_double_def)
next
  case (Pt x y)
  have y: "0 \<le> y" "y < secp_p" and eq: "secp_p dvd y * y - (x * x * x + 7)"
    using assms(2) Pt by (simp_all add: on_curve_dvd)
  have "y \<noteq> 0"
  proof
    assume "y = 0"
    then have "secp_p dvd - (x * x * x + 7)" using eq by simp
    then show False using assms(1) unfolding curve_facts_def dvd_minus_iff by blast
  qed
  then have "gcd y secp_p = 1" using y assms(1) by (simp add: curve_facts_def units_below_def)
  moreover have "gcd 2 secp_p = 1"
    using assms(1) secp_p_gt by (simp add: curve_facts_def units_below_def secp_p_def)
  ultimately have "gcd (2 * y) secp_p = 1" by (simp flip: coprime_iff_gcd_eq_1)
  then obtain iv where "mod_inverse (2 * y) secp_p = Some iv"
    using mod_inverse_None [OF secp_p_gt, of "2 * y"] by auto
  then show ?thesis using Pt by (simp add: point_double_def Let_def)
qed

lemma point_add_ok:
  assumes "curve_facts" "on_curve p1" "on_curve p2"
  shows "\<exists>q. point_add p1 p2 = Ok q"
proof (cases "\<exists>x1 y1 x2 y2. p1 = Pt x1 y1 \<and> p2 = Pt x2 y2 \<and> x1 \<noteq> x2")
  case False
  then show ?thesis using point_double_ok [OF assms(1,2)]
    by (cases p1; cases p2) (auto simp: point_add_def)
next
  case True
  then obtain x1 y1 x2 y2 where Pt: "p1 = Pt x1 y1" "p2 = Pt x2 y2" "x1 \<noteq> x2" by auto
  have "0 < \<bar>x2 - x1\<bar>" "\<bar>x2 - x1\<bar> < secp_p"
    using assms(2,3) Pt by (auto simp: on_curve_dvd)
  then obtain iv where "mod_inverse (x2 - x1) secp_p = Some iv"
    using units_below_Some [OF _ secp_p_gt, of "x2 - x1"] assms(1) unfolding curve_facts_def by blast
  then show ?thesis using Pt by (simp add: point_add_def Let_def)
qed

lemma scalar_loop_ok:
  assumes "curve_facts" "on_curve r" "on_curve a"
  shows "\<exists>q. scalar_loop k r a = Ok q"
  using assms(2,3)
proof (induction k arbitrary: r a rule: less_induct)
  case (less k)
  show ?case
  proof (cases "k = 0")
    case True
    then show ?thesis by (simp add: scalar_loop.simps)
  next
    case False
    obtain r' where r': "(if odd k then point_add r a else Ok r) = Ok r'"
      using point_add_ok [OF assms(1) less.prems] by (cases "odd k") auto
    obtain a' where a': "point_double a = Ok a'" using point_double_ok [OF assms(1) less.prems(2)] by blast
    have "on_curve r'"
      using r' point_add_on_curve [OF less.prems] less.prems(1) by (cases "odd k") auto
    moreover have "on_curve a'" using point_double_on_curve [OF less.prems(2) a'] .
    ultimately obtain q where "scalar_loop (k div 2) r' a' = Ok q" using less.IH False by force
    then show ?thesis using r' a' False by (simp add: scalar_loop.simps [of k])
  qed
qed

lemma scalar_mult_base:
  "case scalar_mult k base_point of
     Ok q \<Rightarrow> on_curve q
   | Err _ \<Rightarrow> \<not> curve_facts
   | Panic \<Rightarrow> \<not> curve_facts"
  using scalar_loop_on_curve [OF _ base_point_on_curve, of Infinity]
    scalar_loop_ok [OF _ _ base_point_on_curve, of Infinity]
  by (fastforce simp: scalar_mult_def on_curve_def [of Infinity] split: res.split)

section \<open>Byte strings of numbers\<close>

lemma big_of_bytes_snoc [simp]: "big_of_bytes (bs @ [b]) = 256 * big_of_bytes bs + uint b"
  by (simp add: big_of_bytes_def)

lemma big_of_bytes_nonneg: "0 \<le> big_of_bytes bs"
  by (induction bs rule: rev_induct) (simp_all add: big_of_bytes_def)

lemma big_of_bytes_zeros: "big_of_bytes (replicate k 0 @ bs) = big_of_bytes bs"
  by (induction k) (simp_all add: big_of_bytes_def)

lemma big_of_nat_bytes: "big_of_bytes (nat_bytes n) = int n"
proof (induction n rule: nat_bytes.induct)
  case (1 n)
  show ?case
  proof (cases "n = 0")
    case True
    then show ?thesis by (simp add: nat_bytes.simps big_of_bytes_def)
  next
    case False
    have "uint (word_of_nat (n mod 256) :: byte) = int (n mod 256)"
      by (simp add: unsigned_of_nat take_bit_eq_mod)
    then show ?thesis using 1 [OF False] False
      by (subst nat_bytes.simps) (simp add: zmod_int zdiv_int)
  qed
qed

lemma length_nat_bytes: "n < 256 ^ k \<Longrightarrow> length (nat_bytes n) \<le> k"
proof (induction k arbitrary: n)
  case 0
  then show ?case by (simp add: nat_bytes.simps)
next
  case (Suc k)
  then have "n div 256 < 256 ^ k" by (simp add: less_mult_imp_div_less)
  then show ?case using Suc.IH [of "n div 256"] by (subst nat_bytes.simps) simp
qed

lemma pad32_Some:
  assumes "0 \<le> i" "i < 2 ^ 256"
  shows "\<exists>bs. pad32 i = Some bs \<and> length bs = 32 \<and> big_of_bytes bs = i"
proof -
  have "nat i < 256 ^ 32" using assms by simp
  then have "length (nat_bytes (nat i)) \<le> 32" by (rule length_nat_bytes)
  then show ?thesis using assms
    by (simp add: pad32_def Let_def big_of_bytes_zeros big_of_nat_bytes)
qed

lemma pair_bytes_Some:
  assumes "0 \<le> a" "a < 2 ^ 256" "0 \<le> b" "b < 2 ^ 256"
  shows "\<exists>bs. pair_bytes a b = Some bs \<and> length bs = 64
           \<and> big_of_bytes (take 32 bs) = a \<and> big_of_bytes (drop 32 bs) = b"
  using pad32_Some [OF assms(1,2)] pad32_Some [OF assms(3,4)] by (auto simp: pair_bytes_def)

lemma secp_lt: "x < secp_p \<Longrightarrow> x < 2 ^ 256" "x < secp_n \<Longrightarrow> x < 2 ^ 256"
  by (simp_all add: secp_p_def secp_n_def)

section \<open>What a signature is\<close>

lemma nonce_range: "generate_deterministic_k priv h = Ok k \<Longrightarrow> 0 < k \<and> k < secp_n"
  using big_of_bytes_nonneg
  by (auto simp: generate_deterministic_k_def Let_def order_less_le split: if_splits)

lemma nonce_not_panic: "generate_deterministic_k priv h \<noteq> Panic"
  by (simp add: generate_deterministic_k_def Let_def)

lemma nonce_error: "generate_deterministic_k priv h = Err e \<Longrightarrow> e = NonceFailed"
  by (auto simp: generate_deterministic_k_def Let_def split: if_splits)

definition ecdsa_equation :: "bytes \<Rightarrow> bytes \<Rightarrow> int \<Rightarrow> int \<Rightarrow> int \<Rightarrow> bool" where
  "ecdsa_equation priv h k r s \<longleftrightarrow>
     secp_n dvd s * k - (big_of_bytes h + r * big_of_bytes priv)"

lemma sign_Ok:
  assumes "sign priv h = Ok (r, s)"
  shows "\<exists>k x y. generate_deterministic_k priv h = Ok k \<and> scalar_mult k base_point = Ok (Pt x y)
           \<and> r = x mod secp_n \<and> 0 < r \<and> r < secp_n \<and> 0 < s \<and> s < secp_n \<and> ecdsa_equation priv h k r s"
proof -
  obtain k where k: "generate_deterministic_k priv h = Ok k"
    using assms by (auto simp: sign_def split: res.splits)
  obtain x y where q: "scalar_mult k base_point = Ok (Pt x y)"
    using assms k by (auto simp: sign_def split: res.splits point.splits)
  obtain iv where iv: "mod_inverse k secp_n = Some iv" and r: "r = x mod secp_n" "r \<noteq> 0"
    and s: "s = (iv * (big_of_bytes h + r * big_of_bytes priv)) mod secp_n" "s \<noteq> 0"
    using assms k q by (auto simp: sign_def Let_def split: option.splits if_splits)
  let ?m = "big_of_bytes h + r * big_of_bytes priv"
  have "secp_n dvd k * (s - iv * ?m) + ?m * (iv * k - 1)"
    using mod_inverse_Some(3) [OF iv secp_n_gt] dvd_mod_diff [of secp_n "iv * ?m"] s(1)
    by (meson dvd_add dvd_mult)
  moreover have "k * (s - iv * ?m) + ?m * (iv * k - 1) = s * k - ?m" by (simp add: algebra_simps)
  ultimately have "ecdsa_equation priv h k r s" by (simp add: ecdsa_equation_def)
  moreover have "0 \<le> r" "r < secp_n" "0 \<le> s" "s < secp_n" using r(1) s(1) secp_n_gt by simp_all
  then have "0 < r" "r < secp_n" "0 < s" "s < secp_n" using r(2) s(2) by simp_all
  ultimately show ?thesis using k q r(1) by blast
qed

text \<open>What the verifier recomputes: the two factors combine to the signer's nonce.\<close>

lemma verifier_factors:
  assumes "ecdsa_equation priv h k r s" "mod_inverse s secp_n = Some iv"
  shows "secp_n dvd (big_of_bytes h * iv) mod secp_n + (r * iv) mod secp_n * big_of_bytes priv - k"
proof -
  let ?h = "big_of_bytes h" and ?d = "big_of_bytes priv"
  have "secp_n dvd ((?h * iv) mod secp_n - ?h * iv) + ((r * iv) mod secp_n - r * iv) * ?d
      - iv * (s * k - (?h + r * ?d)) + k * (iv * s - 1)"
    using dvd_mod_diff [of secp_n "?h * iv"] dvd_mod_diff [of secp_n "r * iv"]
      assms(1) [unfolded ecdsa_equation_def] mod_inverse_Some(3) [OF assms(2) secp_n_gt]
    by (meson dvd_add dvd_diff dvd_mult dvd_mult2)
  moreover have "((?h * iv) mod secp_n - ?h * iv) + ((r * iv) mod secp_n - r * iv) * ?d
      - iv * (s * k - (?h + r * ?d)) + k * (iv * s - 1)
    = (?h * iv) mod secp_n + (r * iv) mod secp_n * ?d - k" by (simp add: algebra_simps)
  ultimately show ?thesis by (simp only:)
qed

lemma scalar_loop_not_Err: "scalar_loop k r a \<noteq> Err e"
proof (induction k r a rule: scalar_loop.induct)
  case (1 k r a)
  then show ?case by (subst scalar_loop.simps) (auto split: res.splits if_splits)
qed

text \<open>What signing needs of the group: \<open>n\<close> is prime and no smaller multiple of the base point vanishes.\<close>

definition signing_facts :: bool where
  "signing_facts \<longleftrightarrow> curve_facts \<and> units_below secp_n
     \<and> (\<forall>k. 0 < k \<and> k < secp_n \<longrightarrow> scalar_mult k base_point \<noteq> Ok Infinity)"

lemma sign_not_Ok:
  "sign priv h = Err e \<Longrightarrow> e \<in> {NonceFailed, RZero, SZero}"
  "sign priv h = Panic \<Longrightarrow> \<not> signing_facts"
proof -
  show "e \<in> {NonceFailed, RZero, SZero}" if "sign priv h = Err e"
    using that nonce_error by (auto simp: sign_def Let_def split: res.splits point.splits option.splits if_splits)
  assume panic: "sign priv h = Panic"
  obtain k where k: "generate_deterministic_k priv h = Ok k"
    using panic nonce_not_panic by (auto simp: sign_def split: res.splits)
  note range = nonce_range [OF k]
  show "\<not> signing_facts"
  proof (cases "curve_facts \<and> units_below secp_n")
    case True
    then obtain q where q: "scalar_mult k base_point = Ok q"
      using scalar_mult_base [of k] by (auto split: res.splits)
    obtain iv where "mod_inverse k secp_n = Some iv"
      using True units_below_Some [OF _ secp_n_gt, of k] range by auto
    then have "q = Infinity"
      using panic k q by (cases q) (auto simp: sign_def Let_def split: if_splits)
    then show ?thesis using q range by (auto simp: signing_facts_def)
  qed (auto simp: signing_facts_def)
qed

section \<open>Properties\<close>



lemma bytes_of_inject [simp]: "bytes_of s = bytes_of t \<longleftrightarrow> s = t"
proof -
  have "unat (word_of_nat (of_char c) :: byte) = of_char c" for c :: char
    by (simp add: unsigned_of_nat take_bit_eq_mod)
  then have "inj (\<lambda>c. word_of_nat (of_char c) :: byte)" by (metis injI of_char_eq_iff)
  then show ?thesis by (simp add: bytes_of_def inj_map_eq_map)
qed

text \<open>
  What a wallet hashes is never what the node hashes: for no transfer and no payload is the text of
  \<open>HashTransaction\<close> the text of \<open>HashPayload\<close> (the chain's name stands at the other end), so a
  signature the wallet makes is over another text than the one \<open>SignedTransfer\<close> checks, and it can only
  pass there through a collision of SHA-256.
\<close>

theorem wallet_signs_other_text:
  "hash_transaction from to amount fee n = sha256 (bytes_of (wallet_text from to amount fee n))
     \<and> hash_payload p = sha256 (bytes_of (payload_string p))
     \<and> bytes_of (wallet_text from to amount fee n) \<noteq> bytes_of (payload_string p)"
proof -
  let ?rest = "pl_from p @ '':'' @ pl_to p @ '':'' @ show_i64 (pl_amount p) @ '':'' @ show_i64 (pl_fee p)
       @ '':'' @ show_u64 (pl_nonce p)"
  have "wallet_text from to amount fee n
      = (''nuvex-1:'' @ from @ '':'' @ to @ '':'' @ show_i64 amount @ '':'' @ show_i64 fee) @ CHR '':'' # show_u64 n"
    by (simp add: wallet_text_def)
  moreover have "payload_string p = ?rest @ CHR '':'' # ''nuvex-1''" by (simp add: payload_string_def)
  moreover have "show_u64 n \<noteq> ''nuvex-1''"
    using show_nat_digits [of "CHR ''n''" "unat n"] by (auto simp: show_u64_def is_digit_def)
  moreover have "CHR '':'' \<notin> set ''nuvex-1''" by simp
  ultimately have "wallet_text from to amount fee n \<noteq> payload_string p"
    using sep_right [OF colon_not_in_show(4)] by metis
  then show ?thesis by (simp add: hash_transaction_def hash_payload_def)
qed

end
