(* ===== verification/Nuvex_EVM.thy ===== *)
theory Nuvex_EVM
  imports Nuvex_Sha256 Nuvex_Float64
begin

text \<open>
  The wrappers around go-ethereum (\<open>x/nvx/keeper/evm.go\<close>, \<open>evm_v2.go\<close>): deploying and calling
  contracts, estimating gas, the registry of deployed contracts. The virtual machine, its state database
  and go-ethereum's addresses are not part of the repository: they are a record of functions on an
  abstract database. \<open>Create\<close> and \<open>Call\<close> return the gas that is left over, beside the
  data, the address and the error, or panic; the variables of the source that receive this gas are
  named \<open>gasUsed\<close>.
\<close>

section \<open>go-ethereum\<close>

type_synonym evm_address = bytes
type_synonym u256 = "256 word"

record 'd block_context =
  bx_can_transfer :: "'d \<Rightarrow> evm_address \<Rightarrow> u256 \<Rightarrow> bool"
  bx_transfer :: "'d \<Rightarrow> evm_address \<Rightarrow> evm_address \<Rightarrow> u256 \<Rightarrow> 'd"
  bx_number :: int
  bx_time :: u64
  bx_gas_limit :: u64
  bx_difficulty :: int
  bx_base_fee :: int

record tx_context =
  tc_origin :: evm_address
  tc_gas_price :: int

record raw_log =
  rl_address :: evm_address
  rl_topics :: "bytes list"
  rl_data :: bytes

record 'd geth =
  g_balance :: "'d \<Rightarrow> evm_address \<Rightarrow> u256"
  g_sub_balance :: "'d \<Rightarrow> evm_address \<Rightarrow> u256 \<Rightarrow> 'd"
  g_add_balance :: "'d \<Rightarrow> evm_address \<Rightarrow> u256 \<Rightarrow> 'd"
  g_create :: "'d block_context \<Rightarrow> tx_context \<Rightarrow> int \<Rightarrow> 'd \<Rightarrow> evm_address \<Rightarrow> bytes \<Rightarrow> u64 \<Rightarrow> u256
                 \<Rightarrow> (evm_address \<times> u64 \<times> string option) option \<times> 'd"
  g_call :: "'d block_context \<Rightarrow> tx_context \<Rightarrow> int \<Rightarrow> 'd \<Rightarrow> evm_address \<Rightarrow> evm_address \<Rightarrow> bytes \<Rightarrow> u64 \<Rightarrow> u256
                 \<Rightarrow> (bytes \<times> u64 \<times> string option) option \<times> 'd"
  g_logs :: "'d \<Rightarrow> raw_log list"
  g_commit :: "u64 \<Rightarrow> bool \<Rightarrow> 'd \<Rightarrow> 'd"
  g_hex_to_address :: "string \<Rightarrow> evm_address"
  g_address_hex :: "evm_address \<Rightarrow> string"
  g_hash_hex :: "bytes \<Rightarrow> string"
  g_keccak256 :: "bytes \<Rightarrow> bytes"
  g_bytes_to_address :: "bytes \<Rightarrow> evm_address"

section \<open>Data\<close>

record evm_contract =
  ec_address :: string
  ec_deployer :: string
  ec_bytecode :: string
  ec_abi :: string
  ec_height :: i64
  ec_tx_count :: u64

record evm_log =
  el_address :: string
  el_topics :: "string list"
  el_data :: string

record evm_result =
  er_success :: bool
  er_return_data :: string
  er_gas_used :: u64
  er_error :: string
  er_logs :: "evm_log list"

record contract_info =
  ci_address :: string
  ci_deployer :: string
  ci_height :: i64
  ci_tx_count :: u64
  ci_has_abi :: bool
  ci_bytecode_len :: nat
  ci_is_verified :: bool

record gas_estimate =
  ge_estimated_gas :: u64
  ge_gas_price :: u64
  ge_total_cost_wei :: u64
  ge_total_cost_nvx :: f64

record evm_stats =
  es_total_contracts :: int
  es_chain_id :: int
  es_version :: string
  es_compatible :: string

record evm_stats_v2 = evm_stats +
  es_supported_eips :: "int list"
  es_gas_price :: u64
  es_max_gas_per_block :: u64
  es_nvx20_standard :: string

record 'd evm_keeper =
  ek_db :: 'd
  ek_contracts :: "string \<rightharpoonup> evm_contract"
  ek_chain_id :: int

datatype evm_error = BadBytecode | BadCalldata | ContractNotFound string | AbiParse | AbiEncode

text \<open>The argument is the database that \<open>state.New\<close> gives, if it does.\<close>

definition new_evm_keeper :: "'d option \<Rightarrow> 'd evm_keeper option" where
  "new_evm_keeper db =
     map_option (\<lambda>d. \<lparr>ek_db = d, ek_contracts = Map.empty, ek_chain_id = 1317\<rparr>) db"

section \<open>The context of an execution\<close>

text \<open>The two closures every context carries.\<close>

definition can_transfer :: "'d geth \<Rightarrow> 'd \<Rightarrow> evm_address \<Rightarrow> u256 \<Rightarrow> bool" where
  "can_transfer G db addr amount \<longleftrightarrow> amount \<le> g_balance G db addr"

definition transfer_funds :: "'d geth \<Rightarrow> 'd \<Rightarrow> evm_address \<Rightarrow> evm_address \<Rightarrow> u256 \<Rightarrow> 'd" where
  "transfer_funds G db sender recipient amount =
     g_add_balance G (g_sub_balance G db sender amount) recipient amount"

definition block_context_of :: "'d geth \<Rightarrow> i64 \<Rightarrow> u64 \<Rightarrow> 'd block_context" where
  "block_context_of G height gas_limit =
     \<lparr>bx_can_transfer = can_transfer G, bx_transfer = transfer_funds G, bx_number = sint height,
      bx_time = height * 400, bx_gas_limit = gas_limit, bx_difficulty = 0, bx_base_fee = 1000\<rparr>"

definition tx_context_of :: "evm_address \<Rightarrow> tx_context" where
  "tx_context_of origin = \<lparr>tc_origin = origin, tc_gas_price = 1000\<rparr>"

section \<open>Deployment\<close>

text \<open>The block context is made with the requested limit; only then is a zero replaced.\<close>

definition deploy_contract ::
    "'d geth \<Rightarrow> string \<Rightarrow> string \<Rightarrow> string \<Rightarrow> i64 \<Rightarrow> u64 \<Rightarrow> 'd evm_keeper
       \<Rightarrow> (evm_error, evm_contract option \<times> evm_result) res \<times> 'd evm_keeper" where
  "deploy_contract G deployer_hex bytecode_hex abi height gas_limit ek =
     (case hex_decode bytecode_hex of
        None \<Rightarrow> (Err BadBytecode, ek)
      | Some bytecode \<Rightarrow>
          let deployer = g_hex_to_address G deployer_hex;
              (out, db) = g_create G (block_context_of G height gas_limit) (tx_context_of deployer)
                 (ek_chain_id ek) (ek_db ek) deployer bytecode (if gas_limit = 0 then 3000000 else gas_limit) 0;
              ek1 = ek\<lparr>ek_db := db\<rparr>
          in (case out of
                None \<Rightarrow> (Panic, ek1)
              | Some (addr, gas, vmerr) \<Rightarrow>
                  let result = \<lparr>er_success = False, er_return_data = '''', er_gas_used = gas, er_error = '''',
                                er_logs = []\<rparr>
                  in (case vmerr of
                        Some e \<Rightarrow> (Ok (None, result\<lparr>er_error := e\<rparr>), ek1)
                      | None \<Rightarrow>
                          let a = g_address_hex G addr;
                              contract = \<lparr>ec_address = a, ec_deployer = deployer_hex, ec_bytecode = bytecode_hex,
                                          ec_abi = abi, ec_height = height, ec_tx_count = 0\<rparr>;
                              ek2 = ek1\<lparr>ek_contracts := (ek_contracts ek1)(a \<mapsto> contract),
                                        ek_db := g_commit G height False db\<rparr>
                          in (if slice_ok 20 a then Ok (Some contract, result\<lparr>er_success := True\<rparr>) else Panic,
                              ek2))))"

section \<open>Calls\<close>

definition collect_log :: "'d geth \<Rightarrow> raw_log \<Rightarrow> evm_log" where
  "collect_log G l =
     \<lparr>el_address = g_address_hex G (rl_address l), el_topics = map (g_hash_hex G) (rl_topics l),
      el_data = hex_encode (rl_data l)\<rparr>"

definition count_call :: "string \<Rightarrow> (string \<rightharpoonup> evm_contract) \<Rightarrow> (string \<rightharpoonup> evm_contract)" where
  "count_call a m =
     (case m a of None \<Rightarrow> m | Some c \<Rightarrow> m(a \<mapsto> c\<lparr>ec_tx_count := ec_tx_count c + 1\<rparr>))"

text \<open>\<open>uint256.NewInt(uint64(value))\<close> reads a negative value as a large one.\<close>

definition call_contract ::
    "'d geth \<Rightarrow> string \<Rightarrow> string \<Rightarrow> string \<Rightarrow> i64 \<Rightarrow> u64 \<Rightarrow> i64 \<Rightarrow> 'd evm_keeper
       \<Rightarrow> (evm_error, evm_result) res \<times> 'd evm_keeper" where
  "call_contract G caller_hex contract_hex calldata height gas_limit value ek =
     (let caller = g_hex_to_address G caller_hex; contract_addr = g_hex_to_address G contract_hex in
      case hex_decode calldata of
        None \<Rightarrow> (Err BadCalldata, ek)
      | Some data \<Rightarrow>
          let (out, db) = g_call G (block_context_of G height gas_limit) (tx_context_of caller)
                 (ek_chain_id ek) (ek_db ek) caller contract_addr data
                 (if gas_limit = 0 then 1000000 else gas_limit) (ucast value);
              ek1 = ek\<lparr>ek_db := db\<rparr>
          in (case out of
                None \<Rightarrow> (Panic, ek1)
              | Some (ret, gas, vmerr) \<Rightarrow>
                  let result = \<lparr>er_success = False, er_return_data = hex_encode ret, er_gas_used = gas,
                                er_error = '''', er_logs = []\<rparr>
                  in (case vmerr of
                        Some e \<Rightarrow> (Ok (result\<lparr>er_error := e\<rparr>), ek1)
                      | None \<Rightarrow>
                          let ek2 = ek1\<lparr>ek_contracts := count_call contract_hex (ek_contracts ek1),
                                        ek_db := g_commit G height False db\<rparr>
                          in (if slice_ok 10 caller_hex \<and> slice_ok 10 contract_hex
                              then Ok (result\<lparr>er_success := True, er_logs := map (collect_log G) (g_logs G db)\<rparr>)
                              else Panic, ek2))))"

section \<open>Gas estimates\<close>

text \<open>The estimate runs the call for real, on the state database itself; the error is dropped.\<close>

definition estimate_of :: "u64 \<Rightarrow> gas_estimate" where
  "estimate_of gas =
     \<lparr>ge_estimated_gas = gas + gas div 10, ge_gas_price = 1000, ge_total_cost_wei = gas * 1000,
      ge_total_cost_nvx = fdiv (f64_of_int (uint (gas * 1000))) (Fin 1000000000000)\<rparr>"

definition estimate_gas ::
    "'d geth \<Rightarrow> string \<Rightarrow> string \<Rightarrow> string \<Rightarrow> i64 \<Rightarrow> 'd evm_keeper
       \<Rightarrow> (evm_error, gas_estimate) res \<times> 'd evm_keeper" where
  "estimate_gas G caller_hex contract_hex calldata value ek =
     (let caller = g_hex_to_address G caller_hex; contract_addr = g_hex_to_address G contract_hex in
      case hex_decode (trim_prefix ''0x'' calldata) of
        None \<Rightarrow> (Err BadCalldata, ek)
      | Some data \<Rightarrow>
          let (out, db) = g_call G (block_context_of G 1000000 10000000) (tx_context_of caller)
                 (ek_chain_id ek) (ek_db ek) caller contract_addr data 10000000 (ucast value)
          in (case out of None \<Rightarrow> Panic | Some (_, gas, _) \<Rightarrow> Ok (estimate_of gas), ek\<lparr>ek_db := db\<rparr>))"

section \<open>Queries\<close>

definition get_contract :: "string \<Rightarrow> 'd evm_keeper \<Rightarrow> (evm_error, evm_contract) res" where
  "get_contract a ek = (case ek_contracts ek a of None \<Rightarrow> Err (ContractNotFound a) | Some c \<Rightarrow> Ok c)"

definition get_all_contracts :: "string list \<Rightarrow> 'd evm_keeper \<Rightarrow> evm_contract list" where
  "get_all_contracts order ek = range_values order (ek_contracts ek)"

definition get_contract_info :: "string \<Rightarrow> 'd evm_keeper \<Rightarrow> (evm_error, contract_info) res" where
  "get_contract_info a ek =
     (case ek_contracts ek a of
        None \<Rightarrow> Err (ContractNotFound a)
      | Some c \<Rightarrow>
          Ok \<lparr>ci_address = ec_address c, ci_deployer = ec_deployer c, ci_height = ec_height c,
              ci_tx_count = ec_tx_count c, ci_has_abi = (ec_abi c \<noteq> '''' \<and> ec_abi c \<noteq> ''[]''),
              ci_bytecode_len = length (ec_bytecode c) div 2,
              ci_is_verified = (ec_abi c \<noteq> '''' \<and> ec_abi c \<noteq> ''[]'')\<rparr>)"

definition nuvex_to_evm_address :: "'d geth \<Rightarrow> string \<Rightarrow> evm_address" where
  "nuvex_to_evm_address G addr = g_bytes_to_address G (g_keccak256 G (bytes_of addr))"

text \<open>The texts contain an em dash: three bytes of UTF-8.\<close>

definition em_dash :: string where
  "em_dash = map char_of [0xE2, 0x80, 0x94 :: nat]"

definition evm_stats_of :: "'d evm_keeper \<Rightarrow> evm_stats" where
  "evm_stats_of ek =
     \<lparr>es_total_contracts = int (card (dom (ek_contracts ek))), es_chain_id = ek_chain_id ek,
      es_version = ''London (EIP-1559)'', es_compatible = ''Ethereum EVM '' @ em_dash @ '' Solidity 0.8.x''\<rparr>"

definition evm_stats_v2_of :: "'d evm_keeper \<Rightarrow> evm_stats_v2" where
  "evm_stats_v2_of ek =
     \<lparr>es_total_contracts = int (card (dom (ek_contracts ek))), es_chain_id = ek_chain_id ek,
      es_version = ''Shanghai (EIP-3855, EIP-3860)'',
      es_compatible = ''Ethereum EVM '' @ em_dash @ '' Solidity 0.8.x '' @ em_dash @ '' NVX-20'',
      es_supported_eips = [1559, 2930, 2929, 3198, 3529, 3541, 3855, 3860], es_gas_price = 1000,
      es_max_gas_per_block = 30000000, es_nvx20_standard = ''Compatible with ERC-20''\<rparr>"

text \<open>The ABI parser and packer of go-ethereum are arguments.\<close>

definition encode_abi_call ::
    "(string \<Rightarrow> 'abi option) \<Rightarrow> ('abi \<Rightarrow> string \<Rightarrow> 'v list \<Rightarrow> bytes option) \<Rightarrow> string \<Rightarrow> string \<Rightarrow> 'v list
       \<Rightarrow> (evm_error, string) res" where
  "encode_abi_call parse pack abi_json method_name args =
     (case parse abi_json of
        None \<Rightarrow> Err AbiParse
      | Some parsed \<Rightarrow>
          (case pack parsed method_name args of None \<Rightarrow> Err AbiEncode | Some data \<Rightarrow> Ok (hex_encode data)))"

section \<open>The registry over a sequence of operations\<close>

datatype evm_op =
    DeployOp string string string i64 u64
  | CallOp string string string i64 u64 i64
  | EstimateOp string string string i64

fun evm_exec :: "'d geth \<Rightarrow> evm_op \<Rightarrow> 'd evm_keeper \<Rightarrow> 'd evm_keeper" where
  "evm_exec G (DeployOp d b abi h g) ek = snd (deploy_contract G d b abi h g ek)"
| "evm_exec G (CallOp c a cd h g v) ek = snd (call_contract G c a cd h g v ek)"
| "evm_exec G (EstimateOp c a cd v) ek = snd (estimate_gas G c a cd v ek)"

text \<open>What the virtual machine makes of an operation: a call of the contract spelled \<open>a\<close> that runs
  without error, a deployment that ends at the address spelled \<open>a\<close>.\<close>

fun calls_at :: "'d geth \<Rightarrow> string \<Rightarrow> evm_op \<Rightarrow> 'd evm_keeper \<Rightarrow> bool" where
  "calls_at G a (CallOp c b cd h g v) ek =
     (b = a \<and> (case hex_decode cd of
                 None \<Rightarrow> False
               | Some data \<Rightarrow>
                   (case fst (g_call G (block_context_of G h g) (tx_context_of (g_hex_to_address G c))
                           (ek_chain_id ek) (ek_db ek) (g_hex_to_address G c) (g_hex_to_address G b) data
                           (if g = 0 then 1000000 else g) (ucast v)) of
                      Some (_, _, None) \<Rightarrow> True
                    | _ \<Rightarrow> False)))"
| "calls_at G a _ ek = False"

fun deploys_at :: "'d geth \<Rightarrow> string \<Rightarrow> evm_op \<Rightarrow> 'd evm_keeper \<Rightarrow> bool" where
  "deploys_at G a (DeployOp d b abi h g) ek =
     (case hex_decode b of
        None \<Rightarrow> False
      | Some code \<Rightarrow>
          (case fst (g_create G (block_context_of G h g) (tx_context_of (g_hex_to_address G d))
                  (ek_chain_id ek) (ek_db ek) (g_hex_to_address G d) code (if g = 0 then 3000000 else g) 0) of
             Some (addr, _, None) \<Rightarrow> g_address_hex G addr = a
           | _ \<Rightarrow> False))"
| "deploys_at G a _ ek = False"

fun calls_counted :: "'d geth \<Rightarrow> string \<Rightarrow> evm_op list \<Rightarrow> 'd evm_keeper \<Rightarrow> nat" where
  "calls_counted G a [] ek = 0"
| "calls_counted G a (op # ops) ek =
     (if calls_at G a op ek then 1 else 0) + calls_counted G a ops (evm_exec G op ek)"

fun never_deployed :: "'d geth \<Rightarrow> string \<Rightarrow> evm_op list \<Rightarrow> 'd evm_keeper \<Rightarrow> bool" where
  "never_deployed G a [] ek = True"
| "never_deployed G a (op # ops) ek = (\<not> deploys_at G a op ek \<and> never_deployed G a ops (evm_exec G op ek))"

lemma count_call_other: "b \<noteq> a \<Longrightarrow> count_call b m a = m a"
  by (simp add: count_call_def split: option.split)

lemma evm_exec_contracts:
  assumes "\<not> deploys_at G a op ek"
  shows "ek_contracts (evm_exec G op ek) a
    = map_option (\<lambda>c. c\<lparr>ec_tx_count := ec_tx_count c + (if calls_at G a op ek then 1 else 0)\<rparr>) (ek_contracts ek a)"
proof (cases op)
  case (DeployOp d b abi h g)
  then show ?thesis using assms
    by (cases "g = 0") (auto simp: deploy_contract_def Let_def option.map_ident split: option.splits prod.splits)
next
  case (CallOp c b cd h g v)
  then show ?thesis
    by (cases "b = a"; cases "g = 0") (auto simp: call_contract_def Let_def count_call_def option.map_ident split: option.splits prod.splits)
next
  case (EstimateOp c b cd v)
  then show ?thesis by (auto simp: estimate_gas_def Let_def option.map_ident split: option.splits prod.splits)
qed

definition registry_ok :: "'d evm_keeper \<Rightarrow> bool" where
  "registry_ok ek \<longleftrightarrow> (\<forall>a c. ek_contracts ek a = Some c \<longrightarrow> ec_address c = a)"

lemma registry_ok_exec: "registry_ok ek \<Longrightarrow> registry_ok (evm_exec G op ek)"
  by (cases op)
    (auto simp: registry_ok_def deploy_contract_def call_contract_def estimate_gas_def count_call_def Let_def
       split: option.splits prod.splits)

lemma calls_counted_correct:
  assumes "never_deployed G a ops ek" "ek_contracts ek a = Some c"
  shows "ek_contracts (fold (evm_exec G) ops ek) a
    = Some (c\<lparr>ec_tx_count := ec_tx_count c + word_of_nat (calls_counted G a ops ek)\<rparr>)"
  using assms
proof (induction ops arbitrary: ek c)
  case (Cons op ops)
  then show ?case using evm_exec_contracts [of G a op ek] by (simp add: add.assoc)
qed simp

lemma registry_ok_fold: "registry_ok ek \<Longrightarrow> registry_ok (fold (evm_exec G) ops ek)"
  by (induction ops arbitrary: ek) (simp_all add: registry_ok_exec)

section \<open>A small machine\<close>

text \<open>A machine that shows that the properties' hypotheses can hold: the database counts executions,
  every contract is deployed at the same address and every call costs 21,000 gas.\<close>

definition toy_geth :: "nat geth" where
  "toy_geth =
     \<lparr>g_balance = (\<lambda>_ _. 0), g_sub_balance = (\<lambda>d _ _. d), g_add_balance = (\<lambda>d _ _. d),
      g_create = (\<lambda>_ _ _ d _ _ gas _. (Some ([7], gas - 53000, None), d + 1)),
      g_call = (\<lambda>_ _ _ d _ _ data gas _. (Some (data, gas - 21000, None), d + 1)),
      g_logs = (\<lambda>_. []), g_commit = (\<lambda>_ _ d. d),
      g_hex_to_address = bytes_of, g_address_hex = (\<lambda>_. ''0x0000000000000000000000000000000000000007''),
      g_hash_hex = hex_encode, g_keccak256 = (\<lambda>b. b), g_bytes_to_address = (\<lambda>b. b)\<rparr>"

definition toy_ops :: "evm_op list" where
  "toy_ops = [CallOp ''0x00000000'' ''0x0000000000000000000000000000000000000007'' ''00ff'' 5 0 0,
     EstimateOp ''0x00000000'' ''0x0000000000000000000000000000000000000007'' ''0x00ff'' 0,
     CallOp ''0x00000000'' ''0x7'' ''00ff'' 5 0 0]"

section \<open>Properties\<close>

text \<open>
  C37: The registry counts exactly the calls that succeed. After a deployment the contract is found under
  its own address, and through any sequence of deployments, calls and estimates of which none ends at
  that address again its entry keeps all its fields but the counter, which has been raised by the
  number of calls without error that spelled the address as the registry does; a call that spells it
  otherwise, fails, or is only estimated is not counted. Every entry stands under its own address.
\<close>

theorem registry_counts_calls:
  assumes "deploy_contract G d b abi h g ek = (Ok (Some c, r), ek1)"
    and "never_deployed G (ec_address c) ops ek1" "registry_ok ek"
  shows "get_contract (ec_address c) (fold (evm_exec G) ops ek1)
      = Ok (c\<lparr>ec_tx_count := word_of_nat (calls_counted G (ec_address c) ops ek1)\<rparr>)
    \<and> ec_deployer c = d \<and> ec_bytecode c = b \<and> ec_abi c = abi \<and> ec_height c = h \<and> er_success r
    \<and> registry_ok (fold (evm_exec G) ops ek1)"
proof -
  have c: "ek_contracts ek1 (ec_address c) = Some c" "ec_tx_count c = 0" "ec_deployer c = d" "ec_bytecode c = b"
      "ec_abi c = abi" "ec_height c = h" "er_success r"
    using assms(1) by (auto simp: deploy_contract_def Let_def split: option.splits prod.splits if_splits)
  have "registry_ok ek1" using registry_ok_exec [OF assms(3), of G "DeployOp d b abi h g"] assms(1) by simp
  then show ?thesis
    using calls_counted_correct [OF assms(2) c(1)] c registry_ok_fold by (simp add: get_contract_def)
qed

theorem registry_counts_calls_witness:
  "\<exists>c r ek1 :: nat evm_keeper. deploy_contract toy_geth ''0x00000000'' ''60ff'' '''' 4 0 \<lparr>ek_db = 0, ek_contracts = Map.empty, ek_chain_id = 1317\<rparr>
      = (Ok (Some c, r), ek1)
    \<and> get_contract (ec_address c) (fold (evm_exec toy_geth) toy_ops ek1) = Ok (c\<lparr>ec_tx_count := 1\<rparr>)"
proof -
  let ?ek = "\<lparr>ek_db = 0, ek_contracts = Map.empty, ek_chain_id = 1317\<rparr> :: nat evm_keeper"
  obtain c r ek1 where d: "deploy_contract toy_geth ''0x00000000'' ''60ff'' '''' 4 0 ?ek = (Ok (Some c, r), ek1)"
    by (simp add: deploy_contract_def Let_def toy_geth_def hex_value_def slice_ok_def)
  then have c: "ec_address c = ''0x0000000000000000000000000000000000000007''"
    by (auto simp: deploy_contract_def Let_def toy_geth_def hex_value_def slice_ok_def)
  have n: "never_deployed toy_geth (ec_address c) toy_ops ek1" by (simp add: toy_ops_def)
  have "calls_counted toy_geth (ec_address c) toy_ops ek1 = 1"
    by (simp add: c toy_ops_def toy_geth_def hex_value_def)
  then show ?thesis
    using registry_counts_calls [OF d n] d by (simp add: registry_ok_def)
qed

text \<open>
  C38: An estimate executes. \<open>EstimateGas\<close> leaves the state database exactly as the virtual machine leaves it
  when the call is made with the same limit at the same height, with no snapshot to go back to, so
  that a later commit stores the effects of a mere estimate. And since \<open>Call\<close> returns the gas that
  is left, the estimate is that rest plus a tenth: a call that spends \<open>spent\<close> of its ten million gets
  eleven million less eleven tenths of \<open>spent\<close>, so the cheapest calls get the highest estimates, up to
  more than the limit itself.
\<close>

theorem estimate_executes_and_inverts:
  assumes "hex_decode calldata = Some data" "take 2 calldata \<noteq> ''0x''"
    and "g_call G (block_context_of G 1000000 10000000) (tx_context_of (g_hex_to_address G c)) (ek_chain_id ek)
           (ek_db ek) (g_hex_to_address G c) (g_hex_to_address G a) data 10000000 (ucast v)
         = (Some (ret, 10000000 - spent, err), db)"
    and "spent \<le> 10000000"
  shows "\<exists>est. estimate_gas G c a calldata v ek = (Ok est, ek\<lparr>ek_db := db\<rparr>)
      \<and> uint (ge_estimated_gas est) = 10000000 - uint spent + (10000000 - uint spent) div 10
      \<and> uint (ge_total_cost_wei est) = 1000 * (10000000 - uint spent)
      \<and> ek_db (snd (call_contract G c a calldata 1000000 10000000 v ek))
          = (if err = None then g_commit G 1000000 False db else db)"
proof -
  let ?left = "10000000 - spent"
  have s: "uint spent \<le> 10000000" using assms(4) by (simp add: word_le_def)
  have l: "uint ?left = 10000000 - uint spent" using assms(4) by (simp add: uint_sub_if' word_le_def)
  have q: "uint (?left div 10) = uint ?left div 10" by (simp add: uint_div)
  have b: "0 \<le> uint ?left" "uint ?left \<le> 10000000" using l s by simp_all
  have "uint ?left div 10 \<le> 1000000" using zdiv_mono1 [OF b(2), of 10] by simp
  then have e: "uint (?left + ?left div 10) = uint ?left + uint ?left div 10"
    using b unfolding uint_word_ariths q by (intro mod_pos_pos_trivial) simp_all
  have t: "uint (?left * 1000) = uint ?left * 1000"
    using b unfolding uint_word_ariths by (subst mod_pos_pos_trivial) simp_all
  have "trim_prefix ''0x'' calldata = calldata" using assms(2) by (simp add: trim_prefix_def numeral_2_eq_2)
  then show ?thesis
    using assms(1,3) e t l
    by (auto simp: estimate_gas_def call_contract_def estimate_of_def Let_def split: option.splits)
qed

theorem estimate_executes_and_inverts_witness:
  "let ek = \<lparr>ek_db = 4, ek_contracts = Map.empty, ek_chain_id = 1317\<rparr> :: nat evm_keeper in
   \<exists>est. estimate_gas toy_geth ''0x00000000'' ''0x7'' ''00ff'' 0 ek = (Ok est, ek\<lparr>ek_db := 5\<rparr>)
     \<and> uint (ge_estimated_gas est) = 10976900"
proof -
  let ?ek = "\<lparr>ek_db = 4, ek_contracts = Map.empty, ek_chain_id = 1317\<rparr> :: nat evm_keeper"
  have 1: "hex_decode ''00ff'' = Some [0, 255]" by (simp add: hex_value_def)
  have 2: "g_call toy_geth (block_context_of toy_geth 1000000 10000000)
      (tx_context_of (g_hex_to_address toy_geth ''0x00000000'')) (ek_chain_id ?ek) (ek_db ?ek)
      (g_hex_to_address toy_geth ''0x00000000'') (g_hex_to_address toy_geth ''0x7'') [0, 255] 10000000 (ucast (0 :: i64))
    = (Some ([0, 255], 10000000 - 21000, None), 5)"
    by (simp add: toy_geth_def)
  from estimate_executes_and_inverts [OF 1 _ 2] show ?thesis by (simp add: Let_def) blast
qed

end
