(* ===== verification/Nuvex_App.thy ===== *)
theory Nuvex_App
  imports Nuvex_BFT Nuvex_Staking Nuvex_Governance Nuvex_Dex Nuvex_P2P Nuvex_EVM
begin

text \<open>
  The application (\<open>app/app.go\<close>, \<open>app/genesis.go\<close>): the genesis allocations, the keepers that
  \<open>NewNuvexApp\<close> builds over the two files, and the loop \<open>Run\<close>. The chain and the mempool are the ones
  inside the BFT engine's state, which every other keeper shares by pointer. The slice of validators is
  shared too, between the two engines; the only field that changes, \<open>TotalEarned\<close>, is read by neither
  but the engine that changes it, so each has its own copy here.
\<close>

section \<open>Genesis\<close>

record genesis_account =
  ga_address :: string
  ga_amount :: i64
  ga_label :: string

definition community_address :: string where
  "community_address = ''nuvex1cac179655ab9fd3543fe537675a3c3eb447691''"

definition ecosystem_address :: string where
  "ecosystem_address = ''nuvex1f81358e9a3840c5ca4647f2bc90b0e8b7b7a70''"

definition rewards_address :: string where
  "rewards_address = ''nuvex1c22e41daadec8a5856631fbdd11a40b69b0248''"

definition founder_address :: string where
  "founder_address = ''nuvex19d85718c8da8f4213e1a2a41fe894ba928b9c9''"

definition fifth_address :: string where
  "fifth_address = ''nuvex1af7c2f39fd1751be635ff6141a4c4aea8cda91''"

definition genesis_list :: "genesis_account list" where
  "genesis_list =
     [\<lparr>ga_address = community_address, ga_amount = 275000000000000,
       ga_label = ''Community Fair Launch '' @ em_dash @ '' 275,000,000 NVX (55%)''\<rparr>,
      \<lparr>ga_address = ecosystem_address, ga_amount = 100000000000000,
       ga_label = ''Ecosystem Fund '' @ em_dash @ '' 100,000,000 NVX (20%)''\<rparr>,
      \<lparr>ga_address = rewards_address, ga_amount = 100000000000000,
       ga_label = ''Staking Rewards '' @ em_dash @ '' 100,000,000 NVX (20%)''\<rparr>,
      \<lparr>ga_address = founder_address, ga_amount = 25000000000000,
       ga_label = ''Founders Anonymous '' @ em_dash @ '' 25,000,000 NVX (5%)''\<rparr>]"

text \<open>The total that \<open>PrintGenesis\<close> adds up.\<close>

fun printed_total :: "genesis_account list \<Rightarrow> i64 \<Rightarrow> i64" where
  "printed_total [] tot = tot"
| "printed_total (a # rest) tot = printed_total rest (tot + ga_amount a)"

text \<open>What \<open>NewNuvexApp\<close> really gives out.\<close>

definition genesis_entries :: "genesis_entry list" where
  "genesis_entries =
     [\<lparr>ge_address = community_address, ge_amount = 275000000000000, ge_public_key = ''''\<rparr>,
      \<lparr>ge_address = ecosystem_address, ge_amount = 100000000000000, ge_public_key = ''''\<rparr>,
      \<lparr>ge_address = rewards_address, ge_amount = 100000000000000, ge_public_key = ''''\<rparr>,
      \<lparr>ge_address = founder_address, ge_amount = 25000000000000, ge_public_key = ''''\<rparr>,
      \<lparr>ge_address = fifth_address, ge_amount = 25000000000000, ge_public_key = ''''\<rparr>]"

section \<open>The application\<close>

record 'd nuvex_app =
  ap_chain_id :: string
  ap_version :: string
  ap_burns :: burn_keeper
  ap_state :: state_keeper
  ap_p2p :: p2p_node
  ap_bft :: bft_state
  ap_engine :: consensus_engine
  ap_evm :: "'d evm_keeper option"
  ap_dex :: dex
  ap_staking :: positions
  ap_governance :: governance
  ap_height :: i64

definition ap_chain :: "'d nuvex_app \<Rightarrow> blockchain" where
  "ap_chain app = bft_chain (ap_bft app)"

definition ap_pool :: "'d nuvex_app \<Rightarrow> mempool" where
  "ap_pool app = bft_pool (ap_bft app)"

definition founder_validator :: validator where
  "founder_validator =
     \<lparr>v_address = founder_address, v_voting_power = 25000000, v_is_active = True, v_is_green = True,
      v_commission_bps = 0, v_total_earned = 0\<rparr>"

definition node_id_of :: "string \<Rightarrow> string" where
  "node_id_of address = sha_hex address"

text \<open>
  \<open>NewNuvexApp\<close>, from the contents of the two files and the state database of the EVM. The result of
  \<open>ValidateChain\<close> is only printed.
\<close>

definition new_nuvex_app ::
    "(block \<Rightarrow> bytes) \<Rightarrow> (bytes \<Rightarrow> block option) \<Rightarrow> bytes option
       \<Rightarrow> (account_map \<times> transaction list) option \<Rightarrow> 'd option \<Rightarrow> 'd nuvex_app" where
  "new_nuvex_app marshal unmarshal chain_file state_file evm_db =
     (let bc = new_blockchain marshal unmarshal chain_file;
          st0 = new_state_keeper state_file;
          st = (if get_balance founder_address st0 = 0 then init_genesis genesis_entries st0 else st0)
      in \<lparr>ap_chain_id = ''nuvex-1'', ap_version = ''1.0.0'', ap_burns = new_burn_keeper, ap_state = st,
          ap_p2p = new_p2p_node (node_id_of founder_address),
          ap_bft = new_bft [founder_validator] bc new_mempool True founder_address,
          ap_engine = new_consensus_engine [founder_validator], ap_evm = new_evm_keeper evm_db,
          ap_dex = new_dex, ap_staking = new_staking, ap_governance = new_governance,
          ap_height = chain_height bc\<rparr>)"

text \<open>A restart: a new process over the files the old one left.\<close>

definition restart ::
    "(block \<Rightarrow> bytes) \<Rightarrow> (bytes \<Rightarrow> block option) \<Rightarrow> 'd option \<Rightarrow> 'd nuvex_app \<Rightarrow> 'd nuvex_app" where
  "restart marshal unmarshal evm_db app =
     new_nuvex_app marshal unmarshal (db_file (ap_chain app)) (disk (ap_state app)) evm_db"

section \<open>The loop\<close>

text \<open>One round of \<open>Run\<close>; the argument is the clock.\<close>

definition run_one :: "int \<Rightarrow> 'd nuvex_app \<Rightarrow> (unit, unit) res \<times> 'd nuvex_app" where
  "run_one now app =
     (let app1 = app\<lparr>ap_height := ap_height app + 1\<rparr>;
          (r, bft) = start_round (ap_height app1) 0 now (ap_bft app1);
          app2 = app1\<lparr>ap_bft := bft\<rparr>
      in (case r of
            Ok _ \<Rightarrow>
              let (r2, eng) = process_block (ap_height app2) 0 (ap_engine app2)
              in (r2, app2\<lparr>ap_engine := eng\<rparr>)
          | _ \<Rightarrow> (r, app2)))"

fun run_app :: "int list \<Rightarrow> 'd nuvex_app \<Rightarrow> (unit, unit) res \<times> 'd nuvex_app" where
  "run_app [] app = (Ok (), app)"
| "run_app (now # nows) app =
     (case run_one now app of
        (Ok _, app') \<Rightarrow> run_app nows app'
      | (r, app') \<Rightarrow> (r, app'))"

section \<open>Lemmas\<close>

lemma address_neq [simp]:
  "community_address \<noteq> ecosystem_address" "community_address \<noteq> rewards_address"
  "community_address \<noteq> founder_address" "community_address \<noteq> fifth_address"
  "ecosystem_address \<noteq> rewards_address" "ecosystem_address \<noteq> founder_address"
  "ecosystem_address \<noteq> fifth_address" "rewards_address \<noteq> founder_address"
  "rewards_address \<noteq> fifth_address" "founder_address \<noteq> fifth_address"
  by (simp_all add: community_address_def ecosystem_address_def rewards_address_def founder_address_def
      fifth_address_def)

lemmas address_neq' [simp] = address_neq [symmetric]

definition fresh_account :: "string \<Rightarrow> i64 \<Rightarrow> account" where
  "fresh_account a x = \<lparr>acc_address = a, acc_balance = x, acc_nonce = 0, acc_public_key = ''''\<rparr>"

definition fresh_accounts :: account_map where
  "fresh_accounts =
     [community_address \<mapsto> fresh_account community_address 275000000000000,
      ecosystem_address \<mapsto> fresh_account ecosystem_address 100000000000000,
      rewards_address \<mapsto> fresh_account rewards_address 100000000000000,
      founder_address \<mapsto> fresh_account founder_address 25000000000000,
      fifth_address \<mapsto> fresh_account fifth_address 25000000000000]"

lemma genesis_accounts_fresh: "genesis_accounts genesis_entries Map.empty = fresh_accounts"
  by (simp add: genesis_entries_def fresh_accounts_def fresh_account_def)

lemma fresh_state:
  "ap_state (new_nuvex_app marshal unmarshal file None db)
     = \<lparr>accounts = fresh_accounts, txs = [], disk = Some (fresh_accounts, [])\<rparr>"
  by (simp add: new_nuvex_app_def Let_def new_state_keeper_def load_def get_balance_def init_genesis_def
      genesis_accounts_fresh save_def)

lemma dom_fresh: "dom fresh_accounts
    = {community_address, ecosystem_address, rewards_address, founder_address, fifth_address}"
  by (auto simp: fresh_accounts_def)

lemma new_app_fields [simp]:
  "ap_staking (new_nuvex_app marshal unmarshal file st db) = new_staking"
  "ap_governance (new_nuvex_app marshal unmarshal file st db) = new_governance"
  "ap_dex (new_nuvex_app marshal unmarshal file st db) = new_dex"
  by (simp_all add: new_nuvex_app_def Let_def)

lemma isum_fresh: "isum fresh_accounts = 525000000000000"
  unfolding isum_def dom_fresh by (simp add: bal_def fresh_accounts_def fresh_account_def)

lemma fresh_wf: "state_wf \<lparr>accounts = fresh_accounts, txs = t, disk = d\<rparr>"
  by (auto simp: state_wf_def dom_fresh fresh_accounts_def fresh_account_def split: if_splits)

lemma fresh_solvent: "solvent fresh_accounts"
  unfolding solvent_def using isum_fresh dom_fresh
  by (auto simp: bal_def fresh_accounts_def fresh_account_def)

lemma start_round_single:
  assumes "bft_validators s = [v]" "bft_node s = v_address v"
  shows "\<exists>r ts. start_round h rn now s = (Ok (), s\<lparr>bft_round := r, bft_tasks := ts\<rparr>)"
  using assms by (auto simp: start_round_def bft_select_leader_def Let_def)

lemma run_app_founder:
  assumes "k + length nows \<le> 2000000" "ap_height app = word_of_nat k"
    and "ap_engine app = green_run founder_validator k"
    and "bft_validators (ap_bft app) = [founder_validator]" "bft_node (ap_bft app) = founder_address"
  shows "\<exists>r ts. run_app nows app = (Ok (), app\<lparr>ap_height := word_of_nat (k + length nows),
      ap_engine := green_run founder_validator (k + length nows),
      ap_bft := (ap_bft app)\<lparr>bft_round := r, bft_tasks := ts\<rparr>\<rparr>)"
  using assms
proof (induction nows arbitrary: k app)
  case Nil
  then show ?case
    by (intro exI [of _ "bft_round (ap_bft app)"] exI [of _ "bft_tasks (ap_bft app)"]) simp
next
  case (Cons now nows)
  let ?v = founder_validator
  have node: "bft_node (ap_bft app) = v_address ?v" using Cons.prems(5) by (simp add: founder_validator_def)
  obtain r ts where s: "start_round (word_of_nat (Suc k)) 0 now (ap_bft app)
      = (Ok (), (ap_bft app)\<lparr>bft_round := r, bft_tasks := ts\<rparr>)"
    using start_round_single [OF Cons.prems(4) node] by blast
  have v: "v_is_green ?v" "16 \<le> length (v_address ?v)" "v_total_earned ?v = 0"
    by (simp_all add: founder_validator_def founder_address_def)
  have k: "k < 2000000" using Cons.prems(1) by simp
  have st: "ce_mining (green_run ?v k) = mine_blocks k (v_address ?v)"
    "ce_validators (green_run ?v k) = [?v\<lparr>v_total_earned := word_of_nat k * 50250000\<rparr>]"
    using green_run_state [of k ?v] k v by simp_all
  have "fst (process_block (word_of_nat (Suc k)) 0 (green_run ?v k)) = Ok ()"
    using green_block [OF k v(1,2) st] by simp
  then have p: "process_block (word_of_nat (Suc k)) 0 (green_run ?v k) = (Ok (), green_run ?v (Suc k))"
    by (simp add: prod_eq_iff)
  have h: "ap_height app + 1 = word_of_nat (Suc k)" using Cons.prems(2) by simp
  let ?app = "app\<lparr>ap_height := word_of_nat (Suc k), ap_bft := (ap_bft app)\<lparr>bft_round := r, bft_tasks := ts\<rparr>,
      ap_engine := green_run ?v (Suc k)\<rparr>"
  have one: "run_one now app = (Ok (), ?app)"
    using s p h Cons.prems(3) by (simp add: run_one_def Let_def del: green_run.simps of_nat_Suc)
  have "\<exists>r' ts'. run_app nows ?app = (Ok (), ?app\<lparr>ap_height := word_of_nat (Suc k + length nows),
      ap_engine := green_run ?v (Suc k + length nows), ap_bft := (ap_bft ?app)\<lparr>bft_round := r', bft_tasks := ts'\<rparr>\<rparr>)"
    using Cons.prems by (intro Cons.IH) simp_all
  then show ?case using one by (simp del: green_run.simps of_nat_Suc)
qed

section \<open>The value in the application\<close>

text \<open>Everything the node keeps account of: balances, staked amounts less the rewards paid out, and the
  deposits that governance holds.\<close>

definition app_value :: "'d nuvex_app \<Rightarrow> i64" where
  "app_value app =
     total_supply (accounts (ap_state app)) + sum_over position_weight (ap_staking app)
       + sum_over held (proposals (ap_governance app))"

definition app_wf :: "'d nuvex_app \<Rightarrow> bool" where
  "app_wf app \<longleftrightarrow> staking_wf (ap_staking app, ap_state app) \<and> gov_wf (ap_governance app, ap_state app)"

lemma app_wf_new:
  assumes "state_wf (ap_state (new_nuvex_app marshal unmarshal file st db))"
  shows "app_wf (new_nuvex_app marshal unmarshal file st db)"
  using assms by (simp add: app_wf_def staking_wf_def gov_wf_def new_nuvex_app_def Let_def new_staking_def new_governance_def)

section \<open>Properties\<close>

text \<open>
  C35: A node that starts without files gives out five accounts that hold 525 million NVX together, 25
  million more than the maximum supply and than the total that is printed, because the allocation
  in \<open>NewNuvexApp\<close> has an entry that \<open>GenesisAccounts\<close> lacks. It saves them at once; the ledger is
  well-formed and solvent, so that positive transfers cannot overdraw it; the chain is the genesis
  block alone and validates.
\<close>

theorem genesis_exceeds_max_supply:
  "let app = new_nuvex_app marshal unmarshal None None db; st = ap_state app
   in isum (accounts st) = 525000000000000 \<and> sint max_supply = 500000000000000
     \<and> printed_total genesis_list 0 = max_supply
     \<and> state_wf st \<and> solvent (accounts st) \<and> disk st = Some (accounts st, txs st) \<and> txs st = []
     \<and> validate_chain (ap_chain app) = Ok () \<and> ap_height app = 0 \<and> app_wf app"
proof -
  let ?app = "new_nuvex_app marshal unmarshal None None db"
  have c: "ap_chain ?app = new_blockchain marshal unmarshal None"
    by (simp add: ap_chain_def new_nuvex_app_def new_bft_def Let_def)
  have h: "ap_height ?app = 0"
    by (simp add: new_nuvex_app_def Let_def chain_height_def new_blockchain_None genesis_header_def sealed_def)
  have "validate_chain (ap_chain ?app) = Ok ()" unfolding c using chain_good_new by (simp add: chain_good_def)
  moreover have "app_wf ?app" by (rule app_wf_new) (simp add: fresh_state fresh_wf)
  moreover have "printed_total genesis_list 0 = max_supply" by (simp add: genesis_list_def max_supply_def)
  ultimately show ?thesis using isum_fresh fresh_wf fresh_solvent h
    by (simp add: Let_def fresh_state max_supply_def)
qed



text \<open>
  A restart keeps the ledger that was saved and forgets everything else. If the state file is up to
  date and the founder's balance is not zero, the accounts and transactions come back as they were; but positions,
  proposals and pools are gone, the mining counter starts again, and the value the node accounts
  for has dropped by all that was staked or deposited: those coins were debited from their owners.
\<close>

theorem restart_forgets_positions:
  assumes "disk (ap_state app) = Some (accounts (ap_state app), txs (ap_state app))"
    and "get_balance founder_address (ap_state app) \<noteq> 0"
    and "app' = restart marshal unmarshal db app"
  shows "ap_state app' = ap_state app \<and> ap_staking app' = new_staking \<and> ap_governance app' = new_governance
    \<and> ap_dex app' = new_dex \<and> total_mined (ce_mining (ap_engine app')) = 0
    \<and> app_value app' = app_value app - sum_over position_weight (ap_staking app)
        - sum_over held (proposals (ap_governance app))"
proof -
  have "new_state_keeper (disk (ap_state app)) = ap_state app"
    using assms(1) by (simp add: new_state_keeper_def load_def)
  then have s: "ap_state app' = ap_state app"
    using assms(2) by (simp add: assms(3) restart_def new_nuvex_app_def Let_def)
  have "ap_staking app' = new_staking" "ap_governance app' = new_governance" "ap_dex app' = new_dex"
    "total_mined (ce_mining (ap_engine app')) = 0"
    by (simp_all add: assms(3) restart_def new_nuvex_app_def Let_def new_consensus_engine_def new_mining_keeper_def)
  then show ?thesis using s
    by (simp add: app_value_def new_staking_def new_governance_def)
qed

text \<open>The node after the founder has staked 100 NVX and the state has been saved.\<close>

definition staked_app :: "unit nuvex_app" where
  "staked_app =
     (let app = new_nuvex_app (\<lambda>_. []) (\<lambda>_. None) None None None;
          (_, ps, st) = stake founder_address 100000000 False 7 0 0 id (ap_staking app, ap_state app)
      in app\<lparr>ap_staking := ps, ap_state := save st\<rparr>)"

theorem restart_forgets_positions_witness:
  "app_value (restart (\<lambda>_. []) (\<lambda>_. None) None staked_app) = app_value staked_app - 100000000"
proof -
  let ?st = "\<lparr>accounts = fresh_accounts, txs = [], disk = Some (fresh_accounts, [])\<rparr>"
  have b: "get_balance founder_address ?st = 25000000000000"
    by (simp add: get_balance_def fresh_accounts_def fresh_account_def)
  have l: "10 \<le> length founder_address" by (simp add: founder_address_def)
  have k: "founder_address \<in> dom (accounts ?st)" by (simp add: dom_fresh)
  obtain p where p: "stake founder_address 100000000 False 7 0 0 id (Map.empty, ?st)
      = (Ok p, [sp_id p \<mapsto> p], adjust_balance founder_address (- 100000000) ?st)"
    "sp_amount p = 100000000" "sp_active p"
    using b l k by (simp add: stake_def Let_def min_stake_def slice_ok_def)
  let ?s = "save (adjust_balance founder_address (- 100000000) ?st)"
  have s: "ap_state staked_app = ?s" "ap_staking staked_app = [sp_id p \<mapsto> p]"
    "ap_governance staked_app = new_governance"
    using p(1) by (simp_all add: staked_app_def Let_def fresh_state, simp_all add: new_staking_def fresh_state)
  have d: "disk (ap_state staked_app) = Some (accounts (ap_state staked_app), txs (ap_state staked_app))"
    by (simp add: s(1) save_def)
  have "get_balance founder_address ?s = 25000000000000 - 100000000"
    by (simp add: get_balance_def save_def adjust_balance_def upd_account_def add_balance_def fresh_accounts_def fresh_account_def)
  then have f: "get_balance founder_address (ap_state staked_app) \<noteq> 0" by (simp add: s(1))
  have "sum_over position_weight [sp_id p \<mapsto> p] = 100000000"
    using p(2,3) sum_over_insert [of Map.empty "sp_id p" position_weight p] by (simp add: position_weight_def)
  then show ?thesis
    using restart_forgets_positions [OF d f refl, of "\<lambda>_. []" "\<lambda>_. None" None] s
    by (simp add: new_governance_def)
qed

end
