(* ===== verification/Nuvex_Http.thy ===== *)
theory Nuvex_Http
  imports Nuvex_Prelude Nuvex_Float64
begin

text \<open>
  What the handlers use of Go's standard library: \<open>strconv.ParseInt\<close> and the verb \<open>%d\<close> of
  \<open>fmt.Sscanf\<close>, \<open>encoding/json\<close> decoding a JSON value into a struct, and the routing of
  \<open>http.ServeMux\<close>. A request carries its body as the JSON value that the decoder reads first, if
  there is one. Paths are taken without percent-escapes. What a handler answers is encoded as JSON;
  \<open>Err\<close> stands for the object with the field \<open>error\<close>.
\<close>

section \<open>Numbers\<close>

definition all_digits :: "string \<Rightarrow> bool" where
  "all_digits s \<longleftrightarrow> s \<noteq> [] \<and> (\<forall>c\<in>set s. is_digit c)"

definition parse_uint64 :: "string \<Rightarrow> u64 option" where
  "parse_uint64 s =
     (if all_digits s \<and> read_nat 0 s < 2 ^ 64 then Some (word_of_nat (read_nat 0 s)) else None)"

definition parse_int64 :: "string \<Rightarrow> i64 option" where
  "parse_int64 s =
     (let neg = (s \<noteq> [] \<and> hd s = CHR ''-'');
          digits = (if s \<noteq> [] \<and> (hd s = CHR ''-'' \<or> hd s = CHR ''+'') then tl s else s);
          n = int (read_nat 0 digits)
      in if \<not> all_digits digits then None
         else if neg then (if n \<le> 2 ^ 63 then Some (word_of_int (- n)) else None)
         else (if n < 2 ^ 63 then Some (word_of_int n) else None))"

text \<open>A JSON number as \<open>float64\<close>: digits, fraction, exponent; out of range it is an error.\<close>

definition exponent_of :: "string \<Rightarrow> int option" where
  "exponent_of s =
     (case s of
        [] \<Rightarrow> Some 0
      | c # rest \<Rightarrow>
          if c \<noteq> CHR ''e'' \<and> c \<noteq> CHR ''E'' then None
          else
            let neg = (rest \<noteq> [] \<and> hd rest = CHR ''-'');
                digits = (if rest \<noteq> [] \<and> (hd rest = CHR ''-'' \<or> hd rest = CHR ''+'') then tl rest else rest)
            in if all_digits digits then Some (if neg then - int (read_nat 0 digits) else int (read_nat 0 digits))
               else None)"

definition decimal_value :: "nat \<Rightarrow> int \<Rightarrow> rat" where
  "decimal_value m e = (if 0 \<le> e then of_nat m * 10 ^ nat e else of_nat m / 10 ^ nat (- e))"

definition parse_float :: "string \<Rightarrow> f64 option" where
  "parse_float s =
     (let neg = (s \<noteq> [] \<and> hd s = CHR ''-''); t = (if neg then tl s else s);
          whole = takeWhile is_digit t; t1 = dropWhile is_digit t;
          dot = (t1 \<noteq> [] \<and> hd t1 = CHR ''.'');
          frac = (if dot then takeWhile is_digit (tl t1) else []);
          t2 = (if dot then dropWhile is_digit (tl t1) else t1)
      in if whole = [] \<or> dot \<and> frac = [] then None
         else (case exponent_of t2 of
                 None \<Rightarrow> None
               | Some e \<Rightarrow>
                   let r = decimal_value (read_nat 0 (whole @ frac)) (e - int (length frac));
                       x = mk (if neg then - r else r)
                   in if x = PInf \<or> x = NInf then None else Some x))"

text \<open>
  \<open>fmt.Sscanf(s, "%d", &id)\<close> for a \<open>uint64\<close> that is zero before: leading blanks are skipped, a
  newline among them, a missing digit or a number out of range leave it zero.
\<close>

fun skip_space :: "string \<Rightarrow> string option" where
  "skip_space [] = Some []"
| "skip_space (c # cs) =
     (if c = CHR 0x0D \<and> cs \<noteq> [] \<and> hd cs = CHR 0x0A then skip_space cs
      else if c = CHR 0x0A then None
      else if c = CHR '' '' \<or> c = CHR 0x09 \<or> c = CHR 0x0B \<or> c = CHR 0x0C \<or> c = CHR 0x0D then skip_space cs
      else Some (c # cs))"

definition scan_uint64 :: "string \<Rightarrow> u64" where
  "scan_uint64 s =
     (case skip_space s of
        None \<Rightarrow> 0
      | Some t \<Rightarrow> (case parse_uint64 (takeWhile is_digit t) of None \<Rightarrow> 0 | Some w \<Rightarrow> w))"

section \<open>JSON\<close>

text \<open>A number keeps its text, which the type of the field decides how to read.\<close>

datatype json = JNull | JBool bool | JNum string | JStr string | JArr "json list" | JObj "(string \<times> json) list"

text \<open>\<open>encoding/json\<close> folds names to upper case; beside the letters of ASCII the long s and the Kelvin
  sign fold to letters of ASCII, other characters do not occur in the names of fields.\<close>

fun fold_name :: "string \<Rightarrow> string" where
  "fold_name [] = []"
| "fold_name (c # cs) =
     (let n = of_char c :: nat in
      if 97 \<le> n \<and> n \<le> 122 then char_of (n - 32) # fold_name cs
      else (case cs of
              d # ds \<Rightarrow>
                (if c = CHR 0xC5 \<and> d = CHR 0xBF then CHR ''S'' # fold_name ds
                 else (case ds of
                         e # es \<Rightarrow>
                           (if c = CHR 0xE2 \<and> d = CHR 0x84 \<and> e = CHR 0xAA then CHR ''K'' # fold_name es
                            else c # fold_name cs)
                       | [] \<Rightarrow> c # fold_name cs))
            | [] \<Rightarrow> [c]))"

text \<open>A field of a struct: its name and how a value other than null is stored; \<open>None\<close> is a value of
  the wrong type, which is remembered as an error while decoding goes on.\<close>

type_synonym 'r field = "string \<times> (json \<Rightarrow> 'r \<Rightarrow> 'r option)"

definition find_field :: "'r field list \<Rightarrow> string \<Rightarrow> 'r field option" where
  "find_field fields k =
     (case find (\<lambda>f. fst f = k) fields of
        Some f \<Rightarrow> Some f
      | None \<Rightarrow> find (\<lambda>f. fold_name (fst f) = fold_name k) fields)"

definition store_value :: "'r field list \<Rightarrow> string \<times> json \<Rightarrow> 'r \<times> bool \<Rightarrow> 'r \<times> bool" where
  "store_value fields kv st =
     (case find_field fields (fst kv) of
        None \<Rightarrow> st
      | Some f \<Rightarrow>
          if snd kv = JNull then st
          else (case snd f (snd kv) (fst st) of None \<Rightarrow> (fst st, False) | Some r \<Rightarrow> (r, snd st)))"

definition decode_struct :: "'r field list \<Rightarrow> 'r \<Rightarrow> json option \<Rightarrow> 'r option" where
  "decode_struct fields zero body =
     (case body of
        Some (JObj kvs) \<Rightarrow>
          let (r, ok) = fold (store_value fields) kvs (zero, True) in (if ok then Some r else None)
      | Some JNull \<Rightarrow> Some zero
      | _ \<Rightarrow> None)"

fun json_string :: "json \<Rightarrow> string option" where
  "json_string (JStr s) = Some s"
| "json_string _ = None"

fun json_bool :: "json \<Rightarrow> bool option" where
  "json_bool (JBool b) = Some b"
| "json_bool _ = None"

fun json_int64 :: "json \<Rightarrow> i64 option" where
  "json_int64 (JNum t) = parse_int64 t"
| "json_int64 _ = None"

fun json_uint64 :: "json \<Rightarrow> u64 option" where
  "json_uint64 (JNum t) = parse_uint64 t"
| "json_uint64 _ = None"

fun json_float :: "json \<Rightarrow> f64 option" where
  "json_float (JNum t) = parse_float t"
| "json_float _ = None"

definition field :: "string \<Rightarrow> (json \<Rightarrow> 'v option) \<Rightarrow> ('v \<Rightarrow> 'r \<Rightarrow> 'r) \<Rightarrow> 'r field" where
  "field name read upd = (name, \<lambda>j r. map_option (\<lambda>v. upd v r) (read j))"

section \<open>Requests and routing\<close>

record http_request =
  rq_method :: string
  rq_path :: string
  rq_query :: "string \<Rightarrow> string"
  rq_body :: "json option"

text \<open>The parts of a path between slashes.\<close>

fun path_parts :: "string \<Rightarrow> string list" where
  "path_parts [] = [[]]"
| "path_parts (c # cs) =
     (if c = CHR ''/'' then [] # path_parts cs
      else (case path_parts cs of [] \<Rightarrow> [[c]] | p # ps \<Rightarrow> (c # p) # ps))"

text \<open>A path that \<open>cleanPath\<close> leaves as it is; others are redirected to the cleaned one.\<close>

definition canonical :: "string \<Rightarrow> bool" where
  "canonical p =
     (case path_parts p of
        first # rest \<Rightarrow>
          first = [] \<and> rest \<noteq> [] \<and> (\<forall>s\<in>set (butlast rest). s \<notin> {[], ''.'', ''..''}) \<and> last rest \<notin> {''.'', ''..''}
      | [] \<Rightarrow> False)"

datatype 'e routed = Handler 'e | NotFound | Redirect

text \<open>A pattern that ends in a slash matches every path below it, a longer pattern wins, and the path
  without that slash is redirected.\<close>

definition below :: "string \<Rightarrow> string \<Rightarrow> bool" where
  "below pat p \<longleftrightarrow> pat \<noteq> [] \<and> last pat = CHR ''/'' \<and> take (length pat) p = pat"

definition longest :: "(string \<times> 'e) list \<Rightarrow> (string \<times> 'e) option" where
  "longest pats = fold (\<lambda>e best. case best of None \<Rightarrow> Some e
       | Some b \<Rightarrow> if length (fst b) < length (fst e) then Some e else best) pats None"

definition mux :: "(string \<times> 'e) list \<Rightarrow> string \<Rightarrow> 'e routed" where
  "mux table p =
     (if \<not> canonical p then Redirect
      else case map_of table p of
        Some e \<Rightarrow> Handler e
      | None \<Rightarrow>
          (case longest (filter (\<lambda>e. below (fst e) p) table) of
             Some e \<Rightarrow> Handler (snd e)
           | None \<Rightarrow> if p @ ''/'' \<in> fst ` set table then Redirect else NotFound))"

end
