(* ===== verification/Nuvex_NVX20.thy ===== *)
theory Nuvex_NVX20
  imports Nuvex_Prelude
begin

text \<open>
  The interface of NVX-20 tokens that the node publishes (\<open>NVX20TokenABI\<close> in \<open>x/nvx/keeper/evm_v2.go\<close>):
  the lines of the constant.
\<close>

fun join_lines :: "string list \<Rightarrow> string" where
  "join_lines [] = ''''"
| "join_lines [l] = l"
| "join_lines (l # ls) = l @ [CHR 0x0A] @ join_lines ls"

definition nvx20_token_abi :: string where
  "nvx20_token_abi = join_lines [
    ''['',
    ''  {'',
    ''    \"name\": \"name\",'',
    ''    \"type\": \"function\",'',
    ''    \"stateMutability\": \"view\",'',
    ''    \"inputs\": [],'',
    ''    \"outputs\": [{\"name\": \"\", \"type\": \"string\"}]'',
    ''  },'',
    ''  {'',
    ''    \"name\": \"symbol\",'',
    ''    \"type\": \"function\",'',
    ''    \"stateMutability\": \"view\",'',
    ''    \"inputs\": [],'',
    ''    \"outputs\": [{\"name\": \"\", \"type\": \"string\"}]'',
    ''  },'',
    ''  {'',
    ''    \"name\": \"decimals\",'',
    ''    \"type\": \"function\",'',
    ''    \"stateMutability\": \"view\",'',
    ''    \"inputs\": [],'',
    ''    \"outputs\": [{\"name\": \"\", \"type\": \"uint8\"}]'',
    ''  },'',
    ''  {'',
    ''    \"name\": \"totalSupply\",'',
    ''    \"type\": \"function\",'',
    ''    \"stateMutability\": \"view\",'',
    ''    \"inputs\": [],'',
    ''    \"outputs\": [{\"name\": \"\", \"type\": \"uint256\"}]'',
    ''  },'',
    ''  {'',
    ''    \"name\": \"balanceOf\",'',
    ''    \"type\": \"function\",'',
    ''    \"stateMutability\": \"view\",'',
    ''    \"inputs\": [{\"name\": \"account\", \"type\": \"address\"}],'',
    ''    \"outputs\": [{\"name\": \"\", \"type\": \"uint256\"}]'',
    ''  },'',
    ''  {'',
    ''    \"name\": \"transfer\",'',
    ''    \"type\": \"function\",'',
    ''    \"stateMutability\": \"nonpayable\",'',
    ''    \"inputs\": ['',
    ''      {\"name\": \"to\", \"type\": \"address\"},'',
    ''      {\"name\": \"amount\", \"type\": \"uint256\"}'',
    ''    ],'',
    ''    \"outputs\": [{\"name\": \"\", \"type\": \"bool\"}]'',
    ''  },'',
    ''  {'',
    ''    \"name\": \"approve\",'',
    ''    \"type\": \"function\",'',
    ''    \"stateMutability\": \"nonpayable\",'',
    ''    \"inputs\": ['',
    ''      {\"name\": \"spender\", \"type\": \"address\"},'',
    ''      {\"name\": \"amount\", \"type\": \"uint256\"}'',
    ''    ],'',
    ''    \"outputs\": [{\"name\": \"\", \"type\": \"bool\"}]'',
    ''  },'',
    ''  {'',
    ''    \"name\": \"transferFrom\",'',
    ''    \"type\": \"function\",'',
    ''    \"stateMutability\": \"nonpayable\",'',
    ''    \"inputs\": ['',
    ''      {\"name\": \"from\", \"type\": \"address\"},'',
    ''      {\"name\": \"to\", \"type\": \"address\"},'',
    ''      {\"name\": \"amount\", \"type\": \"uint256\"}'',
    ''    ],'',
    ''    \"outputs\": [{\"name\": \"\", \"type\": \"bool\"}]'',
    ''  },'',
    ''  {'',
    ''    \"name\": \"allowance\",'',
    ''    \"type\": \"function\",'',
    ''    \"stateMutability\": \"view\",'',
    ''    \"inputs\": ['',
    ''      {\"name\": \"owner\", \"type\": \"address\"},'',
    ''      {\"name\": \"spender\", \"type\": \"address\"}'',
    ''    ],'',
    ''    \"outputs\": [{\"name\": \"\", \"type\": \"uint256\"}]'',
    ''  },'',
    ''  {'',
    ''    \"name\": \"Transfer\",'',
    ''    \"type\": \"event\",'',
    ''    \"inputs\": ['',
    ''      {\"name\": \"from\", \"type\": \"address\", \"indexed\": true},'',
    ''      {\"name\": \"to\", \"type\": \"address\", \"indexed\": true},'',
    ''      {\"name\": \"value\", \"type\": \"uint256\", \"indexed\": false}'',
    ''    ]'',
    ''  },'',
    ''  {'',
    ''    \"name\": \"Approval\",'',
    ''    \"type\": \"event\",'',
    ''    \"inputs\": ['',
    ''      {\"name\": \"owner\", \"type\": \"address\", \"indexed\": true},'',
    ''      {\"name\": \"spender\", \"type\": \"address\", \"indexed\": true},'',
    ''      {\"name\": \"value\", \"type\": \"uint256\", \"indexed\": false}'',
    ''    ]'',
    ''  }'',
    '']'']"

end
