(* ===== verification/Nuvex_API.thy ===== *)
theory Nuvex_API
  imports Nuvex_App Nuvex_Http Nuvex_NVX20
begin

text \<open>
  The HTTP interface (\<open>app/api.go\<close>): the routes and one function per handler, from the environment, the
  request and the application to the answer and the application afterwards. \<open>Err\<close> is the answer
  \<open>{"error": ...}\<close>, \<open>Panic\<close> a handler that panics: the server closes the connection, and what the
  handler had changed stays. The environment holds what a handler reads from outside: the successive
  clock readings, the orders in which maps are ranged over, what dialing a peer gives, which writes to
  peers succeed, and what other goroutines do to the state between the two critical sections of
  \<open>Stake\<close> and \<open>CreateProposal\<close>. A handler runs as one step otherwise.
\<close>

section \<open>Environment and answers\<close>

record api_env =
  ev_clock :: "nat \<Rightarrow> int"
  ev_text :: string
  ev_order :: "string list"
  ev_order2 :: "string list"
  ev_ids :: "u64 list"
  ev_mid :: "state_keeper \<Rightarrow> state_keeper"
  ev_dialed :: "(nat \<times> string) option"
  ev_write :: "nat \<Rightarrow> bool"

datatype api_error =
    PostRequired | BadBody | SignatureRequired | AddressMissing | NoBlock | BadHeight | BlockMissing
  | OwnerRequired | IdRequired | AddressRequired | HashRequired | TxMissing
  | StateError state_error | MempoolError mempool_error | P2PError p2p_error | EvmError evm_error
  | DexError dex_error | StakingError staking_error | GovError gov_error

record status_reply =
  sa_chain_id :: string
  sa_version :: string
  sa_height :: i64
  sa_total_blocks :: int
  sa_latest_hash :: string
  sa_circulating :: i64
  sa_burned :: i64
  sa_mempool_size :: int
  sa_timestamp :: int
  sa_status :: string

record validator_reply =
  va_address :: string
  va_voting_power :: int
  va_is_green :: bool
  va_commission :: string
  va_status :: string

datatype reply =
    RStatus status_reply
  | RBlock "block option"
  | RBlocks "block list" int
  | RSupply int i64 i64 string string
  | RValidators int "validator_reply list"
  | RBalance string i64 f64
  | RTx transaction
  | RTxs "transaction list" int
  | RAccounts "account list" int
  | RMining mining_stats
  | RMempool mempool_stats "pending_tx list"
  | RPending pending_tx
  | RP2P p2p_stats
  | RConnecting string string
  | RConsensus bft_stats
  | REvmStats evm_stats
  | RContracts "evm_contract list" int
  | RDeployed "evm_contract option" evm_result
  | REvmResult evm_result
  | RDexStats dex_stats
  | RPools "pool list" int
  | RPool pool
  | RSwap swap_result
  | RAdded add_result
  | RSwaps "swap_result list" int
  | RStakingStats staking_stats
  | RPosition stake_position
  | RPositions "stake_position list" int
  | RPendingRewards string u64
  | RGovStats gov_stats
  | RProposals "proposal list" int
  | RProposal proposal
  | RVote gov_vote
  | REvmStatsV2 evm_stats_v2
  | REstimate gas_estimate
  | RContractInfo contract_info
  | RAbi string string string string
  | RStorage string string string
  | RAddressTxs string "transaction list" int

text \<open>The answer of a keeper, with its error as the text of the answer.\<close>

fun answer :: "('e \<Rightarrow> api_error) \<Rightarrow> ('a \<Rightarrow> reply) \<Rightarrow> ('e, 'a) res \<Rightarrow> (api_error, reply) res" where
  "answer err f (Ok x) = Ok (f x)"
| "answer err f (Err e) = Err (err e)"
| "answer err f Panic = Panic"

text \<open>The beginning of every handler with a body: the method, then the body into a struct.\<close>

definition post_body ::
    "'r field list \<Rightarrow> 'r \<Rightarrow> http_request \<Rightarrow> 's \<Rightarrow> ('r \<Rightarrow> (api_error, reply) res \<times> 's) \<Rightarrow> (api_error, reply) res \<times> 's" where
  "post_body flds zero rq app k =
     (if rq_method rq \<noteq> ''POST'' then (Err PostRequired, app)
      else case decode_struct flds zero (rq_body rq) of
             None \<Rightarrow> (Err BadBody, app)
           | Some req \<Rightarrow> k req)"

section \<open>Chain, supply, balances\<close>

definition handle_status :: "api_env \<Rightarrow> 'd nuvex_app \<Rightarrow> (api_error, reply) res \<times> 'd nuvex_app" where
  "handle_status env app =
     (let (burned, circ) = burn_stats (ap_burns app)
      in (Ok (RStatus
            \<lparr>sa_chain_id = ap_chain_id app, sa_version = ap_version app, sa_height = chain_height (ap_chain app),
             sa_total_blocks = total_blocks (ap_chain app),
             sa_latest_hash = (case get_latest_block (ap_chain app) of None \<Rightarrow> '''' | Some b \<Rightarrow> b_hash b),
             sa_circulating = circ, sa_burned = burned, sa_mempool_size = mempool_size (ap_pool app),
             sa_timestamp = ev_clock env 0, sa_status = ''running''\<rparr>), app))"

definition handle_latest_block :: "'d nuvex_app \<Rightarrow> (api_error, reply) res \<times> 'd nuvex_app" where
  "handle_latest_block app =
     (case get_latest_block (ap_chain app) of
        None \<Rightarrow> (Err NoBlock, app)
      | Some b \<Rightarrow> (Ok (RBlock (Some b)), app))"

definition handle_block :: "http_request \<Rightarrow> 'd nuvex_app \<Rightarrow> (api_error, reply) res \<times> 'd nuvex_app" where
  "handle_block rq app =
     (let height_str = trim_prefix ''/block/'' (rq_path rq)
      in if height_str = ''latest'' then (Ok (RBlock (get_latest_block (ap_chain app))), app)
         else case parse_int64 height_str of
                None \<Rightarrow> (Err BadHeight, app)
              | Some height \<Rightarrow>
                  (case get_block height (ap_chain app) of
                     None \<Rightarrow> (Err BlockMissing, app)
                   | Some b \<Rightarrow> (Ok (RBlock (Some b)), app)))"

definition handle_blocks :: "'d nuvex_app \<Rightarrow> (api_error, reply) res \<times> 'd nuvex_app" where
  "handle_blocks app =
     (answer (\<lambda>_. NoBlock) (\<lambda>bs. RBlocks bs (total_blocks (ap_chain app))) (get_recent_blocks 20 (ap_chain app)), app)"

definition handle_supply :: "'d nuvex_app \<Rightarrow> (api_error, reply) res \<times> 'd nuvex_app" where
  "handle_supply app =
     (let (burned, circ) = burn_stats (ap_burns app)
      in (Ok (RSupply 500000000000000 circ burned ''unvx'' ''nvx''), app))"

definition handle_validators :: "'d nuvex_app \<Rightarrow> (api_error, reply) res \<times> 'd nuvex_app" where
  "handle_validators app =
     (Ok (RValidators 1
        [\<lparr>va_address = founder_address, va_voting_power = 25000000, va_is_green = True, va_commission = ''5%'',
          va_status = ''active''\<rparr>]), app)"

definition handle_balance :: "http_request \<Rightarrow> 'd nuvex_app \<Rightarrow> (api_error, reply) res \<times> 'd nuvex_app" where
  "handle_balance rq app =
     (let address = trim_prefix ''/balance/'' (rq_path rq)
      in if address = '''' then (Err AddressMissing, app)
         else let balance = get_balance address (ap_state app)
              in (Ok (RBalance address balance (fdiv (f64_of_int (sint balance)) (Fin 1000000))), app))"

definition handle_accounts :: "api_env \<Rightarrow> 'd nuvex_app \<Rightarrow> (api_error, reply) res \<times> 'd nuvex_app" where
  "handle_accounts env app =
     (let accs = get_all_accounts (ev_order env) (ap_state app)
      in (Ok (RAccounts accs (int (length accs))), app))"

section \<open>Transactions\<close>

record send_req =
  sq_from :: string
  sq_to :: string
  sq_amount :: i64
  sq_fee :: i64
  sq_public_key :: string
  sq_signature :: string

definition send_zero :: send_req where
  "send_zero = \<lparr>sq_from = '''', sq_to = '''', sq_amount = 0, sq_fee = 0, sq_public_key = '''', sq_signature = ''''\<rparr>"

definition send_fields :: "send_req field list" where
  "send_fields =
     [field ''from'' json_string (\<lambda>v. sq_from_update (\<lambda>_. v)),
      field ''to'' json_string (\<lambda>v. sq_to_update (\<lambda>_. v)),
      field ''amount'' json_int64 (\<lambda>v. sq_amount_update (\<lambda>_. v)),
      field ''fee'' json_int64 (\<lambda>v. sq_fee_update (\<lambda>_. v)),
      field ''public_key'' json_string (\<lambda>v. sq_public_key_update (\<lambda>_. v)),
      field ''signature'' json_string (\<lambda>v. sq_signature_update (\<lambda>_. v))]"

definition handle_send ::
    "ecdsa_verifier \<Rightarrow> api_env \<Rightarrow> http_request \<Rightarrow> 'd nuvex_app \<Rightarrow> (api_error, reply) res \<times> 'd nuvex_app" where
  "handle_send ecdsa_verify env rq app =
     post_body send_fields send_zero rq app (\<lambda>req.
       if sq_signature req = '''' \<or> sq_public_key req = '''' then (Err SignatureRequired, app)
       else
         let fee = (if sq_fee req = 0 then 1000 else sq_fee req);
             (r, st) = signed_transfer ecdsa_verify (sq_from req) (sq_to req) (sq_amount req) fee (ap_height app)
                (sq_public_key req) (sq_signature req) (ev_text env) (ap_state app)
         in (answer StateError RTx r, app\<lparr>ap_state := st\<rparr>))"

definition handle_txs :: "'d nuvex_app \<Rightarrow> (api_error, reply) res \<times> 'd nuvex_app" where
  "handle_txs app =
     (answer (\<lambda>_. TxMissing) (\<lambda>ts. RTxs ts (int (length ts))) (get_transactions 20 (ap_state app)), app)"

definition handle_tx_by_address :: "http_request \<Rightarrow> 'd nuvex_app \<Rightarrow> (api_error, reply) res \<times> 'd nuvex_app" where
  "handle_tx_by_address rq app =
     (let address = rq_query rq ''address''
      in if address = '''' then (Err AddressRequired, app)
         else (answer (\<lambda>_. TxMissing)
                 (\<lambda>ts. let filtered = filter (\<lambda>tx. tx_from tx = address \<or> tx_to tx = address) ts
                       in RAddressTxs address filtered (int (length filtered)))
                 (get_transactions 50 (ap_state app)), app))"

definition handle_tx_by_hash :: "http_request \<Rightarrow> 'd nuvex_app \<Rightarrow> (api_error, reply) res \<times> 'd nuvex_app" where
  "handle_tx_by_hash rq app =
     (let h = rq_query rq ''hash''
      in if h = '''' then (Err HashRequired, app)
         else (case get_transactions 1000 (ap_state app) of
                 Ok ts \<Rightarrow> (case find (\<lambda>tx. tx_hash tx = h) ts of
                             Some tx \<Rightarrow> (Ok (RTx tx), app)
                           | None \<Rightarrow> (Err TxMissing, app))
               | _ \<Rightarrow> (Panic, app)))"

section \<open>Mining, mempool, peers, consensus\<close>

definition handle_mining :: "'d nuvex_app \<Rightarrow> (api_error, reply) res \<times> 'd nuvex_app" where
  "handle_mining app =
     (let (st, eng) = engine_mining_stats (ap_height app) (ap_engine app)
      in (Ok (RMining st), app\<lparr>ap_engine := eng\<rparr>))"

definition handle_mempool :: "api_env \<Rightarrow> 'd nuvex_app \<Rightarrow> (api_error, reply) res \<times> 'd nuvex_app" where
  "handle_mempool env app =
     (Ok (RMempool (mempool_stats_of (ev_order env) (ap_pool app)) (get_pending 20 (ev_order2 env) (ap_pool app))), app)"

record submit_req =
  uq_from :: string
  uq_to :: string
  uq_amount :: i64
  uq_fee :: i64
  uq_nonce :: u64

definition submit_zero :: submit_req where
  "submit_zero = \<lparr>uq_from = '''', uq_to = '''', uq_amount = 0, uq_fee = 0, uq_nonce = 0\<rparr>"

definition submit_fields :: "submit_req field list" where
  "submit_fields =
     [field ''from'' json_string (\<lambda>v. uq_from_update (\<lambda>_. v)),
      field ''to'' json_string (\<lambda>v. uq_to_update (\<lambda>_. v)),
      field ''amount'' json_int64 (\<lambda>v. uq_amount_update (\<lambda>_. v)),
      field ''fee'' json_int64 (\<lambda>v. uq_fee_update (\<lambda>_. v)),
      field ''nonce'' json_uint64 (\<lambda>v. uq_nonce_update (\<lambda>_. v))]"

definition handle_mempool_submit ::
    "api_env \<Rightarrow> http_request \<Rightarrow> 'd nuvex_app \<Rightarrow> (api_error, reply) res \<times> 'd nuvex_app" where
  "handle_mempool_submit env rq app =
     post_body submit_fields submit_zero rq app (\<lambda>req.
       let (r, mp) = submit (uq_from req) (uq_to req) (uq_amount req) (uq_fee req) (uq_nonce req)
              (ev_clock env 0) (ev_clock env 1) (ap_pool app)
       in (answer MempoolError RPending r, app\<lparr>ap_bft := (ap_bft app)\<lparr>bft_pool := mp\<rparr>\<rparr>))"

definition handle_p2p :: "api_env \<Rightarrow> 'd nuvex_app \<Rightarrow> (api_error, reply) res \<times> 'd nuvex_app" where
  "handle_p2p env app = (Ok (RP2P (p2p_stats_of (ev_order env) (ap_chain app) (ap_p2p app))), app)"

definition handle_p2p_connect ::
    "api_env \<Rightarrow> http_request \<Rightarrow> 'd nuvex_app \<Rightarrow> (api_error, reply) res \<times> 'd nuvex_app" where
  "handle_p2p_connect env rq app =
     post_body [field ''address'' json_string (\<lambda>v _. v)] '''' rq app (\<lambda>address.
       let (r, n) = connect (ev_dialed env) (ev_write env) (ev_clock env 0) address (ap_chain app) (ap_p2p app)
       in (answer P2PError (\<lambda>_. RConnecting ''connecting'' address) r, app\<lparr>ap_p2p := n\<rparr>))"

definition handle_consensus :: "'d nuvex_app \<Rightarrow> (api_error, reply) res \<times> 'd nuvex_app" where
  "handle_consensus app = (Ok (RConsensus (bft_stats_of (ap_bft app))), app)"

section \<open>EVM\<close>

text \<open>The keeper is nil when the state database could not be made; every call then panics.\<close>

definition with_evm ::
    "'d nuvex_app \<Rightarrow> ('d evm_keeper \<Rightarrow> (api_error, reply) res \<times> 'd evm_keeper) \<Rightarrow> (api_error, reply) res \<times> 'd nuvex_app" where
  "with_evm app k =
     (case ap_evm app of
        None \<Rightarrow> (Panic, app)
      | Some ek \<Rightarrow> let (r, ek') = k ek in (r, app\<lparr>ap_evm := Some ek'\<rparr>))"

definition handle_evm_stats :: "'d nuvex_app \<Rightarrow> (api_error, reply) res \<times> 'd nuvex_app" where
  "handle_evm_stats app = with_evm app (\<lambda>ek. (Ok (REvmStats (evm_stats_of ek)), ek))"

definition handle_evm_contracts :: "api_env \<Rightarrow> 'd nuvex_app \<Rightarrow> (api_error, reply) res \<times> 'd nuvex_app" where
  "handle_evm_contracts env app =
     with_evm app (\<lambda>ek. let cs = get_all_contracts (ev_order env) ek in (Ok (RContracts cs (int (length cs))), ek))"

record deploy_req =
  dq_deployer :: string
  dq_bytecode :: string
  dq_abi :: string
  dq_gas_limit :: u64

definition deploy_zero :: deploy_req where
  "deploy_zero = \<lparr>dq_deployer = '''', dq_bytecode = '''', dq_abi = '''', dq_gas_limit = 0\<rparr>"

definition deploy_fields :: "deploy_req field list" where
  "deploy_fields =
     [field ''deployer'' json_string (\<lambda>v. dq_deployer_update (\<lambda>_. v)),
      field ''bytecode'' json_string (\<lambda>v. dq_bytecode_update (\<lambda>_. v)),
      field ''abi'' json_string (\<lambda>v. dq_abi_update (\<lambda>_. v)),
      field ''gas_limit'' json_uint64 (\<lambda>v. dq_gas_limit_update (\<lambda>_. v))]"

definition handle_evm_deploy ::
    "'d geth \<Rightarrow> http_request \<Rightarrow> 'd nuvex_app \<Rightarrow> (api_error, reply) res \<times> 'd nuvex_app" where
  "handle_evm_deploy G rq app =
     post_body deploy_fields deploy_zero rq app (\<lambda>req.
       let gas = (if dq_gas_limit req = 0 then 3000000 else dq_gas_limit req) in
       with_evm app (\<lambda>ek.
         let (r, ek') = deploy_contract G (dq_deployer req) (dq_bytecode req) (dq_abi req)
                (chain_height (ap_chain app)) gas ek
         in (answer EvmError (\<lambda>(c, result). RDeployed c result) r, ek')))"

record call_req =
  cq_caller :: string
  cq_contract :: string
  cq_calldata :: string
  cq_gas_limit :: u64
  cq_value :: i64

definition call_zero :: call_req where
  "call_zero = \<lparr>cq_caller = '''', cq_contract = '''', cq_calldata = '''', cq_gas_limit = 0, cq_value = 0\<rparr>"

definition call_fields :: "call_req field list" where
  "call_fields =
     [field ''caller'' json_string (\<lambda>v. cq_caller_update (\<lambda>_. v)),
      field ''contract'' json_string (\<lambda>v. cq_contract_update (\<lambda>_. v)),
      field ''calldata'' json_string (\<lambda>v. cq_calldata_update (\<lambda>_. v)),
      field ''gas_limit'' json_uint64 (\<lambda>v. cq_gas_limit_update (\<lambda>_. v)),
      field ''value'' json_int64 (\<lambda>v. cq_value_update (\<lambda>_. v))]"

definition handle_evm_call ::
    "'d geth \<Rightarrow> http_request \<Rightarrow> 'd nuvex_app \<Rightarrow> (api_error, reply) res \<times> 'd nuvex_app" where
  "handle_evm_call G rq app =
     post_body call_fields call_zero rq app (\<lambda>req.
       let gas = (if cq_gas_limit req = 0 then 1000000 else cq_gas_limit req) in
       with_evm app (\<lambda>ek.
         let (r, ek') = call_contract G (cq_caller req) (cq_contract req) (cq_calldata req)
                (chain_height (ap_chain app)) gas (cq_value req) ek
         in (answer EvmError REvmResult r, ek')))"

definition handle_evm_stats_v2 :: "'d nuvex_app \<Rightarrow> (api_error, reply) res \<times> 'd nuvex_app" where
  "handle_evm_stats_v2 app = with_evm app (\<lambda>ek. (Ok (REvmStatsV2 (evm_stats_v2_of ek)), ek))"

text \<open>The struct of an estimate has no gas limit.\<close>

definition estimate_fields :: "call_req field list" where
  "estimate_fields =
     [field ''caller'' json_string (\<lambda>v. cq_caller_update (\<lambda>_. v)),
      field ''contract'' json_string (\<lambda>v. cq_contract_update (\<lambda>_. v)),
      field ''calldata'' json_string (\<lambda>v. cq_calldata_update (\<lambda>_. v)),
      field ''value'' json_int64 (\<lambda>v. cq_value_update (\<lambda>_. v))]"

definition handle_evm_estimate ::
    "'d geth \<Rightarrow> http_request \<Rightarrow> 'd nuvex_app \<Rightarrow> (api_error, reply) res \<times> 'd nuvex_app" where
  "handle_evm_estimate G rq app =
     post_body estimate_fields call_zero rq app (\<lambda>req.
       with_evm app (\<lambda>ek.
         let (r, ek') = estimate_gas G (cq_caller req) (cq_contract req) (cq_calldata req) (cq_value req) ek
         in (answer EvmError REstimate r, ek')))"

definition handle_evm_contract_info :: "http_request \<Rightarrow> 'd nuvex_app \<Rightarrow> (api_error, reply) res \<times> 'd nuvex_app" where
  "handle_evm_contract_info rq app =
     (let address = rq_query rq ''address''
      in if address = '''' then (Err AddressRequired, app)
         else with_evm app (\<lambda>ek. (answer EvmError RContractInfo (get_contract_info address ek), ek)))"

definition handle_nvx20_abi :: "'d nuvex_app \<Rightarrow> (api_error, reply) res \<times> 'd nuvex_app" where
  "handle_nvx20_abi app =
     (Ok (RAbi ''NVX-20'' ''ERC-20'' nvx20_token_abi
        (''Official Nuvex token standard '' @ em_dash @ '' deploy ERC-20 compatible tokens on Nuvex'')), app)"

section \<open>Exchange\<close>

definition handle_dex_stats :: "api_env \<Rightarrow> 'd nuvex_app \<Rightarrow> (api_error, reply) res \<times> 'd nuvex_app" where
  "handle_dex_stats env app = (Ok (RDexStats (dex_stats_of (ev_order env) (ap_dex app))), app)"

definition handle_dex_pools :: "api_env \<Rightarrow> 'd nuvex_app \<Rightarrow> (api_error, reply) res \<times> 'd nuvex_app" where
  "handle_dex_pools env app =
     (let ps = get_all_pools (ev_order env) (ap_dex app) in (Ok (RPools ps (int (length ps))), app))"

record pool_req =
  oq_token_a :: string
  oq_token_b :: string
  oq_amount_a :: f64
  oq_amount_b :: f64
  oq_creator :: string

definition pool_zero :: pool_req where
  "pool_zero = \<lparr>oq_token_a = '''', oq_token_b = '''', oq_amount_a = Fin 0, oq_amount_b = Fin 0, oq_creator = ''''\<rparr>"

definition pool_fields :: "pool_req field list" where
  "pool_fields =
     [field ''token_a'' json_string (\<lambda>v. oq_token_a_update (\<lambda>_. v)),
      field ''token_b'' json_string (\<lambda>v. oq_token_b_update (\<lambda>_. v)),
      field ''amount_a'' json_float (\<lambda>v. oq_amount_a_update (\<lambda>_. v)),
      field ''amount_b'' json_float (\<lambda>v. oq_amount_b_update (\<lambda>_. v)),
      field ''creator'' json_string (\<lambda>v. oq_creator_update (\<lambda>_. v))]"

definition handle_dex_create_pool ::
    "api_env \<Rightarrow> http_request \<Rightarrow> 'd nuvex_app \<Rightarrow> (api_error, reply) res \<times> 'd nuvex_app" where
  "handle_dex_create_pool env rq app =
     post_body pool_fields pool_zero rq app (\<lambda>req.
       let (r, dk) = create_pool (oq_token_a req) (oq_token_b req) (oq_amount_a req) (oq_amount_b req)
              (oq_creator req) (ev_text env) (ap_dex app)
       in (answer DexError RPool r, app\<lparr>ap_dex := dk\<rparr>))"

record swap_req =
  wq_pool :: string
  wq_token_in :: string
  wq_amount_in :: f64
  wq_min_out :: f64
  wq_trader :: string

definition swap_zero :: swap_req where
  "swap_zero = \<lparr>wq_pool = '''', wq_token_in = '''', wq_amount_in = Fin 0, wq_min_out = Fin 0, wq_trader = ''''\<rparr>"

definition swap_fields :: "swap_req field list" where
  "swap_fields =
     [field ''pool_id'' json_string (\<lambda>v. wq_pool_update (\<lambda>_. v)),
      field ''token_in'' json_string (\<lambda>v. wq_token_in_update (\<lambda>_. v)),
      field ''amount_in'' json_float (\<lambda>v. wq_amount_in_update (\<lambda>_. v)),
      field ''min_amount_out'' json_float (\<lambda>v. wq_min_out_update (\<lambda>_. v)),
      field ''trader'' json_string (\<lambda>v. wq_trader_update (\<lambda>_. v))]"

definition handle_dex_swap ::
    "api_env \<Rightarrow> http_request \<Rightarrow> 'd nuvex_app \<Rightarrow> (api_error, reply) res \<times> 'd nuvex_app" where
  "handle_dex_swap env rq app =
     post_body swap_fields swap_zero rq app (\<lambda>req.
       let (r, dk) = swap (wq_pool req) (wq_token_in req) (wq_amount_in req) (wq_min_out req) (wq_trader req)
              (ev_text env) (ap_dex app)
       in (answer DexError RSwap r, app\<lparr>ap_dex := dk\<rparr>))"

definition quote_fields :: "swap_req field list" where
  "quote_fields =
     [field ''pool_id'' json_string (\<lambda>v. wq_pool_update (\<lambda>_. v)),
      field ''token_in'' json_string (\<lambda>v. wq_token_in_update (\<lambda>_. v)),
      field ''amount_in'' json_float (\<lambda>v. wq_amount_in_update (\<lambda>_. v))]"

definition handle_dex_quote :: "http_request \<Rightarrow> 'd nuvex_app \<Rightarrow> (api_error, reply) res \<times> 'd nuvex_app" where
  "handle_dex_quote rq app =
     post_body quote_fields swap_zero rq app (\<lambda>req.
       (answer DexError RSwap (get_quote (wq_pool req) (wq_token_in req) (wq_amount_in req) (ap_dex app)), app))"

record liquidity_req =
  lq_pool :: string
  lq_amount_a :: f64
  lq_amount_b :: f64
  lq_provider :: string

definition liquidity_zero :: liquidity_req where
  "liquidity_zero = \<lparr>lq_pool = '''', lq_amount_a = Fin 0, lq_amount_b = Fin 0, lq_provider = ''''\<rparr>"

definition liquidity_fields :: "liquidity_req field list" where
  "liquidity_fields =
     [field ''pool_id'' json_string (\<lambda>v. lq_pool_update (\<lambda>_. v)),
      field ''amount_a'' json_float (\<lambda>v. lq_amount_a_update (\<lambda>_. v)),
      field ''amount_b'' json_float (\<lambda>v. lq_amount_b_update (\<lambda>_. v)),
      field ''provider'' json_string (\<lambda>v. lq_provider_update (\<lambda>_. v))]"

definition handle_dex_add_liquidity :: "http_request \<Rightarrow> 'd nuvex_app \<Rightarrow> (api_error, reply) res \<times> 'd nuvex_app" where
  "handle_dex_add_liquidity rq app =
     post_body liquidity_fields liquidity_zero rq app (\<lambda>req.
       let (r, dk) = add_liquidity (lq_pool req) (lq_amount_a req) (lq_amount_b req) (lq_provider req) (ap_dex app)
       in (answer DexError RAdded r, app\<lparr>ap_dex := dk\<rparr>))"

definition handle_dex_history :: "'d nuvex_app \<Rightarrow> (api_error, reply) res \<times> 'd nuvex_app" where
  "handle_dex_history app =
     (answer (\<lambda>_. TxMissing) (\<lambda>ss. RSwaps ss (int (length ss))) (get_swap_history 20 (ap_dex app)), app)"


section \<open>Staking\<close>

definition handle_staking_stats :: "api_env \<Rightarrow> 'd nuvex_app \<Rightarrow> (api_error, reply) res \<times> 'd nuvex_app" where
  "handle_staking_stats env app = (Ok (RStakingStats (staking_stats_of (ev_order env) (ap_staking app))), app)"

text \<open>The keepers of staking and governance share the state with the application.\<close>

definition with_staking ::
    "'d nuvex_app \<Rightarrow> (positions \<times> state_keeper \<Rightarrow> (staking_error, stake_position) res \<times> positions \<times> state_keeper)
       \<Rightarrow> (api_error, reply) res \<times> 'd nuvex_app" where
  "with_staking app k =
     (let (r, ps, st) = k (ap_staking app, ap_state app)
      in (answer StakingError RPosition r, app\<lparr>ap_staking := ps, ap_state := st\<rparr>))"

record stake_req =
  kq_owner :: string
  kq_amount :: u64
  kq_is_green :: bool

definition stake_zero :: stake_req where
  "stake_zero = \<lparr>kq_owner = '''', kq_amount = 0, kq_is_green = False\<rparr>"

definition stake_fields :: "stake_req field list" where
  "stake_fields =
     [field ''owner'' json_string (\<lambda>v. kq_owner_update (\<lambda>_. v)),
      field ''amount'' json_uint64 (\<lambda>v. kq_amount_update (\<lambda>_. v)),
      field ''is_green'' json_bool (\<lambda>v. kq_is_green_update (\<lambda>_. v))]"

definition handle_stake ::
    "api_env \<Rightarrow> http_request \<Rightarrow> 'd nuvex_app \<Rightarrow> (api_error, reply) res \<times> 'd nuvex_app" where
  "handle_stake env rq app =
     post_body stake_fields stake_zero rq app (\<lambda>req.
       with_staking app (stake (kq_owner req) (kq_amount req) (kq_is_green req)
         (ev_clock env 0) (ev_clock env 1) (ev_clock env 2) (ev_mid env)))"

record unstake_req =
  nq_owner :: string
  nq_position :: string

definition unstake_zero :: unstake_req where
  "unstake_zero = \<lparr>nq_owner = '''', nq_position = ''''\<rparr>"

definition unstake_fields :: "unstake_req field list" where
  "unstake_fields =
     [field ''owner'' json_string (\<lambda>v. nq_owner_update (\<lambda>_. v)),
      field ''position_id'' json_string (\<lambda>v. nq_position_update (\<lambda>_. v))]"

definition handle_unstake ::
    "api_env \<Rightarrow> http_request \<Rightarrow> 'd nuvex_app \<Rightarrow> (api_error, reply) res \<times> 'd nuvex_app" where
  "handle_unstake env rq app =
     post_body unstake_fields unstake_zero rq app (\<lambda>req.
       with_staking app (unstake (nq_owner req) (nq_position req) (ev_clock env 0)))"

definition handle_staking_positions ::
    "api_env \<Rightarrow> http_request \<Rightarrow> 'd nuvex_app \<Rightarrow> (api_error, reply) res \<times> 'd nuvex_app" where
  "handle_staking_positions env rq app =
     (let owner = rq_query rq ''owner''
      in if owner = '''' then (Err OwnerRequired, app)
         else let ps = positions_by_owner owner (ev_order env) (ap_staking app)
              in (Ok (RPositions ps (int (length ps))), app))"

definition handle_staking_pending ::
    "api_env \<Rightarrow> http_request \<Rightarrow> 'd nuvex_app \<Rightarrow> (api_error, reply) res \<times> 'd nuvex_app" where
  "handle_staking_pending env rq app =
     (let i = rq_query rq ''id''
      in if i = '''' then (Err IdRequired, app)
         else (Ok (RPendingRewards i (pending_rewards i (ev_clock env 0) (ap_staking app))), app))"

section \<open>Governance\<close>

definition handle_gov_stats :: "api_env \<Rightarrow> 'd nuvex_app \<Rightarrow> (api_error, reply) res \<times> 'd nuvex_app" where
  "handle_gov_stats env app = (Ok (RGovStats (gov_stats_of (ev_ids env) (ap_governance app))), app)"

definition handle_gov_proposals :: "api_env \<Rightarrow> 'd nuvex_app \<Rightarrow> (api_error, reply) res \<times> 'd nuvex_app" where
  "handle_gov_proposals env app =
     (let ps = get_all_proposals (ev_ids env) (ap_governance app) in (Ok (RProposals ps (int (length ps))), app))"

definition handle_gov_proposal :: "http_request \<Rightarrow> 'd nuvex_app \<Rightarrow> (api_error, reply) res \<times> 'd nuvex_app" where
  "handle_gov_proposal rq app =
     (answer GovError RProposal (get_proposal (scan_uint64 (rq_query rq ''id'')) (ap_governance app)), app)"

definition with_governance ::
    "('a \<Rightarrow> reply) \<Rightarrow> 'd nuvex_app \<Rightarrow> (governance \<times> state_keeper \<Rightarrow> (gov_error, 'a) res \<times> governance \<times> state_keeper)
       \<Rightarrow> (api_error, reply) res \<times> 'd nuvex_app" where
  "with_governance f app k =
     (let (r, gk, st) = k (ap_governance app, ap_state app)
      in (answer GovError f r, app\<lparr>ap_governance := gk, ap_state := st\<rparr>))"

record create_req =
  gq_proposer :: string
  gq_title :: string
  gq_description :: string
  gq_type :: string
  gq_deposit :: u64

definition create_zero :: create_req where
  "create_zero = \<lparr>gq_proposer = '''', gq_title = '''', gq_description = '''', gq_type = '''', gq_deposit = 0\<rparr>"

definition create_fields :: "create_req field list" where
  "create_fields =
     [field ''proposer'' json_string (\<lambda>v. gq_proposer_update (\<lambda>_. v)),
      field ''title'' json_string (\<lambda>v. gq_title_update (\<lambda>_. v)),
      field ''description'' json_string (\<lambda>v. gq_description_update (\<lambda>_. v)),
      field ''type'' json_string (\<lambda>v. gq_type_update (\<lambda>_. v)),
      field ''deposit'' json_uint64 (\<lambda>v. gq_deposit_update (\<lambda>_. v))]"

definition handle_gov_create ::
    "api_env \<Rightarrow> http_request \<Rightarrow> 'd nuvex_app \<Rightarrow> (api_error, reply) res \<times> 'd nuvex_app" where
  "handle_gov_create env rq app =
     post_body create_fields create_zero rq app (\<lambda>req.
       with_governance RProposal app (create_proposal (gq_proposer req) (gq_title req) (gq_description req)
         (gq_type req) (gq_deposit req) (ev_clock env 0) (ev_clock env 1) (ev_mid env)))"

record vote_req =
  vq_proposal :: u64
  vq_voter :: string
  vq_option :: string

definition vote_zero :: vote_req where
  "vote_zero = \<lparr>vq_proposal = 0, vq_voter = '''', vq_option = ''''\<rparr>"

definition vote_fields :: "vote_req field list" where
  "vote_fields =
     [field ''proposal_id'' json_uint64 (\<lambda>v. vq_proposal_update (\<lambda>_. v)),
      field ''voter'' json_string (\<lambda>v. vq_voter_update (\<lambda>_. v)),
      field ''option'' json_string (\<lambda>v. vq_option_update (\<lambda>_. v))]"

definition handle_gov_vote ::
    "api_env \<Rightarrow> http_request \<Rightarrow> 'd nuvex_app \<Rightarrow> (api_error, reply) res \<times> 'd nuvex_app" where
  "handle_gov_vote env rq app =
     post_body vote_fields vote_zero rq app (\<lambda>req.
       with_governance RVote app (cast_vote (vq_proposal req) (vq_voter req) (vq_option req)
         (ev_clock env 0) (ev_clock env 1)))"

section \<open>Storage\<close>

definition handle_leveldb_stats :: "'d nuvex_app \<Rightarrow> (api_error, reply) res \<times> 'd nuvex_app" where
  "handle_leveldb_stats app =
     (Ok (RStorage ''LevelDB'' ''active''
        (''High-performance key-value storage '' @ em_dash @ '' same as Bitcoin and Ethereum'')), app)"

end
