(* ===== verification/Nuvex_Server.thy ===== *)
theory Nuvex_Server
  imports Nuvex_API
begin

text \<open>
  The HTTP server (\<open>APIServer.Start\<close> in \<open>app/api.go\<close>): the table of routes, the request that is routed and
  handled, and the node as a whole: requests in any order between the ticks of the keepers' loops and
  the rounds of \<open>Run\<close>. The lemmas follow the value that the node accounts for, and what an answer
  with an error leaves unchanged.
\<close>

section \<open>Routes\<close>

datatype endpoint =
    AtStatus | AtLatestBlock | AtBlock | AtBlocks | AtSupply | AtValidators | AtBalance | AtTxs
  | AtAccounts | AtSend | AtMining | AtMempool | AtMempoolSubmit | AtP2P | AtP2PConnect | AtConsensus
  | AtEVMContracts | AtEVMDeploy | AtEVMCall | AtEVMStats | AtDEXStats | AtDEXPools | AtDEXCreatePool
  | AtDEXSwap | AtDEXQuote | AtDEXAddLiquidity | AtDEXHistory | AtStakingStats | AtStake | AtUnstake
  | AtStakingPositions | AtStakingPending | AtGovStats | AtGovProposals | AtGovProposal | AtGovCreate
  | AtGovVote | AtEVMStatsV2 | AtEVMEstimateGas | AtEVMContractInfo | AtNVX20ABI | AtLevelDBStats
  | AtTxByAddress | AtTxByHash

text \<open>The registrations of \<open>Start\<close>, in their order.\<close>

definition routes :: "(string \<times> endpoint) list" where
  "routes =
     [(''/status'', AtStatus),
      (''/block/latest'', AtLatestBlock),
      (''/block/'', AtBlock),
      (''/blocks'', AtBlocks),
      (''/supply'', AtSupply),
      (''/validators'', AtValidators),
      (''/balance/'', AtBalance),
      (''/txs'', AtTxs),
      (''/accounts'', AtAccounts),
      (''/tx/send'', AtSend),
      (''/mining'', AtMining),
      (''/mempool'', AtMempool),
      (''/mempool/submit'', AtMempoolSubmit),
      (''/p2p'', AtP2P),
      (''/p2p/connect'', AtP2PConnect),
      (''/consensus'', AtConsensus),
      (''/evm/contracts'', AtEVMContracts),
      (''/evm/deploy'', AtEVMDeploy),
      (''/evm/call'', AtEVMCall),
      (''/evm/stats'', AtEVMStats),
      (''/dex/stats'', AtDEXStats),
      (''/dex/pools'', AtDEXPools),
      (''/dex/create'', AtDEXCreatePool),
      (''/dex/swap'', AtDEXSwap),
      (''/dex/quote'', AtDEXQuote),
      (''/dex/liquidity/add'', AtDEXAddLiquidity),
      (''/dex/history'', AtDEXHistory),
      (''/staking/stats'', AtStakingStats),
      (''/staking/stake'', AtStake),
      (''/staking/unstake'', AtUnstake),
      (''/staking/positions'', AtStakingPositions),
      (''/staking/pending'', AtStakingPending),
      (''/governance/stats'', AtGovStats),
      (''/governance/proposals'', AtGovProposals),
      (''/governance/proposal'', AtGovProposal),
      (''/governance/create'', AtGovCreate),
      (''/governance/vote'', AtGovVote),
      (''/evm/stats/v2'', AtEVMStatsV2),
      (''/evm/estimate'', AtEVMEstimateGas),
      (''/evm/contract/info'', AtEVMContractInfo),
      (''/evm/nvx20/abi'', AtNVX20ABI),
      (''/storage/stats'', AtLevelDBStats),
      (''/tx/address'', AtTxByAddress),
      (''/tx/hash'', AtTxByHash)]"

text \<open>The method of the server that is registered for a pattern.\<close>

fun handle ::
    "ecdsa_verifier \<Rightarrow> 'd geth \<Rightarrow> api_env \<Rightarrow> http_request \<Rightarrow> endpoint \<Rightarrow> 'd nuvex_app
       \<Rightarrow> (api_error, reply) res \<times> 'd nuvex_app" where
  "handle V G env rq AtStatus app = handle_status env app"
| "handle V G env rq AtLatestBlock app = handle_latest_block app"
| "handle V G env rq AtBlock app = handle_block rq app"
| "handle V G env rq AtBlocks app = handle_blocks app"
| "handle V G env rq AtSupply app = handle_supply app"
| "handle V G env rq AtValidators app = handle_validators app"
| "handle V G env rq AtBalance app = handle_balance rq app"
| "handle V G env rq AtTxs app = handle_txs app"
| "handle V G env rq AtAccounts app = handle_accounts env app"
| "handle V G env rq AtSend app = handle_send V env rq app"
| "handle V G env rq AtMining app = handle_mining app"
| "handle V G env rq AtMempool app = handle_mempool env app"
| "handle V G env rq AtMempoolSubmit app = handle_mempool_submit env rq app"
| "handle V G env rq AtP2P app = handle_p2p env app"
| "handle V G env rq AtP2PConnect app = handle_p2p_connect env rq app"
| "handle V G env rq AtConsensus app = handle_consensus app"
| "handle V G env rq AtEVMContracts app = handle_evm_contracts env app"
| "handle V G env rq AtEVMDeploy app = handle_evm_deploy G rq app"
| "handle V G env rq AtEVMCall app = handle_evm_call G rq app"
| "handle V G env rq AtEVMStats app = handle_evm_stats app"
| "handle V G env rq AtDEXStats app = handle_dex_stats env app"
| "handle V G env rq AtDEXPools app = handle_dex_pools env app"
| "handle V G env rq AtDEXCreatePool app = handle_dex_create_pool env rq app"
| "handle V G env rq AtDEXSwap app = handle_dex_swap env rq app"
| "handle V G env rq AtDEXQuote app = handle_dex_quote rq app"
| "handle V G env rq AtDEXAddLiquidity app = handle_dex_add_liquidity rq app"
| "handle V G env rq AtDEXHistory app = handle_dex_history app"
| "handle V G env rq AtStakingStats app = handle_staking_stats env app"
| "handle V G env rq AtStake app = handle_stake env rq app"
| "handle V G env rq AtUnstake app = handle_unstake env rq app"
| "handle V G env rq AtStakingPositions app = handle_staking_positions env rq app"
| "handle V G env rq AtStakingPending app = handle_staking_pending env rq app"
| "handle V G env rq AtGovStats app = handle_gov_stats env app"
| "handle V G env rq AtGovProposals app = handle_gov_proposals env app"
| "handle V G env rq AtGovProposal app = handle_gov_proposal rq app"
| "handle V G env rq AtGovCreate app = handle_gov_create env rq app"
| "handle V G env rq AtGovVote app = handle_gov_vote env rq app"
| "handle V G env rq AtEVMStatsV2 app = handle_evm_stats_v2 app"
| "handle V G env rq AtEVMEstimateGas app = handle_evm_estimate G rq app"
| "handle V G env rq AtEVMContractInfo app = handle_evm_contract_info rq app"
| "handle V G env rq AtNVX20ABI app = handle_nvx20_abi app"
| "handle V G env rq AtLevelDBStats app = handle_leveldb_stats app"
| "handle V G env rq AtTxByAddress app = handle_tx_by_address rq app"
| "handle V G env rq AtTxByHash app = handle_tx_by_hash rq app"

definition serve ::
    "ecdsa_verifier \<Rightarrow> 'd geth \<Rightarrow> api_env \<Rightarrow> http_request \<Rightarrow> 'd nuvex_app
       \<Rightarrow> ((api_error, reply) res \<times> 'd nuvex_app) routed" where
  "serve V G env rq app =
     (case mux routes (rq_path rq) of
        Handler e \<Rightarrow> Handler (handle V G env rq e app)
      | NotFound \<Rightarrow> NotFound
      | Redirect \<Rightarrow> Redirect)"


section \<open>Answers with an error\<close>

named_theorems keeps_on_error \<open>what an operation changes when it returns an error\<close>

lemma answer_Err [simp]: "answer f g r = Err e \<longleftrightarrow> (\<exists>x. r = Err x \<and> e = f x)"
  by (cases r) auto

lemma create_pool_error [keeps_on_error]: "create_pool a b x y c now dk = (Err e, dk') \<Longrightarrow> dk' = dk"
  by (auto simp: create_pool_def Let_def split: if_splits)

lemma add_liquidity_error [keeps_on_error]: "add_liquidity i x y c dk = (Err e, dk') \<Longrightarrow> dk' = dk"
  by (auto simp: add_liquidity_def Let_def split: if_splits option.splits)

lemma swap_error [keeps_on_error]: "swap i t x y c now dk = (Err e, dk') \<Longrightarrow> dk' = dk"
  by (auto simp: swap_def Let_def split: if_splits option.splits)

lemma submit_error [keeps_on_error]: "submit a b amount fee n nano now mp = (Err e, mp') \<Longrightarrow> mp' = mp"
  by (auto simp: submit_def Let_def split: if_splits)

lemma connect_error [keeps_on_error]: "connect d wr now a bc n = (Err e, n') \<Longrightarrow> n' = n"
  by (auto simp: connect_def split: option.splits)

lemma stake_error [keeps_on_error]: "stake a x g t0 t1 t2 mid (ps, st) = (Err e, ps', st') \<Longrightarrow> ps' = ps \<and> st' = st"
  by (auto simp: stake_def Let_def split: if_splits)

lemma unstake_error [keeps_on_error]: "unstake a i now (ps, st) = (Err e, ps', st') \<Longrightarrow> ps' = ps \<and> st' = st"
  by (auto simp: unstake_def Let_def split: if_splits option.splits)

lemma create_proposal_error [keeps_on_error]:
  "create_proposal a title d ty dep t0 t1 mid (gk, st) = (Err e, gk', st') \<Longrightarrow> gk' = gk \<and> st' = st"
  by (auto simp: create_proposal_def Let_def split: if_splits)

lemma cast_vote_error [keeps_on_error]:
  "cast_vote i a opt now t (gk, st) = (Err e, gk', st') \<Longrightarrow> gk' = gk \<and> st' = st"
  by (auto simp: cast_vote_def Let_def split: if_splits option.splits)

lemma signed_transfer_error [keeps_on_error]:
  "signed_transfer V a b x fee h pk sg now st = (Err e, st') \<Longrightarrow> st' = st"
  using signed_transfer_err [of V a b x fee h pk sg now st e] by simp

lemma deploy_contract_error [keeps_on_error]: "deploy_contract G d b abi h gas ek = (Err e, ek') \<Longrightarrow> ek' = ek"
  by (auto simp: deploy_contract_def Let_def split: if_splits option.splits prod.splits)

lemma call_contract_error [keeps_on_error]: "call_contract G a c d h gas x ek = (Err e, ek') \<Longrightarrow> ek' = ek"
  by (auto simp: call_contract_def Let_def split: if_splits option.splits prod.splits)

lemma estimate_gas_error [keeps_on_error]: "estimate_gas G a c d x ek = (Err e, ek') \<Longrightarrow> ek' = ek"
  by (auto simp: estimate_gas_def Let_def split: if_splits option.splits prod.splits)

text \<open>Every handler is a guard, the reading of the body, and one operation of a keeper.\<close>

lemma post_body_error:
  assumes "post_body flds zero rq app k = (Err err, app')"
    and "\<And>req. k req = (Err err, app') \<Longrightarrow> app' = app"
  shows "app' = app"
  using assms by (auto simp: post_body_def split: if_splits option.splits)

lemma with_evm_error:
  assumes "with_evm app k = (Err err, app')" and "\<And>ek ek'. k ek = (Err err, ek') \<Longrightarrow> ek' = ek"
  shows "app' = app"
  using assms by (auto simp: with_evm_def split: option.splits prod.splits)

lemmas read_handler_defs =
  handle_status_def handle_latest_block_def handle_block_def handle_blocks_def handle_supply_def
  handle_validators_def handle_balance_def handle_accounts_def handle_txs_def handle_tx_by_address_def
  handle_tx_by_hash_def handle_mining_def handle_mempool_def handle_p2p_def handle_consensus_def
  handle_evm_stats_def handle_evm_contracts_def handle_evm_stats_v2_def handle_evm_contract_info_def
  handle_nvx20_abi_def handle_dex_stats_def handle_dex_pools_def handle_dex_quote_def handle_dex_history_def
  handle_staking_stats_def handle_staking_positions_def handle_staking_pending_def handle_gov_stats_def
  handle_gov_proposals_def handle_gov_proposal_def handle_leveldb_stats_def

lemmas write_handler_defs =
  handle_send_def handle_mempool_submit_def handle_p2p_connect_def handle_evm_deploy_def handle_evm_call_def
  handle_evm_estimate_def handle_dex_create_pool_def handle_dex_swap_def handle_dex_add_liquidity_def
  handle_stake_def handle_unstake_def handle_gov_create_def handle_gov_vote_def

lemma handle_error:
  "handle V G env rq e app = (Err err, app') \<Longrightarrow> app' = app"
proof (induction V G env rq e app rule: handle.induct)
qed (auto simp: read_handler_defs write_handler_defs with_staking_def with_governance_def ap_pool_def Let_def
      elim!: post_body_error with_evm_error dest!: keeps_on_error split: prod.splits if_splits option.splits res.splits)


section \<open>The node\<close>

text \<open>What a request relies on: no other goroutine between the two critical sections of a keeper, a clock
  reading that no position has its ID from, an unused number for the next proposal, and a new
  connection when a peer is dialed.\<close>

definition undisturbed :: "api_env \<Rightarrow> 'd nuvex_app \<Rightarrow> bool" where
  "undisturbed env app \<longleftrightarrow> ev_mid env = id
     \<and> (\<forall>owner. ap_staking app (take 10 owner @ ''_'' @ show_int (ev_clock env 0)) = None)
     \<and> proposals (ap_governance app) (next_id (ap_governance app)) = None
     \<and> (\<forall>c remote. ev_dialed env = Some (c, remote) \<longrightarrow> n_objs (ap_p2p app) c = None)"

text \<open>A step of the node: a request that is answered, a tick of \<open>rewardLoop\<close> or \<open>processLoop\<close>, a round of
  \<open>Run\<close>, a step of the BFT engine or the mempool, a step of the peer-to-peer network.\<close>

inductive node_step ::
    "ecdsa_verifier \<Rightarrow> 'd geth \<Rightarrow> (block \<Rightarrow> bytes) \<Rightarrow> p2p_codec \<Rightarrow> 'd nuvex_app \<Rightarrow> 'd nuvex_app \<Rightarrow> bool"
    for V G marshal codec where
  request: "undisturbed env app \<Longrightarrow> serve V G env rq app = Handler (r, app') \<Longrightarrow> r \<noteq> Panic \<Longrightarrow>
    node_step V G marshal codec app app'"
| reward: "node_step V G marshal codec app (app\<lparr>ap_staking := reward_tick order (ap_staking app)\<rparr>)"
| close_proposals: "process_tick order (ap_governance app, ap_state app) = (gk, st) \<Longrightarrow>
    node_step V G marshal codec app (app\<lparr>ap_governance := gk, ap_state := st\<rparr>)"
| round: "run_one now app = (Ok (), app') \<Longrightarrow> node_step V G marshal codec app app'"
| engine: "bft_step marshal (ap_bft app) bft \<Longrightarrow> node_step V G marshal codec app (app\<lparr>ap_bft := bft\<rparr>)"
| network: "p2p_step codec (ap_p2p app, ap_pool app) (n, mp) \<Longrightarrow>
    node_step V G marshal codec app (app\<lparr>ap_p2p := n, ap_bft := (ap_bft app)\<lparr>bft_pool := mp\<rparr>\<rparr>)"

inductive node_run ::
    "ecdsa_verifier \<Rightarrow> 'd geth \<Rightarrow> (block \<Rightarrow> bytes) \<Rightarrow> p2p_codec \<Rightarrow> 'd nuvex_app \<Rightarrow> 'd nuvex_app \<Rightarrow> bool"
    for V G marshal codec app0 where
  run_start: "node_run V G marshal codec app0 app0"
| run_more: "node_run V G marshal codec app0 app \<Longrightarrow> node_step V G marshal codec app app' \<Longrightarrow>
    node_run V G marshal codec app0 app'"

section \<open>The invariant of the node\<close>

definition value_with_fees :: "'d nuvex_app \<Rightarrow> i64" where
  "value_with_fees app = app_value app + fees_logged (ap_state app)"

definition value_inv :: "'d nuvex_app \<Rightarrow> 'd nuvex_app \<Rightarrow> bool" where
  "value_inv app0 app \<longleftrightarrow> app_wf app \<and> value_with_fees app = value_with_fees app0"

definition shared_inv :: "'d nuvex_app \<Rightarrow> 'd nuvex_app \<Rightarrow> bool" where
  "shared_inv app0 app \<longleftrightarrow> grows_from (ap_bft app0) (ap_bft app) \<and> p2p_inv (ap_p2p app)"

text \<open>The value is in the state, the positions and the proposals only.\<close>

lemma value_inv_frame [simp]:
  "value_inv app0 (app\<lparr>ap_engine := eng\<rparr>) = value_inv app0 app"
  "value_inv app0 (app\<lparr>ap_evm := ek\<rparr>) = value_inv app0 app"
  "value_inv app0 (app\<lparr>ap_dex := dk\<rparr>) = value_inv app0 app"
  "value_inv app0 (app\<lparr>ap_p2p := n\<rparr>) = value_inv app0 app"
  "value_inv app0 (app\<lparr>ap_bft := bft\<rparr>) = value_inv app0 app"
  "value_inv app0 (app\<lparr>ap_height := h\<rparr>) = value_inv app0 app"
  by (simp_all add: value_inv_def value_with_fees_def app_value_def app_wf_def)

lemma shared_inv_frame [simp]:
  "shared_inv app0 (app\<lparr>ap_engine := eng\<rparr>) = shared_inv app0 app"
  "shared_inv app0 (app\<lparr>ap_evm := ek\<rparr>) = shared_inv app0 app"
  "shared_inv app0 (app\<lparr>ap_dex := dk\<rparr>) = shared_inv app0 app"
  "shared_inv app0 (app\<lparr>ap_state := st\<rparr>) = shared_inv app0 app"
  "shared_inv app0 (app\<lparr>ap_staking := ps\<rparr>) = shared_inv app0 app"
  "shared_inv app0 (app\<lparr>ap_governance := gk\<rparr>) = shared_inv app0 app"
  "shared_inv app0 (app\<lparr>ap_height := h\<rparr>) = shared_inv app0 app"
  by (simp_all add: shared_inv_def)

lemma staking_wf_more:
  "staking_wf (ps, st) \<Longrightarrow> state_wf st' \<Longrightarrow> dom (accounts st) \<subseteq> dom (accounts st') \<Longrightarrow> staking_wf (ps, st')"
  unfolding staking_wf_def position_ok_def by (simp, blast)

lemma gov_wf_more:
  "gov_wf (gk, st) \<Longrightarrow> state_wf st' \<Longrightarrow> dom (accounts st) \<subseteq> dom (accounts st') \<Longrightarrow> gov_wf (gk, st')"
  unfolding gov_wf_def proposal_ok_def by (simp, blast)

lemma value_inv_parts:
  "value_inv app0 app \<longleftrightarrow> staking_wf (ap_staking app, ap_state app) \<and> gov_wf (ap_governance app, ap_state app)
     \<and> total_supply (accounts (ap_state app)) + sum_over position_weight (ap_staking app)
         + sum_over held (proposals (ap_governance app)) + fees_logged (ap_state app) = value_with_fees app0"
  by (simp add: value_inv_def value_with_fees_def app_value_def app_wf_def)

lemma value_inv_staking:
  assumes "value_inv app0 app" "staking_wf (ps, st)" "dom (accounts st) = dom (accounts (ap_state app))"
    and "staked_value (ps, st) = staked_value (ap_staking app, ap_state app)" "txs st = txs (ap_state app)"
  shows "value_inv app0 (app\<lparr>ap_staking := ps, ap_state := st\<rparr>)"
proof -
  have "gov_wf (ap_governance app, st)"
    using assms by (intro gov_wf_more [of "ap_governance app" "ap_state app" st]) (simp_all add: value_inv_parts staking_wf_def)
  then show ?thesis using assms by (simp add: value_inv_parts staked_value_def fees_logged_def)
qed

lemma value_inv_governance:
  assumes "value_inv app0 app" "gov_wf (gk, st)" "dom (accounts st) = dom (accounts (ap_state app))"
    and "gov_value (gk, st) = gov_value (ap_governance app, ap_state app)" "txs st = txs (ap_state app)"
  shows "value_inv app0 (app\<lparr>ap_governance := gk, ap_state := st\<rparr>)"
proof -
  have w: "staking_wf (ap_staking app, st)"
    using assms by (intro staking_wf_more [of "ap_staking app" "ap_state app" st]) (simp_all add: value_inv_parts gov_wf_def)
  have e: "total_supply (accounts st) + sum_over position_weight (ap_staking app) + sum_over held (proposals gk)
      = total_supply (accounts (ap_state app)) + sum_over position_weight (ap_staking app)
          + sum_over held (proposals (ap_governance app))"
    using assms(4) by (simp add: gov_value_def add.assoc add.left_commute)
  show ?thesis using assms(1,2,5) w by (simp add: value_inv_parts fees_logged_def e)
qed

lemma state_step_dom: "dom (accounts sk) \<subseteq> dom (accounts (state_step V op sk))"
  by (cases rule: state_step_cases [of V op sk]) auto

lemma value_inv_transfer:
  assumes "value_inv app0 app"
  shows "value_inv app0 (app\<lparr>ap_state := state_step V op (ap_state app)\<rparr>)"
proof -
  let ?st = "ap_state app" and ?st' = "state_step V op (ap_state app)"
  have wf: "state_wf ?st" using assms by (simp add: value_inv_parts staking_wf_def)
  have "staking_wf (ap_staking app, ?st')" "gov_wf (ap_governance app, ?st')"
    using assms staking_wf_more [of "ap_staking app" ?st ?st'] gov_wf_more [of "ap_governance app" ?st ?st']
      state_step_dom state_step_wf [OF wf] by (simp_all add: value_inv_parts)
  moreover have "total_supply (accounts ?st') + fees_logged ?st' = total_supply (accounts ?st) + fees_logged ?st"
    by (rule state_step_conserves [OF wf])
  ultimately show ?thesis using assms by (simp add: value_inv_parts add.assoc add.left_commute add.commute)
qed

lemma adjust_fields [simp]: "txs (adjust_balance a x st) = txs st"
  by (simp add: adjust_balance_def)

definition same_accounts :: "state_keeper \<Rightarrow> state_keeper \<Rightarrow> bool" where
  "same_accounts st st' \<longleftrightarrow> dom (accounts st') = dom (accounts st) \<and> txs st' = txs st"

lemma same_accounts_adjust [simp]: "same_accounts st st" "same_accounts st (adjust_balance a x st)"
  by (simp_all add: same_accounts_def)

lemma stake_frame: "same_accounts st (snd (snd (stake owner amount g t0 t1 t2 id (ps, st))))"
  by (simp add: stake_def Let_def)

lemma unstake_frame: "same_accounts st (snd (snd (unstake owner i now (ps, st))))"
  by (simp add: unstake_def Let_def split: option.splits)

lemma create_proposal_frame: "same_accounts st (snd (snd (create_proposal a title d ty dep t0 t1 id (gk, st))))"
  by (simp add: create_proposal_def Let_def)

lemma cast_vote_frame: "same_accounts st (snd (snd (cast_vote i a opt now t (gk, st))))"
  by (simp add: cast_vote_def Let_def split: option.splits)

lemma process_tick_frame: "same_accounts (snd s) (snd (process_tick order s))"
proof (induction order arbitrary: s)
  case (Cons e order)
  have "same_accounts (snd s) (snd (process_one e s))"
    by (simp add: process_one_def finalize_proposal_def split: option.splits)
  then show ?case using Cons.IH [of "process_one e s"] by (simp add: process_tick_def same_accounts_def)
qed (simp add: process_tick_def)


lemma stake_answered:
  assumes "staking_wf (ps, st)" "fst (stake owner amount g t0 t1 t2 id (ps, st)) \<noteq> Panic"
    and "ps (take 10 owner @ ''_'' @ show_int t0) = None"
  shows "staking_wf (snd (stake owner amount g t0 t1 t2 id (ps, st)))
    \<and> staked_value (snd (stake owner amount g t0 t1 t2 id (ps, st))) = staked_value (ps, st)"
proof (cases "10 \<le> length owner")
  case True
  then show ?thesis using stake_keeps [OF assms(1)] assms(3) by simp
next
  case False
  then show ?thesis
    using assms(1,2) by (cases rule: stake_cases [of amount owner g t0 t1 t2 id ps st]) simp_all
qed

lemma with_staking_value:
  assumes "value_inv app0 app" "with_staking app k = (r, app')"
    and "s = (ap_staking app, ap_state app)"
    and "staking_wf (snd (k s)) \<and> staked_value (snd (k s)) = staked_value s"
    and "same_accounts (ap_state app) (snd (snd (k s)))"
  shows "value_inv app0 app'"
proof -
  obtain r' ps st where k: "k s = (r', ps, st)" by (cases "k s") auto
  show ?thesis
    using value_inv_staking [OF assms(1), of ps st] assms(2-) k by (auto simp: with_staking_def same_accounts_def)
qed

lemma with_governance_value:
  assumes "value_inv app0 app" "with_governance f app k = (r, app')"
    and "s = (ap_governance app, ap_state app)"
    and "gov_wf (snd (k s)) \<and> gov_value (snd (k s)) = gov_value s"
    and "same_accounts (ap_state app) (snd (snd (k s)))"
  shows "value_inv app0 app'"
proof -
  obtain r' gk st where k: "k s = (r', gk, st)" by (cases "k s") auto
  show ?thesis
    using value_inv_governance [OF assms(1), of gk st] assms(2-) k by (auto simp: with_governance_def same_accounts_def)
qed

lemma post_bodyE:
  assumes "post_body flds zero rq app k = (r, app')"
  obtains (refused) "app' = app" | (read) req where "k req = (r, app')"
  using assms by (auto simp: post_body_def split: if_splits option.splits)

lemma with_evmE:
  assumes "with_evm app k = (r, app')"
  obtains (missing) "app' = app" | (ran) ek where "app' = app\<lparr>ap_evm := Some ek\<rparr>"
  using assms by (auto simp: with_evm_def split: option.splits prod.splits)

lemma send_cases:
  assumes "handle_send V env rq app = (r, app')"
  obtains (refused) "app' = app"
  | (asked) "f" t x fee h pk sg now where "app' = app\<lparr>ap_state := state_step V (Signed f t x fee h pk sg now) (ap_state app)\<rparr>"
      "r = answer StateError RTx (fst (signed_transfer V f t x fee h pk sg now (ap_state app)))"
  using assms unfolding handle_send_def
proof (cases rule: post_bodyE)
  case refused
  then show ?thesis by (rule that(1))
next
  case (read req)
  show ?thesis
  proof (cases "sq_signature req = '''' \<or> sq_public_key req = ''''")
    case True
    then show ?thesis using read that(1) by simp
  next
    case False
    then show ?thesis
      using read that(2) [of "sq_from req" "sq_to req" "sq_amount req" "if sq_fee req = 0 then 1000 else sq_fee req"
          "ap_height app" "sq_public_key req" "sq_signature req" "ev_text env"]
      by (auto simp: state_step_def Let_def split: prod.splits if_splits)
  qed
qed

lemma stake_value:
  assumes "value_inv app0 app" "undisturbed env app" "handle_stake env rq app = (r, app')" "r \<noteq> Panic"
  shows "value_inv app0 app'"
  using assms(3) unfolding handle_stake_def
proof (cases rule: post_bodyE)
  case (read req)
  let ?k = "stake (kq_owner req) (kq_amount req) (kq_is_green req) (ev_clock env 0) (ev_clock env 1) (ev_clock env 2) id"
  have u: "ev_mid env = id" "ap_staking app (take 10 (kq_owner req) @ ''_'' @ show_int (ev_clock env 0)) = None"
    using assms(2) by (simp_all add: undisturbed_def)
  have wf: "staking_wf (ap_staking app, ap_state app)" using assms(1) by (simp add: value_inv_parts)
  have k: "with_staking app ?k = (r, app')" using read u(1) by simp
  have "fst (?k (ap_staking app, ap_state app)) \<noteq> Panic"
    using k assms(4) by (auto simp: with_staking_def split: prod.splits)
  then show ?thesis
    by (intro with_staking_value [OF assms(1) k refl] stake_answered [OF wf _ u(2)] stake_frame)
qed (use assms(1) in simp)

lemma unstake_value:
  assumes "value_inv app0 app" "handle_unstake env rq app = (r, app')"
  shows "value_inv app0 app'"
  using assms(2) unfolding handle_unstake_def
proof (cases rule: post_bodyE)
  case (read req)
  have wf: "staking_wf (ap_staking app, ap_state app)" using assms(1) by (simp add: value_inv_parts)
  show ?thesis by (intro with_staking_value [OF assms(1) read refl] unstake_keeps [OF wf] unstake_frame)
qed (use assms(1) in simp)

lemma gov_create_value:
  assumes "value_inv app0 app" "undisturbed env app" "handle_gov_create env rq app = (r, app')"
  shows "value_inv app0 app'"
  using assms(3) unfolding handle_gov_create_def
proof (cases rule: post_bodyE)
  case (read req)
  have u: "ev_mid env = id" "proposals (ap_governance app) (next_id (ap_governance app)) = None"
    using assms(2) by (simp_all add: undisturbed_def)
  have wf: "gov_wf (ap_governance app, ap_state app)" using assms(1) by (simp add: value_inv_parts)
  show ?thesis
    by (intro with_governance_value [OF assms(1) read [unfolded u(1)] refl] create_keeps [OF wf u(2)] create_proposal_frame)
qed (use assms(1) in simp)

lemma gov_vote_value:
  assumes "value_inv app0 app" "handle_gov_vote env rq app = (r, app')"
  shows "value_inv app0 app'"
  using assms(2) unfolding handle_gov_vote_def
proof (cases rule: post_bodyE)
  case (read req)
  have wf: "gov_wf (ap_governance app, ap_state app)" using assms(1) by (simp add: value_inv_parts)
  show ?thesis by (intro with_governance_value [OF assms(1) read refl] cast_vote_keeps [OF wf] cast_vote_frame)
qed (use assms(1) in simp)

lemma other_handlers:
  assumes "handle V G env rq e app = (r, app')" "e \<notin> {AtSend, AtStake, AtUnstake, AtGovCreate, AtGovVote}"
  shows "ap_state app' = ap_state app \<and> ap_staking app' = ap_staking app \<and> ap_governance app' = ap_governance app"
  using assms
  by (cases e) (auto simp: read_handler_defs write_handler_defs Let_def elim!: post_bodyE with_evmE
      split: prod.splits if_splits option.splits res.splits)

lemma handle_value:
  assumes "value_inv app0 app" "undisturbed env app" "handle V G env rq e app = (r, app')" "r \<noteq> Panic"
  shows "value_inv app0 app'"
proof (cases "e \<in> {AtSend, AtStake, AtUnstake, AtGovCreate, AtGovVote}")
  case True
  then consider "e = AtSend" | "e = AtStake" | "e = AtUnstake" | "e = AtGovCreate" | "e = AtGovVote" by blast
  then show ?thesis
  proof cases
    case 1
    with assms(3) have "handle_send V env rq app = (r, app')" by simp
    then show ?thesis by (cases rule: send_cases) (use assms(1) in \<open>simp_all add: value_inv_transfer\<close>)
  qed (use assms in \<open>auto intro: stake_value unstake_value gov_create_value gov_vote_value\<close>)
next
  case False
  from other_handlers [OF assms(3) False] show ?thesis using assms(1) by (simp add: value_inv_parts)
qed


lemma grows_from_pool: "grows_from s0 s \<Longrightarrow> mempool_wf mp \<Longrightarrow> grows_from s0 (s\<lparr>bft_pool := mp\<rparr>)"
  by (simp add: grows_from_def)

lemma grows_from_wf: "grows_from s0 s \<Longrightarrow> mempool_wf (bft_pool s)"
  by (simp add: grows_from_def)

lemma shared_inv_pool: "shared_inv app0 app \<Longrightarrow> mempool_wf (ap_pool app)"
  by (auto simp: shared_inv_def ap_pool_def intro: grows_from_wf)

lemma mempool_submit_shared:
  assumes "shared_inv app0 app" "handle_mempool_submit env rq app = (r, app')"
  shows "shared_inv app0 app'"
  using assms(2) unfolding handle_mempool_submit_def
proof (cases rule: post_bodyE)
  case (read req)
  have "mempool_wf (ap_pool app)" by (rule shared_inv_pool [OF assms(1)])
  then show ?thesis
    using read assms(1) mempool_wf_submit [of "ap_pool app"]
    by (auto simp: shared_inv_def split: prod.splits intro!: grows_from_pool) (metis snd_conv)
qed (use assms(1) in simp)

lemma p2p_connect_shared:
  assumes "shared_inv app0 app" "undisturbed env app" "handle_p2p_connect env rq app = (r, app')"
  shows "shared_inv app0 app'"
  using assms(3) unfolding handle_p2p_connect_def
proof (cases rule: post_bodyE)
  case (read address)
  then show ?thesis
    using assms(1,2) by (auto simp: shared_inv_def connect_def undisturbed_def p2p_inv_open split: option.splits prod.splits)
qed (use assms(1) in simp)

lemma other_handlers_shared:
  assumes "handle V G env rq e app = (r, app')" "e \<notin> {AtMempoolSubmit, AtP2PConnect}"
  shows "ap_bft app' = ap_bft app \<and> ap_p2p app' = ap_p2p app"
  using assms
  by (cases e) (auto simp: read_handler_defs write_handler_defs with_staking_def with_governance_def Let_def
      elim!: post_bodyE with_evmE split: prod.splits if_splits option.splits res.splits)

lemma handle_shared:
  assumes "shared_inv app0 app" "undisturbed env app" "handle V G env rq e app = (r, app')"
  shows "shared_inv app0 app'"
proof (cases "e \<in> {AtMempoolSubmit, AtP2PConnect}")
  case True
  then show ?thesis using assms by (auto intro: mempool_submit_shared p2p_connect_shared)
next
  case False
  from other_handlers_shared [OF assms(3) False] show ?thesis using assms(1) by (simp add: shared_inv_def)
qed

lemma run_one_bft:
  assumes "run_one now app = (Ok (), app')"
  shows "bft_step marshal (ap_bft app) (ap_bft app')" "ap_state app' = ap_state app"
    "ap_staking app' = ap_staking app" "ap_governance app' = ap_governance app" "ap_p2p app' = ap_p2p app"
  using assms by (auto simp: run_one_def Let_def split: prod.splits res.splits intro: step_start)

lemma serveE:
  assumes "serve V G env rq app = Handler (r, app')"
  obtains e where "mux routes (rq_path rq) = Handler e" "handle V G env rq e app = (r, app')"
  using assms by (auto simp: serve_def split: routed.splits)

lemma node_step_keeps:
  assumes "node_step V G marshal codec app app'" "value_inv app0 app" "shared_inv app0 app"
  shows "value_inv app0 app' \<and> shared_inv app0 app'"
  using assms(1)
proof (cases rule: node_step.cases)
  case (request env rq r)
  from request(2) obtain e where "handle V G env rq e app = (r, app')" by (rule serveE)
  then show ?thesis using handle_value handle_shared request(1,3) assms(2,3) by blast
next
  case (reward order)
  have "staking_wf (ap_staking app, ap_state app)" using assms(2) by (simp add: value_inv_parts)
  from reward_tick_keeps [OF this] have "value_inv app0 (app\<lparr>ap_staking := reward_tick order (ap_staking app), ap_state := ap_state app\<rparr>)"
    by (intro value_inv_staking [OF assms(2)]) simp_all
  then show ?thesis using reward assms(3) by simp
next
  case (close_proposals order gk st)
  have wf: "gov_wf (ap_governance app, ap_state app)" using assms(2) by (simp add: value_inv_parts)
  have "value_inv app0 app'"
    unfolding close_proposals(1)
    using process_tick_keeps [OF wf, of order] process_tick_frame [of "(ap_governance app, ap_state app)" order] close_proposals(2)
    by (intro value_inv_governance [OF assms(2)]) (simp_all add: same_accounts_def)
  then show ?thesis using close_proposals assms(3) by simp
next
  case (round now)
  show ?thesis
    using run_one_bft(2-) [OF round] grows_from_step [OF run_one_bft(1) [OF round, of marshal]] assms(2,3)
    by (auto simp: value_inv_parts shared_inv_def)
next
  case (engine bft)
  then show ?thesis using assms(2,3) by (auto simp: shared_inv_def intro: grows_from_step)
next
  case (network n mp)
  have "p2p_inv n \<and> mempool_wf mp"
    using p2p_inv_step [OF network(2)] shared_inv_pool [OF assms(3)] assms(3) by (simp add: shared_inv_def)
  then show ?thesis using network(1) assms(2,3) by (simp add: shared_inv_def grows_from_pool)
qed

lemma node_run_keeps:
  assumes "node_run V G marshal codec app0 app" "value_inv app0 app0" "shared_inv app0 app0"
  shows "value_inv app0 app \<and> shared_inv app0 app"
  using assms by (induction rule: node_run.induct) (auto dest: node_step_keeps)

lemma start_invariants:
  assumes "app_wf app" "chain_good (ap_chain app)" "mempool_wf (ap_pool app)" "p2p_inv (ap_p2p app)"
  shows "value_inv app app" "shared_inv app app"
  using assms by (auto simp: value_inv_def shared_inv_def grows_from_def ap_chain_def ap_pool_def)

lemma fresh_invariants:
  assumes "app = new_nuvex_app marshal unmarshal None None db"
  shows "value_inv app app" "shared_inv app app" "value_with_fees app = 525000000000000"
proof -
  have wf: "app_wf app" unfolding assms by (rule app_wf_new) (simp add: fresh_state fresh_wf)
  have c: "ap_chain app = new_blockchain marshal unmarshal None" "ap_pool app = new_mempool"
    "ap_p2p app = new_p2p_node (node_id_of founder_address)"
    by (simp_all add: assms ap_chain_def ap_pool_def new_nuvex_app_def new_bft_def Let_def)
  show "value_inv app app" "shared_inv app app"
    using start_invariants [OF wf] chain_good_new [of marshal unmarshal] mempool_wf_new p2p_inv_new by (simp_all add: c)
  have "total_supply fresh_accounts = 525000000000000"
    unfolding total_supply_def dom_fresh sum_over_def by (simp add: fresh_accounts_def fresh_account_def)
  then show "value_with_fees app = 525000000000000"
    by (simp add: value_with_fees_def app_value_def assms fresh_state fees_logged_def new_staking_def new_governance_def)
qed


section \<open>Routing\<close>

lemma routes_canonical: "list_all canonical (map fst routes)"
  by code_simp

lemma routes_distinct: "distinct (map fst routes)"
  by (simp add: routes_def)

lemma routes_subtrees: "filter (\<lambda>e. last (fst e) = CHR ''/'') routes = [(''/block/'', AtBlock), (''/balance/'', AtBalance)]"
  by (simp add: routes_def)

lemma routes_no_clash: "p @ ''/'' \<in> fst ` set routes \<Longrightarrow> p = ''/block'' \<or> p = ''/balance''"
  by (auto simp: routes_def append_eq_Cons_conv Cons_eq_append_conv)

lemma mux_registered: "(p, e) \<in> set routes \<Longrightarrow> mux routes p = Handler e"
  using routes_canonical map_of_is_SomeI [OF routes_distinct, of p e]
  by (auto simp: mux_def list_all_iff)

lemma below_routes:
  "filter (\<lambda>e. below (fst e) p) routes
     = filter (\<lambda>e. take (length (fst e)) p = fst e) [(''/block/'', AtBlock), (''/balance/'', AtBalance)]"
proof -
  have n: "fst e \<noteq> []" if "e \<in> set routes" for e using that by (auto simp: routes_def)
  have "filter (\<lambda>e. below (fst e) p) routes
      = filter (\<lambda>e. take (length (fst e)) p = fst e) (filter (\<lambda>e. last (fst e) = CHR ''/'') routes)"
    unfolding filter_filter by (rule filter_cong) (use n in \<open>auto simp: below_def\<close>)
  then show ?thesis by (simp only: routes_subtrees)
qed

lemma mux_handler_cases:
  assumes "mux routes p = Handler e"
  obtains (exact) "(p, e) \<in> set routes"
  | (block) "e = AtBlock" "take 7 p = ''/block/''" "p \<notin> fst ` set routes"
  | (balance) "e = AtBalance" "take 9 p = ''/balance/''" "p \<notin> fst ` set routes"
proof (cases "map_of routes p")
  case (Some e')
  then have "e' = e" using assms by (auto simp: mux_def split: if_splits)
  then show ?thesis using Some exact by (auto dest: map_of_SomeD)
next
  case None
  then have l: "\<exists>p'. longest (filter (\<lambda>e. below (fst e) p) routes) = Some (p', e)"
    using assms by (auto simp: mux_def split: if_splits option.splits)
  have n: "p \<notin> fst ` set routes" using None by (simp add: map_of_eq_None_iff)
  show ?thesis
    using l n that(2,3) unfolding below_routes by (auto simp: longest_def eval_nat_numeral split: if_splits)
qed

lemma mux_exact_path:
  "mux routes p = Handler e \<Longrightarrow> e \<noteq> AtBlock \<Longrightarrow> e \<noteq> AtBalance \<Longrightarrow> (p, e) \<in> set routes"
  by (cases rule: mux_handler_cases) auto

lemma canonical_under_block:
  assumes "CHR ''/'' \<notin> set s" "s \<notin> {''.'', ''..''}"
  shows "path_parts (''/block/'' @ s) = ['''', ''block'', s]" "canonical (''/block/'' @ s)"
proof -
  have p: "path_parts s = [s]" using assms(1) by (induction s) auto
  then show "path_parts (''/block/'' @ s) = ['''', ''block'', s]" by simp
  then show "canonical (''/block/'' @ s)" using assms(2) by (simp add: canonical_def)
qed

lemma mux_block:
  assumes "CHR ''/'' \<notin> set s" "s \<notin> {''.'', ''..'', ''latest''}"
  shows "mux routes (''/block/'' @ s) = Handler AtBlock"
proof -
  let ?p = "''/block/'' @ s"
  have c: "canonical ?p" using assms canonical_under_block(2) [of s] by simp
  have "map_of routes ?p = None \<or> map_of routes ?p = Some AtBlock"
    using assms(2) by (simp add: routes_def)
  moreover have "longest (filter (\<lambda>e. below (fst e) ?p) routes) = Some (''/block/'', AtBlock)"
    unfolding below_routes by (simp add: longest_def)
  ultimately show ?thesis using c by (auto simp: mux_def)
qed

section \<open>Numbers in requests\<close>

lemma all_digits_show [simp]: "all_digits (show_nat n)"
  using show_nat_digits by (simp add: all_digits_def)

lemma parse_show_u64 [simp]: "parse_uint64 (show_u64 w) = Some w"
  using unsigned_less [of w, where 'a = nat] by (simp add: parse_uint64_def show_u64_def read_show_nat)

lemma digits_no_sign: "hd (show_nat n) \<noteq> CHR ''-''" "hd (show_nat n) \<noteq> CHR ''+''" "CHR ''/'' \<notin> set (show_nat n)"
  using show_nat_digits [of "hd (show_nat n)" n] show_nat_digits [of "CHR ''/''" n]
  by (auto simp: is_digit_def)

lemma parse_show_i64 [simp]: "parse_int64 (show_i64 w) = Some w"
proof -
  have b: "- (2 ^ 63) \<le> sint w" "sint w < 2 ^ 63" using sint64_bounds [of w] by simp_all
  show ?thesis
    using b digits_no_sign [of "nat (sint w)"]
    by (cases "sint w < 0") (simp_all add: parse_int64_def show_i64_def show_int_def read_show_nat)
qed

lemma show_i64_path: "CHR ''/'' \<notin> set (show_i64 w)" "show_i64 w \<notin> {''.'', ''..'', ''latest''}"
proof -
  show "CHR ''/'' \<notin> set (show_i64 w)" using digits_no_sign(3) by (auto simp: show_i64_def show_int_def)
  have "parse_int64 ''.'' = None" "parse_int64 ''..'' = None" "parse_int64 ''latest'' = None"
    by (simp_all add: parse_int64_def all_digits_def is_digit_def)
  then show "show_i64 w \<notin> {''.'', ''..'', ''latest''}" using parse_show_i64 [of w] by (auto simp del: parse_show_i64)
qed


section \<open>What a request may change\<close>

lemma not_post:
  "rq_method rq \<noteq> ''POST'' \<Longrightarrow> post_body flds zero rq app k = (Err PostRequired, app)"
  by (simp add: post_body_def)

lemma with_evm_same:
  assumes "with_evm app (\<lambda>ek. (f ek, ek)) = (r, app')"
  shows "app' = app"
  using assms by (auto simp: with_evm_def split: option.splits)

lemma handle_not_post:
  assumes "handle V G env rq e app = (r, app')" "rq_method rq \<noteq> ''POST''"
  shows "app' = app\<lparr>ap_engine := ap_engine app'\<rparr> \<and> (e \<noteq> AtMining \<longrightarrow> app' = app)"
  using assms
  by (cases e) (auto simp: read_handler_defs write_handler_defs Let_def not_post dest!: with_evm_same
      split: prod.splits if_splits option.splits res.splits)

lemma gov_vote_state:
  assumes "handle_gov_vote env rq app = (r, app')"
  shows "ap_state app' = ap_state app"
  using assms unfolding handle_gov_vote_def
proof (cases rule: post_bodyE)
  case (read req)
  then show ?thesis
    by (auto simp: with_governance_def cast_vote_def Let_def split: prod.splits option.splits if_splits)
qed simp

lemma state_changes_at:
  assumes "handle V G env rq e app = (r, app')" "ap_state app' \<noteq> ap_state app"
  shows "e \<in> {AtSend, AtStake, AtUnstake, AtGovCreate}"
proof (rule ccontr)
  assume e: "e \<notin> {AtSend, AtStake, AtUnstake, AtGovCreate}"
  show False
  proof (cases "e = AtGovVote")
    case True
    then show ?thesis using gov_vote_state [of env rq app r app'] assms by simp
  next
    case False
    then show ?thesis using other_handlers [OF assms(1)] e assms(2) by simp
  qed
qed

text \<open>A signed transfer that changes the state has verified a signature under a key of the sender.\<close>

lemma signed_transfer_changes:
  assumes "snd (signed_transfer V f t x fee h pk sg now sk) \<noteq> sk"
  shows "\<exists>n. verify_signature V pk \<lparr>pl_from = f, pl_to = t, pl_amount = x, pl_fee = fee, pl_nonce = n\<rparr> sg = Ok ()
    \<and> address_from_public_key pk = Ok f"
  using assms by (auto simp: signed_transfer_def Let_def split: option.splits res.splits if_splits)

lemma state_step_others:
  "a \<noteq> op_from op \<Longrightarrow> a \<noteq> op_to op \<Longrightarrow> get_balance a (state_step V op sk) = get_balance a sk"
  by (cases rule: state_step_cases [of V op sk]) (auto simp: get_balance_bal bal_move_funds domI)

text \<open>Exact patterns: the path of the request is the pattern.\<close>

lemma write_paths:
  assumes "mux routes p = Handler e" "e \<in> {AtSend, AtStake, AtUnstake, AtGovCreate}"
  shows "(p, e) \<in> {(''/tx/send'', AtSend), (''/staking/stake'', AtStake), (''/staking/unstake'', AtUnstake),
    (''/governance/create'', AtGovCreate)}"
proof -
  have "(p, e) \<in> set routes" using assms by (intro mux_exact_path) auto
  then show ?thesis using assms(2) by (auto simp: routes_def)
qed

section \<open>Concrete requests\<close>

definition post_request :: "string \<Rightarrow> (string \<times> json) list \<Rightarrow> http_request" where
  "post_request p kvs = \<lparr>rq_method = ''POST'', rq_path = p, rq_query = (\<lambda>_. ''''), rq_body = Some (JObj kvs)\<rparr>"

lemma serve_registered:
  "(rq_path rq, e) \<in> set routes \<Longrightarrow> serve V G env rq app = Handler (handle V G env rq e app)"
  by (simp add: serve_def mux_registered)

lemma serve_stake:
  "serve V G env (post_request ''/staking/stake'' [(''owner'', JStr owner), (''amount'', JNum (show_u64 x))]) app
     = Handler (with_staking app (stake owner x False (ev_clock env 0) (ev_clock env 1) (ev_clock env 2) (ev_mid env)))"
proof -
  have "(''/staking/stake'', AtStake) \<in> set routes" by (simp add: routes_def)
  then show ?thesis
    by (simp add: serve_registered [where e = AtStake] post_request_def handle_stake_def post_body_def decode_struct_def
        store_value_def find_field_def stake_fields_def field_def stake_zero_def)
qed

lemma serve_gov_create:
  "serve V G env (post_request ''/governance/create'' [(''proposer'', JStr victim), (''deposit'', JNum (show_u64 x))]) app
     = Handler (with_governance RProposal app (create_proposal victim '''' '''' '''' x (ev_clock env 0) (ev_clock env 1) (ev_mid env)))"
proof -
  have "(''/governance/create'', AtGovCreate) \<in> set routes" by (simp add: routes_def)
  then show ?thesis
    by (simp add: serve_registered [where e = AtGovCreate] post_request_def handle_gov_create_def post_body_def decode_struct_def
        store_value_def find_field_def create_fields_def field_def create_zero_def)
qed

definition demo_env :: api_env where
  "demo_env = \<lparr>ev_clock = (\<lambda>_. 7), ev_text = ''t'', ev_order = [], ev_order2 = [], ev_ids = [], ev_mid = id,
     ev_dialed = None, ev_write = (\<lambda>_. True)\<rparr>"

text \<open>A node after the founder's coins were staked by a request.\<close>

definition fresh_app :: "nat nuvex_app" where
  "fresh_app = new_nuvex_app (\<lambda>_. []) (\<lambda>_. None) None None (Some 0)"

lemma fresh_app_state: "ap_state fresh_app = \<lparr>accounts = fresh_accounts, txs = [], disk = Some (fresh_accounts, [])\<rparr>"
  "ap_staking fresh_app = Map.empty" "ap_governance fresh_app = new_governance"
  by (simp_all add: fresh_app_def fresh_state new_staking_def)

lemma fresh_app_undisturbed: "undisturbed demo_env fresh_app"
  by (simp add: undisturbed_def demo_env_def fresh_app_state new_governance_def)

lemma fresh_founder: "get_balance founder_address (ap_state fresh_app) = 25000000000000"
  "founder_address \<in> dom (accounts (ap_state fresh_app))" "10 \<le> length founder_address"
  by (simp_all add: fresh_app_state get_balance_def fresh_accounts_def fresh_account_def founder_address_def)

lemma demo_staked:
  obtains p app where "serve V G demo_env
      (post_request ''/staking/stake'' [(''owner'', JStr founder_address), (''amount'', JNum (show_u64 100000000))]) fresh_app
        = Handler (Ok (RPosition p), app)"
    "get_balance founder_address (ap_state app) = 24999900000000"
proof -
  obtain p where p: "stake founder_address 100000000 False 7 7 7 id (ap_staking fresh_app, ap_state fresh_app)
      = (Ok p, [sp_id p \<mapsto> p], adjust_balance founder_address (- 100000000) (ap_state fresh_app))"
    using fresh_founder by (simp add: stake_def Let_def min_stake_def slice_ok_def fresh_app_state(2))
  have "get_balance founder_address (adjust_balance founder_address (- 100000000) (ap_state fresh_app)) = 24999900000000"
    using state_ledger.read_credit [OF fresh_founder(2), of founder_address "- 100000000"] fresh_founder(1) by simp
  then show ?thesis
    using p by (intro that [of p "fresh_app\<lparr>ap_staking := [sp_id p \<mapsto> p],
      ap_state := adjust_balance founder_address (- 100000000) (ap_state fresh_app)\<rparr>"]) (simp_all add: serve_stake with_staking_def demo_env_def)
qed

section \<open>Properties\<close>



text \<open>
  C8: An answer with an error means that nothing happened: whatever the endpoint and the body, the
  application is as it was, the EVM's database included. And a request with another method than POST
  changes nothing at all, except that GET \<open>/mining\<close> recomputes the halving fields of the miner.
\<close>

theorem refused_requests_change_nothing:
  assumes "serve V G env rq app = Handler (r, app')"
  shows "(\<forall>err. r = Err err \<longrightarrow> app' = app)
    \<and> (rq_method rq \<noteq> ''POST'' \<longrightarrow> app' = app\<lparr>ap_engine := ap_engine app'\<rparr> \<and> (rq_path rq \<noteq> ''/mining'' \<longrightarrow> app' = app))"
proof -
  obtain e where e: "mux routes (rq_path rq) = Handler e" "handle V G env rq e app = (r, app')"
    using assms by (rule serveE)
  have "e = AtMining \<Longrightarrow> rq_path rq = ''/mining''"
    using mux_exact_path [OF e(1)] by (auto simp: routes_def)
  then show ?thesis using handle_error [of V G env rq e app] handle_not_post [OF e(2)] e(2) by auto
qed

theorem refused_requests_change_nothing_witness:
  "\<exists>r. serve (\<lambda>_ _ _ _. True) toy_geth demo_env
      ((post_request ''/staking/stake'' [(''owner'', JStr founder_address), (''amount'', JNum (show_u64 5))])) fresh_app
      = Handler (Err (StakingError (BelowMinStake 5)), r) \<and> r = fresh_app"
proof -
  obtain r where r: "serve (\<lambda>_ _ _ _. True) toy_geth demo_env
      (post_request ''/staking/stake'' [(''owner'', JStr founder_address), (''amount'', JNum (show_u64 5))]) fresh_app
      = Handler (Err (StakingError (BelowMinStake 5)), r)"
    unfolding serve_stake by (simp add: with_staking_def stake_def min_stake_def)
  with refused_requests_change_nothing [OF r] show ?thesis by simp
qed

text \<open>
  C3: Only four endpoints move coins, all with POST: \<open>/tx/send\<close>, \<open>/staking/stake\<close>,
  \<open>/staking/unstake\<close> and \<open>/governance/create\<close>. If \<open>/tx/send\<close> changed the state, then a signature was
  verified under a public key whose address is the sender, over sender, receiver, amount, fee and nonce,
  and no third balance changed. The other three ask for no signature.
\<close>

theorem coins_move_at_four_endpoints:
  assumes "serve V G env rq app = Handler (r, app')" "ap_state app' \<noteq> ap_state app"
  shows "rq_method rq = ''POST''
    \<and> rq_path rq \<in> {''/tx/send'', ''/staking/stake'', ''/staking/unstake'', ''/governance/create''}
    \<and> (rq_path rq = ''/tx/send'' \<longrightarrow> (\<exists>payload pk sg. verify_signature V pk payload sg = Ok ()
         \<and> address_from_public_key pk = Ok (pl_from payload)
         \<and> (\<forall>a. a \<notin> {pl_from payload, pl_to payload} \<longrightarrow> get_balance a (ap_state app') = get_balance a (ap_state app))))"
proof -
  obtain e where e: "mux routes (rq_path rq) = Handler e" "handle V G env rq e app = (r, app')"
    using assms(1) by (rule serveE)
  have p: "(rq_path rq, e) \<in> {(''/tx/send'', AtSend), (''/staking/stake'', AtStake), (''/staking/unstake'', AtUnstake),
    (''/governance/create'', AtGovCreate)}"
    by (rule write_paths [OF e(1) state_changes_at [OF e(2) assms(2)]])
  have m: "rq_method rq = ''POST''"
  proof (rule ccontr)
    assume "rq_method rq \<noteq> ''POST''"
    from handle_not_post [OF e(2) this] p have "app' = app" by auto
    then show False using assms(2) by simp
  qed
  have "\<exists>payload pk sg. verify_signature V pk payload sg = Ok () \<and> address_from_public_key pk = Ok (pl_from payload)
      \<and> (\<forall>a. a \<notin> {pl_from payload, pl_to payload} \<longrightarrow> get_balance a (ap_state app') = get_balance a (ap_state app))"
    if "rq_path rq = ''/tx/send''"
  proof -
    from that p e(2) have "handle_send V env rq app = (r, app')" by auto
    then show ?thesis
    proof (cases rule: send_cases)
      case (asked f t x fee h pk sg now)
      have "snd (signed_transfer V f t x fee h pk sg now (ap_state app)) \<noteq> ap_state app"
        using asked(1) assms(2) by (simp add: state_step_def)
      from signed_transfer_changes [OF this] obtain n where
        n: "verify_signature V pk \<lparr>pl_from = f, pl_to = t, pl_amount = x, pl_fee = fee, pl_nonce = n\<rparr> sg = Ok ()"
          "address_from_public_key pk = Ok f" by blast
      show ?thesis
        by (rule exI [of _ "\<lparr>pl_from = f, pl_to = t, pl_amount = x, pl_fee = fee, pl_nonce = n\<rparr>"], rule exI [of _ pk], rule exI [of _ sg])
          (use n asked(1) in \<open>auto intro!: state_step_others\<close>)
    qed (use assms(2) in simp)
  qed
  then show ?thesis using p m by auto
qed

theorem coins_move_at_four_endpoints_witness:
  "let rq = post_request ''/staking/stake'' [(''owner'', JStr founder_address), (''amount'', JNum (show_u64 100000000))]
   in \<exists>r app. serve (\<lambda>_ _ _ _. True) toy_geth demo_env rq fresh_app = Handler (r, app)
        \<and> ap_state app \<noteq> ap_state fresh_app \<and> rq_method rq = ''POST''"
proof -
  obtain p app where s: "serve (\<lambda>_ _ _ _. True) toy_geth demo_env
      (post_request ''/staking/stake'' [(''owner'', JStr founder_address), (''amount'', JNum (show_u64 100000000))]) fresh_app
        = Handler (Ok (RPosition p), app)" "get_balance founder_address (ap_state app) = 24999900000000"
    by (rule demo_staked)
  then have "ap_state app \<noteq> ap_state fresh_app" using fresh_founder(1) by auto
  with coins_move_at_four_endpoints [OF s(1) this] s(1) show ?thesis unfolding Let_def by blast
qed

text \<open>
  C9: Anyone can take anyone's coins out of circulation. A POST to \<open>/governance/create\<close> that names a
  victim and an amount, with no key and no signature, debits the victim by that amount (at least
  1000 NVX, at most its whole balance) and nobody else; the request is answered with a proposal in the
  victim's name. Whenever the closing loop looks at that proposal without votes, the coins do not
  come back.
\<close>

theorem unsigned_proposal_takes_balance:
  assumes "rq = post_request ''/governance/create'' [(''proposer'', JStr victim), (''deposit'', JNum (show_u64 x))]"
    and "min_deposit \<le> x" "x \<le> get_balance victim (ap_state app)" "10 \<le> length victim" "ev_mid env = id"
  shows "\<exists>p app'. serve V G env rq app = Handler (Ok (RProposal p), app') \<and> pr_proposer p = victim
    \<and> get_balance victim (ap_state app') = get_balance victim (ap_state app) - x
    \<and> (\<forall>a. a \<noteq> victim \<longrightarrow> get_balance a (ap_state app') = get_balance a (ap_state app))
    \<and> (\<forall>t. snd (process_tick [(pr_id p, t)] (ap_governance app', ap_state app')) = ap_state app')"
proof -
  let ?st = "ap_state app" and ?gk = "ap_governance app"
  have "get_balance victim ?st \<noteq> 0" using assms(2,3) by (auto simp: min_deposit_def word_le_nat_alt)
  then have k: "victim \<in> dom (accounts ?st)" by (rule state_ledger.read_pos_known)
  have n: "\<not> x < min_deposit" "\<not> get_balance victim ?st < x" "slice_ok 10 victim"
    using assms(2-4) by (auto simp: slice_ok_def)
  define p where "p = \<lparr>pr_id = next_id ?gk, pr_title = '''', pr_description = '''', pr_type = '''',
     pr_proposer = victim, pr_deposit = x, pr_status = Voting, pr_start = ev_clock env 0,
     pr_end = ev_clock env 1 + voting_period, pr_votes = [], pr_yes = 0, pr_no = 0, pr_abstain = 0,
     pr_total = 0, pr_passed = False\<rparr>"
  let ?gk' = "\<lparr>proposals = (proposals ?gk)(next_id ?gk \<mapsto> p), next_id = next_id ?gk + 1\<rparr>"
  let ?st' = "adjust_balance victim (- x) ?st"
  have c: "create_proposal victim '''' '''' '''' x (ev_clock env 0) (ev_clock env 1) id (?gk, ?st) = (Ok p, ?gk', ?st')"
    using n k by (simp add: create_proposal_def Let_def p_def)
  have "snd (process_tick [(pr_id p, t)] (?gk', ?st')) = ?st'" for t
    by (simp add: process_tick_def process_one_def finalize_proposal_def quorum_reached_iff p_def)
  moreover have "get_balance victim ?st' = get_balance victim ?st - x"
    using state_ledger.read_credit [OF k, of victim "- x"] by simp
  moreover have "get_balance a ?st' = get_balance a ?st" if "a \<noteq> victim" for a
    using state_ledger.read_other [OF that, of "- x" ?st] by simp
  ultimately show ?thesis
    using c assms(5)
    by (intro exI [of _ p] exI [of _ "app\<lparr>ap_governance := ?gk', ap_state := ?st'\<rparr>"])
      (simp add: assms(1) serve_gov_create with_governance_def p_def)
qed

theorem unsigned_proposal_takes_balance_witness:
  "\<exists>p app'. serve (\<lambda>_ _ _ _. False) toy_geth demo_env (post_request ''/governance/create''
      [(''proposer'', JStr founder_address), (''deposit'', JNum (show_u64 25000000000000))]) fresh_app
        = Handler (Ok (RProposal p), app')
    \<and> get_balance founder_address (ap_state app') = 0"
  using unsigned_proposal_takes_balance [OF refl, of 25000000000000 founder_address fresh_app demo_env
      "\<lambda>_ _ _ _. False" toy_geth] fresh_founder
  by (auto simp: min_deposit_def demo_env_def)

text \<open>
  C10: Every block that a running node has is served under its number: the decimal number in the
  path is read back as the height, the route finds the handler, and the handler finds the block. A number
  without a block is answered with an error, and \<open>/block/latest\<close> has a handler of its own, so the branch of
  \<open>handleBlock\<close> for \<open>latest\<close> is never taken.
\<close>

theorem blocks_served_by_number:
  assumes "node_run V G marshal codec (new_nuvex_app marshal unmarshal None None db) app"
    and "length (blocks (ap_chain app)) \<le> 2 ^ 62"
  shows "(\<forall>i < length (blocks (ap_chain app)). \<forall>rq. rq_path rq = ''/block/'' @ show_nat i \<longrightarrow>
      serve V G env rq app = Handler (Ok (RBlock (Some (blocks (ap_chain app) ! i))), app))
    \<and> (\<forall>h rq. get_block h (ap_chain app) = None \<longrightarrow> rq_path rq = ''/block/'' @ show_i64 h \<longrightarrow>
      serve V G env rq app = Handler (Err BlockMissing, app))
    \<and> (\<forall>p. mux routes p = Handler AtBlock \<longrightarrow> trim_prefix ''/block/'' p \<noteq> ''latest'')"
proof -
  let ?bs = "blocks (ap_chain app)"
  define app0 where "app0 = new_nuvex_app marshal unmarshal None None db"
  note f = fresh_invariants [OF app0_def]
  have v: "shared_inv app0 app" using node_run_keeps [OF assms(1) [folded app0_def] f(1,2)] by simp
  have "blocks (bft_chain (ap_bft app0)) = [sealed genesis_header]"
    by (simp add: app0_def new_nuvex_app_def new_bft_def Let_def new_blockchain_None)
  then obtain new where bs: "?bs = sealed genesis_header # new" "chain_good (ap_chain app)"
    using v by (auto simp: shared_inv_def grows_from_def ap_chain_def)
  have served: "serve V G env rq app = Handler (case get_block h (ap_chain app) of
      None \<Rightarrow> (Err BlockMissing, app) | Some b \<Rightarrow> (Ok (RBlock (Some b)), app))"
    if "rq_path rq = ''/block/'' @ show_i64 h" for rq h
    using that show_i64_path [of h] mux_block [of "show_i64 h"]
    by (simp add: serve_def handle_block_def trim_prefix_def Let_def)
  have "get_block (of_nat i) (ap_chain app) = Some (?bs ! i) \<and> show_i64 (of_nat i) = show_nat i" if i: "i < length ?bs" for i
  proof -
    have "linked ?bs" using bs(2) by (simp add: chain_good_def validate_chain_def validate_blocks_Ok linked_nth)
    then have "\<forall>j<length ?bs. b_height (?bs ! j) = 0 + of_nat j"
      using linked_height [of ?bs] bs(1) by (simp add: genesis_header_def sealed_def)
    then have "find_height (0 + of_nat i) ?bs = Some (?bs ! i)"
      using i assms(2) by (intro find_height_nth) simp_all
    moreover have "sint (of_nat i :: i64) = int i" using i assms(2) by (intro sint_of_nat_small) simp
    ultimately show ?thesis by (simp add: get_block_def show_i64_def show_int_def)
  qed
  then have "serve V G env rq app = Handler (Ok (RBlock (Some (?bs ! i))), app)"
    if "i < length ?bs" "rq_path rq = ''/block/'' @ show_nat i" for i rq
    using served [of rq "of_nat i"] that by auto
  moreover have "trim_prefix ''/block/'' p \<noteq> ''latest''" if "mux routes p = Handler AtBlock" for p
    using that
  proof (cases rule: mux_handler_cases)
    case exact
    then show ?thesis by (auto simp: routes_def trim_prefix_def)
  next
    case block
    have "p = ''/block/latest''" if "trim_prefix ''/block/'' p = ''latest''"
      using that block(2) append_take_drop_id [of 7 p] by (simp add: trim_prefix_def eval_nat_numeral)
    moreover have "''/block/latest'' \<in> fst ` set routes" by (simp add: routes_def)
    ultimately show ?thesis using block(3) by auto
  qed simp
  ultimately show ?thesis using served by auto
qed


theorem blocks_served_by_number_witness:
  "serve (\<lambda>_ _ _ _. True) toy_geth demo_env (post_request ''/block/0'' []) fresh_app
     = Handler (Ok (RBlock (Some (sealed genesis_header))), fresh_app)"
proof -
  have b: "blocks (ap_chain fresh_app) = [sealed genesis_header]"
    by (simp add: fresh_app_def ap_chain_def new_nuvex_app_def new_bft_def Let_def new_blockchain_None)
  have z: "rq_path (post_request ''/block/0'' []) = ''/block/'' @ show_nat 0"
    by (simp add: show_nat.simps post_request_def digit_char_def char_of_def bit_simps)
  have r: "node_run (\<lambda>_ _ _ _. True) toy_geth (\<lambda>_. []) demo_codec
      (new_nuvex_app (\<lambda>_. []) (\<lambda>_. None) None None (Some 0)) fresh_app"
    unfolding fresh_app_def by (rule run_start)
  show ?thesis
    using blocks_served_by_number [OF r, where env = demo_env] z b by simp
qed

end
