(* ===== verification/Nuvex_Coins.thy ===== *)
theory Nuvex_Coins
  imports Nuvex_Server
begin

text \<open>
  What the node promises about coins, as an abstract machine, and the proof that the node implements it.
  The machine knows for every address a purse, a stake and a deposit, and for all together the rewards
  paid and the fees taken; it has five actions. Every step of the whole node (Nuvex_Server) is a
  sequence of such actions on what the keepers' records amount to.
\<close>

section \<open>The machine\<close>

record coins =
  co_purse :: "string \<Rightarrow> i64"
  co_stake :: "string \<Rightarrow> i64"
  co_deposit :: "string \<Rightarrow> i64"
  co_rewards :: i64
  co_fees :: i64

datatype coin_action =
    Send string string i64 i64
  | Lock string u64
  | Release string u64 u64
  | Deposit string u64
  | Refund string u64

fun allowed :: "coin_action \<Rightarrow> coins \<Rightarrow> bool" where
  "allowed (Send f t x fee) c = (\<not> co_purse c f <s x + fee)"
| "allowed (Lock a x) c = (min_stake \<le> x \<and> x \<le> co_purse c a)"
| "allowed (Release a x r) c = (min_stake \<le> x)"
| "allowed (Deposit a x) c = (min_deposit \<le> x \<and> x \<le> co_purse c a)"
| "allowed (Refund a x) c = (min_deposit \<le> x)"

fun perform :: "coin_action \<Rightarrow> coins \<Rightarrow> coins" where
  "perform (Send f t x fee) c =
     c\<lparr>co_purse := (\<lambda>a. co_purse c a - (if a = f then x + fee else 0) + (if a = t then x else 0)),
       co_fees := co_fees c + fee\<rparr>"
| "perform (Lock a x) c =
     c\<lparr>co_purse := (co_purse c)(a := co_purse c a - x), co_stake := (co_stake c)(a := co_stake c a + x)\<rparr>"
| "perform (Release a x r) c =
     c\<lparr>co_purse := (co_purse c)(a := co_purse c a + (x + r)), co_stake := (co_stake c)(a := co_stake c a - x),
       co_rewards := co_rewards c + r\<rparr>"
| "perform (Deposit a x) c =
     c\<lparr>co_purse := (co_purse c)(a := co_purse c a - x), co_deposit := (co_deposit c)(a := co_deposit c a + x)\<rparr>"
| "perform (Refund a x) c =
     c\<lparr>co_purse := (co_purse c)(a := co_purse c a + x), co_deposit := (co_deposit c)(a := co_deposit c a - x)\<rparr>"

inductive coin_run :: "coins \<Rightarrow> coins \<Rightarrow> bool" where
  rest: "coin_run c c"
| act: "coin_run c c' \<Longrightarrow> allowed a c' \<Longrightarrow> coin_run c (perform a c')"

lemma coin_run_one: "allowed a c \<Longrightarrow> coin_run c (perform a c)"
  by (rule act [OF rest])

lemma coin_run_trans: "coin_run b c \<Longrightarrow> coin_run a b \<Longrightarrow> coin_run a c"
  by (induction rule: coin_run.induct) (auto intro: coin_run.intros)

section \<open>Simulation\<close>

text \<open>What it takes for a program to implement a machine: every step keeps an invariant, and under the
  invariant it is a run of the machine on what the state amounts to. Whole runs follow.\<close>

locale simulation =
  fixes step :: "'c \<Rightarrow> 'c \<Rightarrow> bool"
    and good :: "'c \<Rightarrow> bool"
    and view :: "'c \<Rightarrow> 'a"
    and run :: "'a \<Rightarrow> 'a \<Rightarrow> bool"
  assumes run_refl: "run a a"
    and run_trans: "run b c \<Longrightarrow> run a b \<Longrightarrow> run a c"
    and good_step: "step s s' \<Longrightarrow> good s \<Longrightarrow> good s'"
    and view_step: "step s s' \<Longrightarrow> good s \<Longrightarrow> run (view s) (view s')"
begin

lemma good_steps: "step\<^sup>*\<^sup>* s s' \<Longrightarrow> good s \<Longrightarrow> good s'"
  by (induction rule: rtranclp_induct) (auto intro: good_step)

lemma view_steps: "step\<^sup>*\<^sup>* s s' \<Longrightarrow> good s \<Longrightarrow> run (view s) (view s')"
  by (induction rule: rtranclp_induct) (auto intro: run_refl run_trans view_step good_steps)

end

section \<open>What the records of the keepers amount to\<close>

definition stake_of :: "string \<Rightarrow> positions \<Rightarrow> i64" where
  "stake_of a ps = sum_over (\<lambda>p. if sp_active p \<and> sp_owner p = a then sp_amount p else 0) ps"

definition deposit_of :: "string \<Rightarrow> governance \<Rightarrow> i64" where
  "deposit_of a gk = sum_over (\<lambda>p. if pr_proposer p = a then held p else 0) (proposals gk)"

definition coins_in :: "positions \<Rightarrow> governance \<Rightarrow> state_keeper \<Rightarrow> coins" where
  "coins_in ps gk st =
     \<lparr>co_purse = (\<lambda>a. get_balance a st), co_stake = (\<lambda>a. stake_of a ps), co_deposit = (\<lambda>a. deposit_of a gk),
      co_rewards = rewards_minted ps, co_fees = fees_logged st\<rparr>"

definition coins_of :: "'d nuvex_app \<Rightarrow> coins" where
  "coins_of app = coins_in (ap_staking app) (ap_governance app) (ap_state app)"

lemma purse_adjust:
  "b \<in> dom (accounts st) \<Longrightarrow>
     (\<lambda>a. get_balance a (adjust_balance b x st)) = (\<lambda>a. get_balance a st)(b := get_balance b st + x)"
  by (rule ext) (simp add: state_ledger.read_credit)

lemma fees_adjust [simp]: "fees_logged (adjust_balance a x st) = fees_logged st"
  by (simp add: fees_logged_def)

section \<open>Transfers\<close>

lemma coins_transfer: "coin_run (coins_in ps gk st) (coins_in ps gk (state_step V op st))"
proof (cases rule: state_step_cases [of V op st])
  case same
  then show ?thesis by (simp add: rest)
next
  case (moved acc tx)
  let ?a = "Send (op_from op) (op_to op) (op_amount op) (op_fee op)"
  have k: "op_from op \<in> dom (accounts st)" and b: "get_balance (op_from op) st = acc_balance acc"
    using moved(1) by (auto simp: get_balance_def)
  have "coins_in ps gk (state_step V op st) = perform ?a (coins_in ps gk st)"
    using k moved(3,5) by (simp add: coins_in_def get_balance_bal bal_move_funds fees_logged_def)
  moreover have "allowed ?a (coins_in ps gk st)" using moved(2) b by (simp add: coins_in_def)
  ultimately show ?thesis using coin_run_one by metis
qed

section \<open>Staking\<close>

lemma coins_stake:
  assumes "staking_wf (ps, st)" "fst (stake owner x g t0 t1 t2 id (ps, st)) \<noteq> Panic"
    and "ps (take 10 owner @ ''_'' @ show_int t0) = None"
    and "stake owner x g t0 t1 t2 id (ps, st) = (r, ps', st')"
  shows "coin_run (coins_in ps gk st) (coins_in ps' gk st')"
proof (cases rule: stake_cases [of x owner g t0 t1 t2 id ps st])
  case (staked p)
  have k: "owner \<in> dom (accounts st)" and n: "ps (sp_id p) = None" "finite (dom ps)"
    using staked(4,5) assms(1,3) by (simp_all add: staking_wf_def)
  have f: "sp_amount p = x" "sp_owner p = owner" "sp_active p" using staked(5) by simp_all
  have s: "ps' = ps(sp_id p \<mapsto> p)" "st' = adjust_balance owner (- x) st" using staked(6) assms(4) by simp_all
  have "stake_of a ps' = stake_of a ps + (if a = owner then x else 0)" for a
    by (simp add: s(1) stake_of_def sum_over_insert [OF n(2,1)] f)
  moreover have "rewards_minted ps' = rewards_minted ps"
    by (simp add: s(1) rewards_minted_def sum_over_insert [OF n(2,1)] f)
  ultimately have "coins_in ps' gk st' = perform (Lock owner x) (coins_in ps gk st)"
    using k by (simp add: coins_in_def s(2) purse_adjust fun_eq_iff)
  moreover have "allowed (Lock owner x) (coins_in ps gk st)" using staked(1,2) by (simp add: coins_in_def)
  ultimately show ?thesis using coin_run_one by metis
qed (use assms(2,4) in \<open>auto intro: rest\<close>)

lemma coins_unstake:
  assumes "staking_wf (ps, st)" "unstake owner i now (ps, st) = (r, ps', st')"
  shows "coin_run (coins_in ps gk st) (coins_in ps' gk st')"
proof (cases "\<exists>p. ps i = Some p \<and> sp_owner p = owner \<and> sp_active p")
  case True
  then obtain p where p: "ps i = Some p" "sp_owner p = owner" "sp_active p" by blast
  have ok: "position_ok (dom (accounts st)) i p" and fin: "finite (dom ps)"
    using assms(1) p(1) by (simp_all add: staking_wf_def)
  let ?p2 = "(snd (calculate_rewards now p))\<lparr>sp_active := False\<rparr>" and ?r = "sp_rewards (snd (calculate_rewards now p))"
  have k: "owner \<in> dom (accounts st)" using ok p(2) by (simp add: position_ok_def)
  have u: "ps' = ps(i \<mapsto> ?p2)" "st' = adjust_balance owner (sp_amount p + ?r) st"
    using assms(2) p k by (auto simp: unstake_def Let_def)
  have "stake_of a ps' = stake_of a ps - (if a = owner then sp_amount p else 0)" for a
    using p by (auto simp: u(1) stake_of_def sum_over_update [OF fin p(1)])
  moreover have "rewards_minted ps' = rewards_minted ps + ?r"
    using p by (simp add: u(1) rewards_minted_def sum_over_update [OF fin p(1)])
  ultimately have "coins_in ps' gk st' = perform (Release owner (sp_amount p) ?r) (coins_in ps gk st)"
    using k by (simp add: coins_in_def u(2) purse_adjust fun_eq_iff)
  moreover have "allowed (Release owner (sp_amount p) ?r) (coins_in ps gk st)" using ok by (simp add: position_ok_def)
  ultimately show ?thesis using coin_run_one by metis
next
  case False
  then have "ps' = ps" "st' = st" using assms(2) by (auto simp: unstake_def Let_def split: option.splits if_splits)
  then show ?thesis by (simp add: rest)
qed

lemma coins_reward:
  assumes "finite (dom ps)"
  shows "coins_in (reward_tick order ps) gk st = coins_in ps gk st"
  using assms
proof (induction order arbitrary: ps)
  case (Cons e order)
  have "stake_of a (reward_one e ps) = stake_of a ps \<and> rewards_minted (reward_one e ps) = rewards_minted ps" for a
    using Cons.prems by (auto simp: reward_one_def stake_of_def rewards_minted_def sum_over_same split: prod.splits option.splits)
  moreover have "finite (dom (reward_one e ps))"
    using Cons.prems by (auto simp: reward_one_def split: prod.splits option.splits)
  ultimately show ?case using Cons.IH [of "reward_one e ps"] by (simp add: reward_tick_def coins_in_def)
qed (simp add: reward_tick_def)


section \<open>Governance\<close>

lemma coins_create:
  assumes "gov_wf (gk, st)" "proposals gk (next_id gk) = None"
    and "create_proposal a title d ty dep t0 t1 id (gk, st) = (r, gk', st')"
  shows "coin_run (coins_in ps gk st) (coins_in ps gk' st')"
proof (cases "min_deposit \<le> dep \<and> dep \<le> get_balance a st")
  case True
  have "get_balance a st \<noteq> 0" using True by (auto simp: min_deposit_def word_le_nat_alt)
  then have k: "a \<in> dom (accounts st)" by (rule state_ledger.read_pos_known)
  have fin: "finite (dom (proposals gk))" using assms(1) by (simp add: gov_wf_def)
  have n: "\<not> dep < min_deposit" "\<not> get_balance a st < dep" using True by (auto simp: not_less)
  obtain p where p: "proposals gk' = (proposals gk)(next_id gk \<mapsto> p)" "st' = adjust_balance a (- dep) st"
    "pr_proposer p = a" "held p = dep"
    using assms(3) n k by (auto simp: create_proposal_def Let_def held_def)
  have "deposit_of b gk' = deposit_of b gk + (if b = a then dep else 0)" for b
    by (simp add: p(1) deposit_of_def sum_over_insert [OF fin assms(2)] p(3,4))
  then have "coins_in ps gk' st' = perform (Deposit a dep) (coins_in ps gk st)"
    using k by (simp add: coins_in_def p(2) purse_adjust fun_eq_iff)
  moreover have "allowed (Deposit a dep) (coins_in ps gk st)" using True by (simp add: coins_in_def)
  ultimately show ?thesis using coin_run_one by metis
next
  case False
  then have "gk' = gk" "st' = st" using assms(3) by (auto simp: create_proposal_def Let_def not_le split: if_splits)
  then show ?thesis by (simp add: rest)
qed

text \<open>Replacing a proposal by one that holds as much for the same proposer.\<close>

lemma deposit_same:
  assumes "gov_wf (gk, st)" "proposals gk i = Some q" "pr_proposer p = pr_proposer q" "held p = held q"
  shows "deposit_of a (gk\<lparr>proposals := (proposals gk)(i \<mapsto> p)\<rparr>) = deposit_of a gk"
  using assms by (simp add: deposit_of_def gov_wf_def sum_over_same)

lemma coins_vote:
  assumes "gov_wf (gk, st)" "cast_vote i a opt now t (gk, st) = (r, gk', st')"
  shows "coins_in ps gk' st' = coins_in ps gk st"
proof (cases rule: cast_vote_cases [of i a opt now t gk st])
  case (rejected e)
  then show ?thesis using assms(2) by simp
next
  case (counted p v r')
  have s: "gk' = gk\<lparr>proposals := (proposals gk)(i \<mapsto> record_vote v (retract_vote a p))\<rparr>" "st' = st"
    using counted(6) assms(2) by simp_all
  have "deposit_of b gk' = deposit_of b gk" for b
    unfolding s by (rule deposit_same [OF assms(1) counted(1)]) (simp_all add: held_def)
  then show ?thesis by (simp add: coins_in_def s(2))
qed

lemma coins_process_one:
  assumes "gov_wf (gk, st)" "process_one e (gk, st) = (gk', st')"
  shows "coin_run (coins_in ps gk st) (coins_in ps gk' st')"
proof (cases "\<exists>p. proposals gk (fst e) = Some p \<and> pr_status p = Voting \<and> snd e > pr_end p")
  case True
  then obtain p where p: "proposals gk (fst e) = Some p" "pr_status p = Voting" "snd e > pr_end p" by blast
  have ok: "proposal_ok (dom (accounts st)) p" and fin: "finite (dom (proposals gk))"
    using assms(1) p(1) by (simp_all add: gov_wf_def)
  have h: "held p = pr_deposit p" using p(2) by (simp add: held_def)
  have e: "gk' = gk\<lparr>proposals := (proposals gk)(fst e \<mapsto> fst (finalize_proposal p st))\<rparr>"
    "st' = snd (finalize_proposal p st)"
    using assms(2) p by (simp_all add: process_one_def split_beta)
  show ?thesis
  proof (cases rule: finalize_cases [of p st])
    case passed
    let ?a = "pr_proposer p"
    have k: "?a \<in> dom (accounts st)" using ok by (simp add: proposal_ok_def)
    have "deposit_of b gk' = deposit_of b gk - (if b = ?a then pr_deposit p else 0)" for b
      using h by (simp add: e(1) passed(3) deposit_of_def sum_over_update [OF fin p(1)] held_def)
    then have "coins_in ps gk' st' = perform (Refund ?a (pr_deposit p)) (coins_in ps gk st)"
      using k by (simp add: coins_in_def e(2) passed(3) purse_adjust fun_eq_iff)
    moreover have "allowed (Refund ?a (pr_deposit p)) (coins_in ps gk st)" using ok by (simp add: proposal_ok_def)
    ultimately show ?thesis using coin_run_one by metis
  next
    case expired
    have "deposit_of b gk' = deposit_of b gk" for b
      unfolding e expired(2) fst_conv by (rule deposit_same [OF assms(1) p(1)]) (simp_all add: held_def p(2))
    then show ?thesis by (simp add: coins_in_def e(2) expired(2) rest)
  next
    case rejected
    have "deposit_of b gk' = deposit_of b gk" for b
      unfolding e rejected(3) fst_conv by (rule deposit_same [OF assms(1) p(1)]) (simp_all add: held_def p(2))
    then show ?thesis by (simp add: coins_in_def e(2) rejected(3) rest)
  qed
next
  case False
  then have "gk' = gk" "st' = st" using assms(2) by (auto simp: process_one_def split: option.splits)
  then show ?thesis by (simp add: rest)
qed

lemma coins_process:
  assumes "gov_wf (gk, st)" "process_tick order (gk, st) = (gk', st')"
  shows "coin_run (coins_in ps gk st) (coins_in ps gk' st')"
  using assms
proof (induction order arbitrary: gk st)
  case (Cons e order)
  obtain gk1 st1 where 1: "process_one e (gk, st) = (gk1, st1)" by (cases "process_one e (gk, st)")
  have "gov_wf (gk1, st1)" using process_one_keeps [OF Cons.prems(1), of e] 1 by simp
  then have "coin_run (coins_in ps gk1 st1) (coins_in ps gk' st')"
    using Cons.prems(2) 1 by (intro Cons.IH) (simp_all add: process_tick_def)
  then show ?case using coins_process_one [OF Cons.prems(1) 1] coin_run_trans by blast
qed (simp add: process_tick_def rest)

section \<open>The node\<close>

lemma coins_handle:
  assumes "app_wf app" "undisturbed env app" "handle V G env rq e app = (r, app')" "r \<noteq> Panic"
  shows "coin_run (coins_of app) (coins_of app')"
proof -
  let ?ps = "ap_staking app" and ?gk = "ap_governance app" and ?st = "ap_state app"
  have wf: "staking_wf (?ps, ?st)" "gov_wf (?gk, ?st)" using assms(1) by (simp_all add: app_wf_def)
  have u: "ev_mid env = id" "\<And>owner. ?ps (take 10 owner @ ''_'' @ show_int (ev_clock env 0)) = None"
    "proposals ?gk (next_id ?gk) = None"
    using assms(2) by (simp_all add: undisturbed_def)
  show ?thesis
  proof (cases "e \<in> {AtSend, AtStake, AtUnstake, AtGovCreate, AtGovVote}")
    case False
    from other_handlers [OF assms(3) False] show ?thesis by (simp add: coins_of_def rest)
  next
    case True
    then consider "e = AtSend" | "e = AtStake" | "e = AtUnstake" | "e = AtGovCreate" | "e = AtGovVote" by blast
    then show ?thesis
    proof cases
      case 1
      with assms(3) have "handle_send V env rq app = (r, app')" by simp
      then show ?thesis by (cases rule: send_cases) (simp_all add: rest coins_of_def coins_transfer)
    next
      case 2
      with assms(3) have "handle_stake env rq app = (r, app')" by simp
      then show ?thesis unfolding handle_stake_def
      proof (cases rule: post_bodyE)
        case (read req)
        obtain r1 ps' st' where k: "stake (kq_owner req) (kq_amount req) (kq_is_green req) (ev_clock env 0) (ev_clock env 1)
            (ev_clock env 2) id (?ps, ?st) = (r1, ps', st')" by (metis prod_cases3)
        then have a: "app' = app\<lparr>ap_staking := ps', ap_state := st'\<rparr>" "r = answer StakingError RPosition r1"
          using read u(1) by (simp_all add: with_staking_def)
        then have "r1 \<noteq> Panic" using assms(4) by auto
        then show ?thesis using coins_stake [OF wf(1) _ u(2) k] k a(1) by (simp add: coins_of_def)
      qed (simp add: rest)
    next
      case 3
      with assms(3) have "handle_unstake env rq app = (r, app')" by simp
      then show ?thesis unfolding handle_unstake_def
      proof (cases rule: post_bodyE)
        case (read req)
        then show ?thesis
          using coins_unstake [OF wf(1)] by (auto simp: with_staking_def coins_of_def split: prod.splits)
      qed (simp add: rest)
    next
      case 4
      with assms(3) have "handle_gov_create env rq app = (r, app')" by simp
      then show ?thesis unfolding handle_gov_create_def u(1)
      proof (cases rule: post_bodyE)
        case (read req)
        then show ?thesis
          using coins_create [OF wf(2) u(3)] by (auto simp: with_governance_def coins_of_def split: prod.splits)
      qed (simp add: rest)
    next
      case 5
      with assms(3) have "handle_gov_vote env rq app = (r, app')" by simp
      then show ?thesis unfolding handle_gov_vote_def
      proof (cases rule: post_bodyE)
        case (read req)
        obtain r1 gk' st' where k: "cast_vote (vq_proposal req) (vq_voter req) (vq_option req) (ev_clock env 0)
            (ev_clock env 1) (?gk, ?st) = (r1, gk', st')" by (metis prod_cases3)
        then show ?thesis
          using read coins_vote [OF wf(2) k, of ?ps] by (auto simp: with_governance_def coins_of_def rest)
      qed (simp add: rest)
    qed
  qed
qed

lemma coins_node_step:
  assumes "node_step V G marshal codec app app'" "app_wf app"
  shows "coin_run (coins_of app) (coins_of app')"
  using assms(1)
proof (cases rule: node_step.cases)
  case (request env rq r)
  from request(2) obtain e where "handle V G env rq e app = (r, app')" by (rule serveE)
  then show ?thesis using coins_handle assms(2) request(1,3) by blast
next
  case (reward order)
  have "finite (dom (ap_staking app))" using assms(2) by (simp add: app_wf_def staking_wf_def)
  then show ?thesis using reward coins_reward by (simp add: coins_of_def rest)
next
  case (close_proposals order gk st)
  have "gov_wf (ap_governance app, ap_state app)" using assms(2) by (simp add: app_wf_def)
  from coins_process [OF this close_proposals(2)] show ?thesis using close_proposals(1) by (simp add: coins_of_def)
next
  case (round now)
  from run_one_bft(2-4) [OF round] show ?thesis by (simp add: coins_of_def rest)
qed (simp_all add: coins_of_def rest)

lemma node_run_path: "node_run V G marshal codec app0 app \<Longrightarrow> (node_step V G marshal codec)\<^sup>*\<^sup>* app0 app"
  by (induction rule: node_run.induct) (auto intro: rtranclp.rtrancl_into_rtrancl)

interpretation node_coins: simulation "node_step V G marshal codec"
    "\<lambda>app. value_inv app0 app \<and> shared_inv app0 app" coins_of coin_run for V G marshal codec app0
proof
  show "coin_run a a" for a by (rule rest)
  show "coin_run b c \<Longrightarrow> coin_run a b \<Longrightarrow> coin_run a c" for a b c by (rule coin_run_trans)
next
  fix app app'
  assume s: "node_step V G marshal codec app app'" and v: "value_inv app0 app \<and> shared_inv app0 app"
  show "value_inv app0 app' \<and> shared_inv app0 app'" using node_step_keeps [OF s] v by simp
  show "coin_run (coins_of app) (coins_of app')" using coins_node_step [OF s] v by (simp add: value_inv_def)
qed

lemmas coins_node_run = node_coins.view_steps [OF node_run_path]

section \<open>The start\<close>

definition genesis_coins :: coins where
  "genesis_coins =
     \<lparr>co_purse = (\<lambda>_. 0)(community_address := 275000000000000, ecosystem_address := 100000000000000,
        rewards_address := 100000000000000, founder_address := 25000000000000, fifth_address := 25000000000000),
      co_stake = (\<lambda>_. 0), co_deposit = (\<lambda>_. 0), co_rewards = 0, co_fees = 0\<rparr>"

lemma coins_fresh: "coins_of (new_nuvex_app marshal unmarshal None None db) = genesis_coins"
  by (simp add: coins_of_def coins_in_def genesis_coins_def fresh_state get_balance_def fresh_accounts_def
      fresh_account_def stake_of_def deposit_of_def rewards_minted_def fees_logged_def new_staking_def
      new_governance_def fun_eq_iff)

section \<open>Properties\<close>



end
