(* ===== verification/Spec2Isabelle.thy ===== *)
theory Spec2Isabelle
  imports Nuvex_Prelude Nuvex_Sha256 Nuvex_Sha256_Vectors Nuvex_Float64 Nuvex_Burn Nuvex_Mining
    Nuvex_Signature Nuvex_State Nuvex_Mempool Nuvex_Blockchain Nuvex_Consensus Nuvex_BFT
    Nuvex_Staking Nuvex_Governance Nuvex_Dex Nuvex_P2P Nuvex_Peer Nuvex_LevelDB Nuvex_Sha512 Nuvex_Crypto
    Nuvex_EVM Nuvex_App Nuvex_Http Nuvex_NVX20 Nuvex_API Nuvex_Server
    Nuvex_Coins
begin

text \<open>
  Nuvex: a verification development of the node.

  THE PROGRAM. Nuvex is a single-process blockchain node in Go. \<open>NewNuvexApp\<close> (\<open>app/app.go\<close>) opens a state
  keeper (accounts and transaction log, one JSON file) and a chain (one JSON line per block), and builds
  the keepers of \<open>x/nvx/keeper\<close> over them: a mempool, a peer-to-peer node, two consensus engines (one
  that only does accounting and one with PREPARE and COMMIT votes), a burn and a mining keeper, an EVM,
  an exchange, staking and governance. \<open>app/api.go\<close> exposes them over HTTP. The keepers share the
  chain, the mempool and the state by pointer; each has a mutex, and some run loops of their own.

  WHICH THEORY MODELS WHAT.
  Nuvex_Prelude holds the types (u64, i64, the result type res with Ok, Err and Panic), Go's slices,
  integer division, formatting, hexadecimal, sums over finite maps and map iteration.
  Nuvex_Sha256 is SHA-256 itself (crypto/sha256), checked on the vector ''abc'' in
  Nuvex_Sha256_Vectors, Nuvex_Sha512 SHA-512 and HMAC; Nuvex_Float64 is float64 arithmetic with the
  relative errors of its operations; Nuvex_Http is what the handlers use of the standard library:
  reading numbers, decoding JSON into structs, routing.
  Nuvex_Burn is \<open>keeper/burn.go\<close> and \<open>types/constants.go\<close>, Nuvex_Mining \<open>keeper/mining.go\<close>,
  Nuvex_Signature \<open>keeper/signature.go\<close>, Nuvex_State \<open>keeper/state.go\<close>, Nuvex_Mempool
  \<open>keeper/mempool.go\<close>, Nuvex_Blockchain \<open>keeper/blockchain.go\<close>, Nuvex_Consensus \<open>keeper/consensus.go\<close>,
  Nuvex_BFT \<open>keeper/consensus_bft.go\<close>, Nuvex_Staking \<open>keeper/staking.go\<close>, Nuvex_Governance
  \<open>keeper/governance.go\<close>, Nuvex_Dex \<open>keeper/dex.go\<close>, Nuvex_P2P \<open>keeper/p2p.go\<close> (Nuvex_Peer composes
  its steps into the goroutine of one connection), Nuvex_LevelDB
  \<open>keeper/state_leveldb.go\<close>, Nuvex_Crypto \<open>keeper/crypto.go\<close>, Nuvex_EVM \<open>keeper/evm.go\<close> and
  \<open>keeper/evm_v2.go\<close> (its ABI text is Nuvex_NVX20), Nuvex_App \<open>app/app.go\<close> and \<open>app/genesis.go\<close>,
  Nuvex_API the handlers of \<open>app/api.go\<close> and Nuvex_Server its routes and the whole node.
  Nuvex_Coins is a specification: an abstract machine of purses, stakes and deposits, and the locale
  simulation that the node interprets against it.
  A Go struct is a record whose fields carry a short prefix, a method is a function from the
  arguments and the state to the result and the new state, in the order of the source.

  HOW GO IS READ.
  int64 and uint64 are 64-bit words (i64 and u64 are the same type; sint or uint reads one, comparison
  is signed where the Go type is), so every sum wraps as the code's does. int is a mathematical
  integer: the lengths, indices and limits it holds cannot reach 2^63. big.Int is int.
  A map is a partial function; where code ranges over a map, the order is an argument, and the
  lemmas hold for every order that enumerates the domain.
  A panic is a value (Panic) returned with the state the panic leaves behind; most come from slicing
  a short string in a log line, after the state has been changed. The HTTP server survives it.
  float64 is the type f64: exact rationals rounded to nearest even with 53 bits, the two infinities
  and NaN, with subnormals. There is one zero: no modelled code divides by a zero that could carry a
  sign of its own other than an exact result. Fused multiply-add, which Go allows on some
  architectures, is not modelled (amd64 does not fuse).
  A clock reading is an argument, in nanoseconds or as the text the code formats it to.
  A mutex makes its critical section one step. Where a method has several, the model has a step for
  each (the BFT engine) or an argument for what other goroutines do in between (\<open>mid\<close> of \<open>stake\<close> and
  \<open>create_proposal\<close>).
  A file is a field with its contents: saving replaces it, loading reads it. Encoding to JSON and back
  is identity on accounts and transactions; the chain takes an encoder and a decoder of blocks as
  arguments, as its line format depends on them, and so does the peer-to-peer node for its messages.
  A connection is a number, a list of chunks that reads return and a predicate for the writes that
  succeed.

  PARAMETERS. ecdsa.Verify is the argument \<open>verify\<close>, a predicate on key, hash and signature; what is
  proved about signatures holds for every such predicate. LevelDB is a record of operations with the
  documented laws of a key-value store as named hypotheses, and an in-memory database shows that they
  can hold. go-ethereum is a record of the calls the wrappers make, without any law. That the order and
  the prime of secp256k1 are prime and that the base point has that order are named hypotheses
  (curve_facts, signing_facts) of the theorems that need them.

  WHAT IS SHOWN.
  State: the exact effect of a transfer, conservation of value, no overdraft for non-negative
  requests, consecutive nonces, authorisation by signature, persistence; and that a negative amount
  takes money from the receiver. The locale balance_ledger is the contract that staking and governance
  need from balances; the state keeper interprets it.
  Mempool: the bounds and filing invariant, optimality of the selection, exactness of the expiry.
  Blockchain: grown chains validate (locale append_log, interpreted by the chain), GetBlock, the exact
  meaning of ValidateChain, that the last hash commits to the headers, what validation ignores, reload.
  Consensus: the distribution of leaders, the accounting of a block. BFT: a step relation with an
  invariant (valid growing chain), the quorum rule, progress of a single-validator network, and two
  flaws of the vote handling. Mining: the cap and the closed form. Burn: the exact total.
  Staking: conservation, accuracy of the floating-point reward, unstaking; a race with transfers.
  Governance: tallies, exact decision of the outcome, deposits; double voting. Dex: the product
  formula under rounding, quotes, liquidity tokens from a negative removal.
  Peers: an invariant of the table of peers under every interleaving, that the
  goroutine of a connection ends, and three ways to lose messages or peers. LevelDB: refinement of a
  map, the order of the transaction index, a self-deadlock. Wallet: keys are curve points with the
  address the node derives, the signature equation, and that the wallet signs another text than the
  node checks. EVM: the registry and its counters, what an estimate does.
  Application: what a fresh node gives out, what \<open>Run\<close> changes, what a restart forgets.
  Server: the invariant of the whole node under requests, loops, votes and messages in any order; that
  refused requests change nothing; which requests move coins and which of those need a signature;
  routing and the lookup of blocks. Coins: every run of the node is a run of the abstract machine.
  All functions are total and executable. No fuel is used: every loop of the modelled code is a
  recursion on a list or on a number, with its termination proved.

  WHAT IS NOT MODELLED. Printing, log text, ToJSON and the JSON text of answers, response headers,
  percent-escapes in paths; \<open>tests/nuvex_test.go\<close>, the web pages, the Python wallet script and the
  Solidity contract; the execution inside go-ethereum and LevelDB; data races (the code reads some
  fields without their mutex) and the goroutine schedule beyond the interleavings of critical
  sections; in the whole-node relation a handler runs as one step.
\<close>

end
